(* ===== verification/Prelude.thy ===== *)
theory Prelude
  imports Main "HOL-Library.Word" "HOL-Library.List_Lexorder" "HOL-Library.Char_ord"
begin

text \<open>
  Shared vocabulary of the development.

  \<^item> Results: \<open>'a res = err + 'a\<close> stands for Rust's \<open>anyhow::Result\<close>; \<open>Inl\<close> is the error. A
    panic is an error value of its own.
  \<^item> Text is a list of bytes (\<open>string\<close>), as Rust's UTF-8 \<open>String\<close> and SQLite's BINARY
    collation see it; \<open>trim\<close>, decimal printing and \<open>u32\<close> parsing follow Rust's standard library.
  \<^item> Time: a \<open>datetime\<close> counts nanoseconds since the epoch. The \<open>chrono\<close> crate is not part of
    the program, so its formatter, parser and arithmetic are the record \<open>chrono\<close>, with the
    documented behaviour the program relies on in \<open>chrono_ok\<close>.
  \<^item> Tables: a table is the list of its rows. \<open>find_by\<close> and \<open>update_by\<close> are the primary-key lookup
    and update; the locale \<open>keyed_rows\<close> states their contract. \<open>order_by\<close> is \<open>ORDER BY\<close>; the
    locale \<open>row_order\<close> states what a total preorder gives.
\<close>

named_theorems row_simps \<open>unfolding rules of row-level updates\<close>
named_theorems op_defs \<open>definitions of the database operations\<close>
named_theorems inv_intros \<open>preservation rules of the database invariant\<close>


section \<open>Results\<close>

text \<open>\<open>EffectUnknown\<close> is the error of an approval that could not be undone, with the error of the attempt to undo it.\<close>

datatype err = Bail string | SqlError string | Panic string | EffectUnknown err err

type_synonym 'a res = "err + 'a"

fun res_bind :: "'a res \<Rightarrow> ('a \<Rightarrow> 'b res) \<Rightarrow> 'b res" where
  "res_bind (Inl e) f = Inl e"
| "res_bind (Inr a) f = f a"

definition ensure :: "bool \<Rightarrow> err \<Rightarrow> unit res" where
  "ensure b e = (if b then Inr () else Inl e)"

fun opt_res :: "('a \<Rightarrow> 'b res) \<Rightarrow> 'a option \<Rightarrow> 'b option res" where
  "opt_res f None = Inr None"
| "opt_res f (Some a) = res_bind (f a) (\<lambda>b. Inr (Some b))"

text \<open>\<open>with_context\<close> of \<open>anyhow\<close>: the error displays as the message.\<close>

definition with_context :: "string \<Rightarrow> 'a res \<Rightarrow> 'a res" where
  "with_context message r = (case r of Inl _ \<Rightarrow> Inl (Bail message) | Inr a \<Rightarrow> Inr a)"

fun is_ok :: "'a res \<Rightarrow> bool" where
  "is_ok (Inl e) = False"
| "is_ok (Inr a) = True"


section \<open>JSON values of event payloads\<close>

type_synonym datetime = int

datatype json =
    JNull
  | JBool bool
  | JInt int
  | JStr string
  | JTime datetime
  | JObj "(string \<times> json) list"

fun jopt :: "string option \<Rightarrow> json" where
  "jopt None = JNull"
| "jopt (Some s) = JStr s"


section \<open>Strings\<close>

fun has_prefix :: "string \<Rightarrow> string \<Rightarrow> bool" where
  "has_prefix [] s = True"
| "has_prefix (p # ps) [] = False"
| "has_prefix (p # ps) (c # cs) = (p = c \<and> has_prefix ps cs)"

definition strip_prefix :: "string \<Rightarrow> string \<Rightarrow> string option" where
  "strip_prefix p s = (if has_prefix p s then Some (drop (length p) s) else None)"

definition byte_val :: "char \<Rightarrow> nat" where
  "byte_val c = of_char c"

text \<open>Length in bytes of the Unicode \<open>White_Space\<close> character a byte string starts with (0 when it
  starts with none): the ASCII ones, U+0085, U+00A0, U+1680, U+2000 to U+200A, U+2028, U+2029,
  U+202F, U+205F and U+3000.\<close>

definition ws1 :: "nat \<Rightarrow> bool" where
  "ws1 b = ((9 \<le> b \<and> b \<le> 13) \<or> b = 32)"

definition ws2 :: "nat \<Rightarrow> nat \<Rightarrow> bool" where
  "ws2 b c = (b = 194 \<and> (c = 133 \<or> c = 160))"

definition ws3 :: "nat \<Rightarrow> nat \<Rightarrow> nat \<Rightarrow> bool" where
  "ws3 b c d =
    ((b = 225 \<and> c = 154 \<and> d = 128) \<or>
     (b = 226 \<and> c = 128 \<and> ((128 \<le> d \<and> d \<le> 138) \<or> d = 168 \<or> d = 169 \<or> d = 175)) \<or>
     (b = 226 \<and> c = 129 \<and> d = 159) \<or>
     (b = 227 \<and> c = 128 \<and> d = 128))"

fun trim_start :: "string \<Rightarrow> string" where
  "trim_start [] = []"
| "trim_start [a] = (if ws1 (byte_val a) then [] else [a])"
| "trim_start [a, b] =
    (if ws1 (byte_val a) then trim_start [b]
     else if ws2 (byte_val a) (byte_val b) then [] else [a, b])"
| "trim_start (a # b # c # s) =
    (if ws1 (byte_val a) then trim_start (b # c # s)
     else if ws2 (byte_val a) (byte_val b) then trim_start (c # s)
     else if ws3 (byte_val a) (byte_val b) (byte_val c) then trim_start s
     else a # b # c # s)"

text \<open>The same from the end, on the reversed string.\<close>

fun trim_rev :: "string \<Rightarrow> string" where
  "trim_rev [] = []"
| "trim_rev [a] = (if ws1 (byte_val a) then [] else [a])"
| "trim_rev [a, b] =
    (if ws1 (byte_val a) then trim_rev [b]
     else if ws2 (byte_val b) (byte_val a) then [] else [a, b])"
| "trim_rev (a # b # c # s) =
    (if ws1 (byte_val a) then trim_rev (b # c # s)
     else if ws2 (byte_val b) (byte_val a) then trim_rev (c # s)
     else if ws3 (byte_val c) (byte_val b) (byte_val a) then trim_rev s
     else a # b # c # s)"

definition trim :: "string \<Rightarrow> string" where
  "trim s = rev (trim_rev (rev (trim_start s)))"

text \<open>\<open>str::split\<close> on one byte, and its inverse \<open>join\<close>.\<close>

fun split_on :: "char \<Rightarrow> string \<Rightarrow> string list" where
  "split_on c [] = [[]]"
| "split_on c (x # xs) =
    (if x = c then [] # split_on c xs
     else (case split_on c xs of [] \<Rightarrow> [[x]] | w # ws \<Rightarrow> (x # w) # ws))"

fun join_with :: "string \<Rightarrow> string list \<Rightarrow> string" where
  "join_with sep [] = []"
| "join_with sep [w] = w"
| "join_with sep (w # v # ws) = w @ sep @ join_with sep (v # ws)"

definition digit_char :: "nat \<Rightarrow> char" where
  "digit_char n = char_of (48 + n)"

fun show_nat :: "nat \<Rightarrow> string" where
  "show_nat n = (if n < 10 then [digit_char n] else show_nat (n div 10) @ [digit_char (n mod 10)])"

declare show_nat.simps [simp del]

definition show_u32 :: "32 word \<Rightarrow> string" where
  "show_u32 w = show_nat (unat w)"

definition is_digit :: "char \<Rightarrow> bool" where
  "is_digit c = (48 \<le> byte_val c \<and> byte_val c \<le> 57)"

definition digits_val :: "string \<Rightarrow> nat" where
  "digits_val s = foldl (\<lambda>n c. 10 * n + (byte_val c - 48)) 0 s"

text \<open>\<open>u32::from_str\<close>: an optional plus sign, then one or more digits whose value fits 32 bits.\<close>

definition parse_u32 :: "string \<Rightarrow> nat option" where
  "parse_u32 s =
    (let ds = (case s of [] \<Rightarrow> [] | c # cs \<Rightarrow> if c = CHR ''+'' then cs else s)
     in if ds \<noteq> [] \<and> list_all is_digit ds \<and> digits_val ds < 2 ^ 32 then Some (digits_val ds)
        else None)"

definition is_absolute :: "string \<Rightarrow> bool" where
  "is_absolute p = has_prefix ''/'' p"

text \<open>\<open>Path::join\<close>, and \<open>Path::parent\<close>: everything before the last component, separators at the end
  not counting.\<close>

definition path_join :: "string \<Rightarrow> string \<Rightarrow> string" where
  "path_join a b =
    (if is_absolute b \<or> a = [] then b
     else if last a = CHR ''/'' then a @ b else a @ ''/'' @ b)"

definition path_parent :: "string \<Rightarrow> string" where
  "path_parent p =
    (let slash = (\<lambda>c. c = CHR ''/'');
         parent = rev (dropWhile slash (dropWhile (\<lambda>c. \<not> slash c) (dropWhile slash (rev p))))
     in if parent = [] \<and> is_absolute p then ''/'' else parent)"

definition pad3 :: "string \<Rightarrow> string" where
  "pad3 s = replicate (3 - length s) (CHR ''0'') @ s"


section \<open>Time\<close>

definition nanos :: int where
  "nanos = 1000000000"

record chrono =
  to_rfc3339_secs :: "datetime \<Rightarrow> string"
  parse_rfc3339 :: "string \<Rightarrow> datetime option"
  try_seconds :: "int \<Rightarrow> int option"
  duration_max :: int
  add_duration :: "datetime \<Rightarrow> int \<Rightarrow> datetime option"

text \<open>The years 0 to 9999, which RFC 3339 writes with four digits.\<close>

definition rfc3339_range :: "datetime \<Rightarrow> bool" where
  "rfc3339_range t = (- 62167219200 * nanos \<le> t \<and> t < 253402300800 * nanos)"

text \<open>Documented behaviour of \<open>chrono\<close>: text written with second precision reads back as the
  instant with its sub-second part dropped; \<open>TimeDelta::try_seconds\<close> succeeds on every count of
  seconds whose milliseconds fit an \<open>i64\<close>; adding a duration is exact when it does not overflow,
  and cannot overflow within the RFC 3339 range.\<close>

definition chrono_ok :: "chrono \<Rightarrow> bool" where
  "chrono_ok C =
    ((\<forall>t. rfc3339_range t \<longrightarrow>
        parse_rfc3339 C (to_rfc3339_secs C t) = Some (t div nanos * nanos)) \<and>
     (\<forall>n. 0 \<le> n \<and> n \<le> 9223372036854775 \<longrightarrow> try_seconds C n = Some (n * nanos)) \<and>
     (\<forall>t d u. add_duration C t d = Some u \<longrightarrow> u = t + d) \<and>
     (\<forall>t d. rfc3339_range t \<and> rfc3339_range (t + d) \<longrightarrow> add_duration C t d = Some (t + d)))"

text \<open>A concrete instance, used where a hypothesis about \<open>chrono\<close> has to be shown satisfiable:
  an instant is written as a sign followed by one mark per second.\<close>

definition unary_chrono :: chrono where
  "unary_chrono =
    \<lparr> to_rfc3339_secs = (\<lambda>t. (if t < 0 then CHR ''-'' else CHR ''+'') #
                            replicate (nat \<bar>t div nanos\<bar>) (CHR ''s'')),
      parse_rfc3339 = (\<lambda>s. case s of [] \<Rightarrow> None
        | c # cs \<Rightarrow> if c = CHR ''-'' then Some (- int (length cs) * nanos)
                    else Some (int (length cs) * nanos)),
      try_seconds = (\<lambda>n. if \<bar>n\<bar> \<le> 9223372036854775 then Some (n * nanos) else None),
      duration_max = 9223372036854775807 * 1000000,
      add_duration = (\<lambda>t d. if \<bar>t + d\<bar> \<le> 8210298412799 * nanos then Some (t + d) else None) \<rparr>"


section \<open>Tables\<close>

definition find_by :: "('r \<Rightarrow> 'k) \<Rightarrow> 'k \<Rightarrow> 'r list \<Rightarrow> 'r option" where
  "find_by key k rows = find (\<lambda>r. key r = k) rows"

definition update_by :: "('r \<Rightarrow> bool) \<Rightarrow> ('r \<Rightarrow> 'r) \<Rightarrow> 'r list \<Rightarrow> 'r list" where
  "update_by P f rows = map (\<lambda>r. if P r then f r else r) rows"

text \<open>The number of rows an \<open>UPDATE\<close> or \<open>DELETE\<close> touches.\<close>

definition count_by :: "('r \<Rightarrow> bool) \<Rightarrow> 'r list \<Rightarrow> nat" where
  "count_by P rows = length (filter P rows)"

fun insert_by :: "('r \<Rightarrow> 'r \<Rightarrow> bool) \<Rightarrow> 'r \<Rightarrow> 'r list \<Rightarrow> 'r list" where
  "insert_by le x [] = [x]"
| "insert_by le x (y # ys) = (if le x y then x # y # ys else y # insert_by le x ys)"

definition order_by :: "('r \<Rightarrow> 'r \<Rightarrow> bool) \<Rightarrow> 'r list \<Rightarrow> 'r list" where
  "order_by le rows = foldr (insert_by le) rows []"

text \<open>\<open>SELECT ... LIMIT 1\<close>.\<close>

definition limit_1 :: "'r list \<Rightarrow> 'r option" where
  "limit_1 rows = (case rows of [] \<Rightarrow> None | r # rs \<Rightarrow> Some r)"

text \<open>\<open>ORDER BY\<close> on a nullable column: SQLite sorts \<open>NULL\<close> before every value.\<close>

fun null_first_le :: "'a::linorder option \<Rightarrow> 'a option \<Rightarrow> bool" where
  "null_first_le None y = True"
| "null_first_le (Some a) None = False"
| "null_first_le (Some a) (Some b) = (a \<le> b)"



section \<open>Generic lemmas\<close>

lemma res_bind_Inr_iff: "res_bind r f = Inr b \<longleftrightarrow> (\<exists>a. r = Inr a \<and> f a = Inr b)"
  by (cases r) auto

lemma res_bind_Inl_iff:
  "res_bind r f = Inl e \<longleftrightarrow> r = Inl e \<or> (\<exists>a. r = Inr a \<and> f a = Inl e)"
  by (cases r) auto

lemma ensure_Inr [simp]: "ensure b e = Inr u \<longleftrightarrow> b"
  by (simp add: ensure_def)

lemma ensure_Inl [simp]: "ensure b e = Inl e' \<longleftrightarrow> \<not> b \<and> e' = e"
  by (auto simp: ensure_def)

lemma ensure_True [simp]: "ensure True e = Inr ()"
  by (simp add: ensure_def)

lemma is_ok_iff: "is_ok r \<longleftrightarrow> (\<exists>a. r = Inr a)"
  by (cases r) auto

lemma find_by_Some_key: "find_by key k rows = Some r \<Longrightarrow> key r = k"
  by (auto simp: find_by_def find_Some_iff)

lemma find_by_Some_in: "find_by key k rows = Some r \<Longrightarrow> r \<in> set rows"
  by (auto simp: find_by_def find_Some_iff)

lemma find_by_None_iff: "find_by key k rows = None \<longleftrightarrow> k \<notin> key ` set rows"
  by (auto simp: find_by_def find_None_iff)

lemma find_by_distinct:
  "distinct (map key rows) \<Longrightarrow> r \<in> set rows \<Longrightarrow> find_by key (key r) rows = Some r"
  unfolding find_by_def
proof (induction rows)
  case (Cons a rows)
  show ?case
  proof (cases "r = a")
    case False
    then have "key a \<noteq> key r" using Cons.prems by (auto simp: image_iff)
    then show ?thesis using Cons False by auto
  qed simp
qed simp

lemma find_by_update:
  assumes "\<And>r. key (f r) = key r"
  shows "find_by key k (update_by (\<lambda>r. key r = j) f rows) =
    (if k = j then map_option f (find_by key k rows) else find_by key k rows)"
  using assms by (induction rows) (auto simp: find_by_def update_by_def)

lemma find_by_update_where:
  assumes "\<And>r. key (f r) = key r"
  shows "find_by key k (update_by P f rows) =
    map_option (\<lambda>r. if P r then f r else r) (find_by key k rows)"
  using assms by (induction rows) (auto simp: find_by_def update_by_def)

lemma find_by_map:
  assumes "\<And>r. key (f r) = key r"
  shows "find_by key k (map f rows) = map_option f (find_by key k rows)"
  using assms by (induction rows) (auto simp: find_by_def)

lemma find_by_append:
  "find_by key k (rows @ [r]) =
    (case find_by key k rows of Some r' \<Rightarrow> Some r' | None \<Rightarrow> if key r = k then Some r else None)"
  by (induction rows) (auto simp: find_by_def)

lemma map_key_update [simp]:
  "(\<And>r. key (f r) = key r) \<Longrightarrow> map key (update_by P f rows) = map key rows"
  by (simp add: update_by_def)

lemma set_update_by: "set (update_by P f rows) = (\<lambda>r. if P r then f r else r) ` set rows"
  by (simp add: update_by_def)

lemma ball_update_by:
  "(\<forall>r\<in>set rows. Q r) \<Longrightarrow> (\<And>r. P r \<Longrightarrow> Q r \<Longrightarrow> Q (f r)) \<Longrightarrow> \<forall>r\<in>set (update_by P f rows). Q r"
  by (auto simp: update_by_def)

lemma length_update_by [simp]: "length (update_by P f rows) = length rows"
  by (simp add: update_by_def)

lemma update_by_id: "(\<And>r. r \<in> set rows \<Longrightarrow> P r \<Longrightarrow> f r = r) \<Longrightarrow> update_by P f rows = rows"
  unfolding update_by_def by (rule map_idI) auto

lemma count_by_0 [simp]: "count_by P rows = 0 \<longleftrightarrow> (\<forall>r\<in>set rows. \<not> P r)"
  by (simp add: count_by_def filter_empty_conv)

lemma count_by_key_0: "count_by (\<lambda>r. key r = k) rows = 0 \<longleftrightarrow> find_by key k rows = None"
  by (auto simp: find_by_None_iff)

lemma set_insert_by [simp]: "set (insert_by le x ys) = insert x (set ys)"
  by (induction ys) auto

lemma set_order_by [simp]: "set (order_by le rows) = set rows"
  unfolding order_by_def by (induction rows) auto

lemma length_insert_by [simp]: "length (insert_by le x ys) = Suc (length ys)"
  by (induction ys) auto

lemma length_order_by [simp]: "length (order_by le rows) = length rows"
  unfolding order_by_def by (induction rows) auto

lemma order_by_Nil_iff [simp]: "order_by le rows = [] \<longleftrightarrow> rows = []"
  by (metis length_0_conv length_order_by)

lemma limit_1_None_iff [simp]: "limit_1 rows = None \<longleftrightarrow> rows = []"
  by (simp add: limit_1_def split: list.split)

lemma limit_1_Some_iff: "limit_1 rows = Some r \<longleftrightarrow> (\<exists>rs. rows = r # rs)"
  by (auto simp: limit_1_def split: list.split)


section \<open>Contracts of the table operations\<close>

text \<open>The contract of a keyed table: what the lookup returns after an update of the row with a
  given key, and after an unrelated update. The client lemmas below need nothing else.\<close>

locale keyed_rows =
  fixes get :: "string \<Rightarrow> 's \<Rightarrow> 'r option"
    and upd :: "string \<Rightarrow> ('r \<Rightarrow> 'r) \<Rightarrow> 's \<Rightarrow> 's"
    and key :: "'r \<Rightarrow> string"
  assumes get_key: "get k s = Some r \<Longrightarrow> key r = k"
    and get_upd: "(\<And>r. key (f r) = key r) \<Longrightarrow>
      get k (upd j f s) = (if k = j then map_option f (get k s) else get k s)"
begin

lemma get_upd_same:
  assumes "\<And>r. key (f r) = key r" and "get k s = Some r"
  shows "get k (upd k f s) = Some (f r)"
  using assms by (simp add: get_upd)

lemma get_upd_other:
  assumes "\<And>r. key (f r) = key r" and "k \<noteq> j"
  shows "get k (upd j f s) = get k s"
  using assms by (simp add: get_upd)

lemma get_upd_none:
  assumes "\<And>r. key (f r) = key r" and "get k s = None"
  shows "get k (upd j f s) = None"
  using assms by (auto simp: get_upd)

text \<open>A sequence of updates of rows other than \<open>k\<close> leaves row \<open>k\<close> alone.\<close>

lemma get_fold_other:
  assumes "\<And>f r. f \<in> snd ` set us \<Longrightarrow> key (f r) = key r" and "k \<notin> fst ` set us"
  shows "get k (fold (\<lambda>(j, f). upd j f) us s) = get k s"
  using assms
proof (induction us arbitrary: s)
  case Nil
  then show ?case by simp
next
  case (Cons u us)
  obtain j f where u: "u = (j, f)" by (cases u)
  have "get k (upd j f s) = get k s"
    using Cons.prems u by (intro get_upd_other) auto
  then show ?case using Cons u by simp
qed

text \<open>\<open>n\<close> updates of the same row are one update by the \<open>n\<close>-fold function.\<close>

lemma get_upd_funpow:
  assumes "\<And>r. key (f r) = key r"
  shows "get k ((upd k f ^^ n) s) = map_option (f ^^ n) (get k s)"
proof (induction n)
  case 0
  show ?case by (simp add: option.map_ident)
next
  case (Suc n)
  then show ?case using assms by (simp add: get_upd option.map_comp comp_def)
qed

end

text \<open>The contract of \<open>ORDER BY\<close>: with a total preorder the rows come out sorted, none is lost or
  duplicated, and the first row with a property is least among those that have it.\<close>

locale row_order =
  fixes le :: "'r \<Rightarrow> 'r \<Rightarrow> bool"
  assumes total: "le x y \<or> le y x"
    and trans: "le x y \<Longrightarrow> le y z \<Longrightarrow> le x z"
begin

lemma refl: "le x x"
  using total by blast

lemma sorted_insert_by: "sorted_wrt le ys \<Longrightarrow> sorted_wrt le (insert_by le x ys)"
proof (induction ys)
  case (Cons y ys)
  then show ?case using total trans by auto
qed simp

lemma sorted_order_by: "sorted_wrt le (order_by le rows)"
  unfolding order_by_def by (induction rows) (simp_all add: sorted_insert_by)

lemma limit_1_least:
  assumes "limit_1 (order_by le rows) = Some r"
  shows "r \<in> set rows" and "\<And>x. x \<in> set rows \<Longrightarrow> le r x"
proof -
  obtain rs where eq: "order_by le rows = r # rs"
    using assms by (auto simp: limit_1_Some_iff)
  then have "set rows = insert r (set rs)"
    by (metis list.simps(15) set_order_by)
  moreover have "\<forall>x\<in>set rs. le r x"
    using sorted_order_by [of rows] eq by simp
  ultimately show "r \<in> set rows" and "\<And>x. x \<in> set rows \<Longrightarrow> le r x"
    using refl by auto
qed

lemma find_sorted_least:
  "sorted_wrt le ys \<Longrightarrow> find P ys = Some r \<Longrightarrow> x \<in> set ys \<Longrightarrow> P x \<Longrightarrow> le r x"
  by (induction ys) (auto split: if_splits simp: refl dest: find_Some_iff [THEN iffD1])

lemma find_order_by_least:
  assumes "find P (order_by le rows) = Some r"
  shows "r \<in> set rows" and "P r" and "\<And>x. x \<in> set rows \<Longrightarrow> P x \<Longrightarrow> le r x"
proof -
  have "r \<in> set (order_by le rows) \<and> P r"
    using assms by (metis find_Some_iff nth_mem)
  then show "r \<in> set rows" and "P r" by simp_all
  show "le r x" if "x \<in> set rows" "P x" for x
    using find_sorted_least [OF sorted_order_by assms] that by simp
qed

end

text \<open>The contract of a step relation that keeps an invariant, and of one that moreover never decreases a
  counter; the client lemmas extend both to every sequence of steps.\<close>

locale step_invariant =
  fixes step :: "'s \<Rightarrow> 's \<Rightarrow> bool" and inv :: "'s \<Rightarrow> bool"
  assumes preserved: "inv s \<Longrightarrow> step s s' \<Longrightarrow> inv s'"
begin

lemma steps: "step\<^sup>*\<^sup>* s s' \<Longrightarrow> inv s \<Longrightarrow> inv s'"
  by (induction rule: rtranclp_induct) (auto intro: preserved)

end

locale step_counter = step_invariant step inv for step :: "'s \<Rightarrow> 's \<Rightarrow> bool" and inv +
  fixes count :: "'s \<Rightarrow> int"
  assumes counts_up: "inv s \<Longrightarrow> step s s' \<Longrightarrow> count s \<le> count s'"
begin

lemma steps_count: "step\<^sup>*\<^sup>* s s' \<Longrightarrow> inv s \<Longrightarrow> count s \<le> count s'"
proof (induction rule: rtranclp_induct)
  case (step y z)
  then show ?case using counts_up steps by (meson order_trans)
qed simp

text \<open>A counter that one of the steps has increased never returns to its old value.\<close>

lemma steps_through:
  assumes "step\<^sup>*\<^sup>* s s1" "step s1 s2" "count s1 < count s2" "step\<^sup>*\<^sup>* s2 s'" "inv s"
  shows "count s < count s'"
proof -
  have "inv s2" using assms steps preserved by blast
  then show ?thesis
    using steps_count [OF assms(1,5)] steps_count [OF assms(4)] assms(3) by linarith
qed

end


section \<open>Interpretations and arithmetic of text and time\<close>

interpretation list_rows: keyed_rows "find_by key" "\<lambda>k. update_by (\<lambda>r. key r = k)" key
  for key :: "'r \<Rightarrow> string"
  by unfold_locales (auto simp: find_by_update dest: find_by_Some_key)

lemma null_first_total: "null_first_le a b \<or> null_first_le b a"
  by (cases a; cases b) auto

lemma null_first_trans: "null_first_le a b \<Longrightarrow> null_first_le b c \<Longrightarrow> null_first_le a c"
  by (cases a; cases b; cases c) auto

lemma chrono_parse:
  "chrono_ok C \<Longrightarrow> rfc3339_range t \<Longrightarrow> parse_rfc3339 C (to_rfc3339_secs C t) = Some (t div nanos * nanos)"
  unfolding chrono_ok_def by blast

lemma chrono_seconds:
  "chrono_ok C \<Longrightarrow> 0 \<le> n \<Longrightarrow> n \<le> 9223372036854775 \<Longrightarrow> try_seconds C n = Some (n * nanos)"
  unfolding chrono_ok_def by blast

lemma chrono_add: "chrono_ok C \<Longrightarrow> add_duration C t d = Some u \<Longrightarrow> u = t + d"
  unfolding chrono_ok_def by blast

lemma chrono_add_range:
  "chrono_ok C \<Longrightarrow> rfc3339_range t \<Longrightarrow> rfc3339_range (t + d) \<Longrightarrow> add_duration C t d = Some (t + d)"
  unfolding chrono_ok_def by blast

lemma unary_round_trip:
  "parse_rfc3339 unary_chrono (to_rfc3339_secs unary_chrono t) = Some (t div nanos * nanos)"
proof (cases "t < 0")
  case True
  then have "t div nanos < 0" by (simp add: nanos_def pos_imp_zdiv_neg_iff)
  then show ?thesis using True by (simp add: unary_chrono_def)
next
  case False
  then have "0 \<le> t div nanos" by (simp add: nanos_def pos_imp_zdiv_nonneg_iff)
  then show ?thesis using False by (simp add: unary_chrono_def)
qed

lemma unary_add:
  "rfc3339_range (t + d) \<Longrightarrow> add_duration unary_chrono t d = Some (t + d)"
  unfolding unary_chrono_def rfc3339_range_def nanos_def by (simp add: abs_le_iff)

lemma unary_chrono_ok: "chrono_ok unary_chrono"
  unfolding chrono_ok_def
proof (intro conjI allI impI)
  show "u = t + d" if "add_duration unary_chrono t d = Some u" for t d u
    using that by (simp add: unary_chrono_def split: if_splits)
  show "try_seconds unary_chrono n = Some (n * nanos)" if "0 \<le> n \<and> n \<le> 9223372036854775" for n
    using that by (simp add: unary_chrono_def)
qed (simp_all add: unary_round_trip unary_add)

lemma split_on_not_Nil [simp]: "split_on c s \<noteq> []"
  by (induction s) (auto split: list.split)

lemma join_split_on: "join_with [c] (split_on c s) = s"
proof (induction s)
  case (Cons x xs)
  obtain w ws where w: "split_on c xs = w # ws"
    by (meson neq_Nil_conv split_on_not_Nil)
  then show ?case using Cons by (cases ws) auto
qed simp

lemma split_on_free: "w \<in> set (split_on c s) \<Longrightarrow> c \<notin> set w"
proof (induction s arbitrary: w)
  case (Cons x xs)
  then show ?case by (cases "split_on c xs") (auto split: if_splits)
qed simp

lemma byte_val_digit: "n < 10 \<Longrightarrow> byte_val (digit_char n) = 48 + n"
  by (simp add: byte_val_def digit_char_def)

lemma is_digit_digit_char: "n < 10 \<Longrightarrow> is_digit (digit_char n)"
  by (simp add: is_digit_def byte_val_digit)

lemma digits_val_snoc: "digits_val (s @ [c]) = 10 * digits_val s + (byte_val c - 48)"
  by (simp add: digits_val_def)

lemma show_nat_digits: "list_all is_digit (show_nat n) \<and> show_nat n \<noteq> [] \<and> digits_val (show_nat n) = n"
proof (induction n rule: show_nat.induct)
  case (1 n)
  show ?case
  proof (cases "n < 10")
    case True
    then show ?thesis
      by (simp add: show_nat.simps [of n] is_digit_digit_char digits_val_def byte_val_digit)
  next
    case False
    then show ?thesis using 1
      by (simp add: show_nat.simps [of n] is_digit_digit_char digits_val_snoc byte_val_digit)
  qed
qed

lemma digits_val_zeros: "digits_val (replicate k (CHR ''0'') @ s) = digits_val s"
  by (induction k) (simp_all add: digits_val_def byte_val_def)

lemma parse_u32_digits:
  assumes "list_all is_digit s" "s \<noteq> []"
  shows "parse_u32 s = (if digits_val s < 2 ^ 32 then Some (digits_val s) else None)"
proof -
  have "hd s \<noteq> CHR ''+''"
    using assms by (cases s) (auto simp: is_digit_def byte_val_def)
  then show ?thesis using assms by (cases s) (auto simp: parse_u32_def)
qed

lemma parse_show_u32: "n < 2 ^ 32 \<Longrightarrow> parse_u32 (pad3 (show_nat n)) = Some n"
proof -
  assume n: "n < 2 ^ 32"
  have "list_all is_digit (pad3 (show_nat n))" "pad3 (show_nat n) \<noteq> []"
    using show_nat_digits [of n]
    by (auto simp: pad3_def list_all_iff is_digit_def byte_val_def)
  moreover have "digits_val (pad3 (show_nat n)) = n"
    using show_nat_digits [of n] by (simp add: pad3_def digits_val_zeros)
  ultimately show ?thesis using n by (simp add: parse_u32_digits)
qed

text \<open>Trimming is idempotent, although white space may be several bytes long.\<close>

lemma length_trim_start: "length (trim_start s) \<le> length s"
  by (induction s rule: trim_start.induct) auto

lemma length_trim_rev: "length (trim_rev s) \<le> length s"
  by (induction s rule: trim_rev.induct) auto

lemma trim_start_idem: "trim_start (trim_start s) = trim_start s"
  by (induction s rule: trim_start.induct) auto

lemma trim_rev_idem: "trim_rev (trim_rev s) = trim_rev s"
  by (induction s rule: trim_rev.induct) auto

lemma trim_start_prefix:
  assumes "trim_start (r @ u) = r @ u"
  shows "trim_start r = r"
proof -
  have len: "length (trim_start t) < Suc (length t)" for t
    using length_trim_start [of t] by simp
  consider "r = []" | a where "r = [a]" | a b where "r = [a, b]" | a b c r' where "r = a # b # c # r'"
    by (metis list.exhaust)
  then show ?thesis
  proof cases
    case (2 a)
    have "\<not> ws1 (byte_val a)"
    proof
      assume "ws1 (byte_val a)"
      then have "trim_start (a # u) = trim_start u" by (cases u rule: trim_start.cases) auto
      then show False using assms 2 len [of u] by (metis append_Cons append_Nil length_Cons less_irrefl)
    qed
    then show ?thesis using 2 by simp
  next
    case (3 a b)
    have "\<not> ws1 (byte_val a)"
    proof
      assume "ws1 (byte_val a)"
      then have "trim_start (a # b # u) = trim_start (b # u)" by (cases u) auto
      then show False using assms 3 len [of "b # u"] by (metis append_Cons append_Nil length_Cons less_irrefl)
    qed
    moreover have "\<not> ws2 (byte_val a) (byte_val b)"
    proof
      assume "ws2 (byte_val a) (byte_val b)"
      then have "trim_start (a # b # u) = trim_start u" using calculation by (cases u) auto
      then show False using assms 3 len [of u] length_trim_start [of u]
        by (metis Suc_n_not_le_n append_Cons append_Nil le_SucI length_Cons)
    qed
    ultimately show ?thesis using 3 by simp
  next
    case (4 a b c r')
    let ?t = "a # b # c # r' @ u"
    have eq: "trim_start ?t = ?t" using assms 4 by simp
    have "\<not> ws1 (byte_val a)" using eq length_trim_start [of "b # c # r' @ u"] by (auto split: if_splits)
    moreover have "\<not> ws2 (byte_val a) (byte_val b)"
      using eq length_trim_start [of "c # r' @ u"] calculation by (auto split: if_splits)
    moreover have "\<not> ws3 (byte_val a) (byte_val b) (byte_val c)"
      using eq length_trim_start [of "r' @ u"] calculation by (auto split: if_splits)
    ultimately show ?thesis using 4 by simp
  qed simp
qed

lemma trim_rev_suffix: "\<exists>u. s = u @ trim_rev s"
proof (induction s rule: trim_rev.induct)
  case (4 a b c s)
  then show ?case by (simp split: if_splits) (metis append_Cons)
qed (auto intro: exI [of _ "[]"])

lemma trim_idem [simp]: "trim (trim s) = trim s"
proof -
  let ?t = "trim_start s"
  obtain u where u: "rev ?t = u @ trim_rev (rev ?t)" using trim_rev_suffix by blast
  then have "?t = trim s @ rev u" by (metis rev_append rev_rev_ident trim_def)
  then have "trim_start (trim s) = trim s"
    using trim_start_prefix trim_start_idem [of s] by metis
  then show ?thesis by (simp add: trim_def trim_rev_idem)
qed

end
