(* ===== verification/Runtime_Status.thy ===== *)
theory Runtime_Status
  imports Prelude
begin

text \<open>
  Task lifecycle states (\<open>src/src/runtime_status.rs\<close>) with their wire names and the predicates that
  ownership and scheduling share, the states of the legacy \<open>STATE.json\<close> and their translation
  (\<open>src/src/legacy_state.rs\<close>), and agent identities (\<open>src/src/agent_id.rs\<close>). The lemmas show that
  the wire names are a bijection onto the accepted strings and how the predicates partition the
  states.
\<close>

datatype TaskStatus =
    Unknown
  | Pending
  | Executing
  | Addressing
  | Consultation
  | AwaitingHuman
  | Reviewing
  | Complete
  | Failed
  | Reset

fun as_str :: "TaskStatus \<Rightarrow> string" where
  "as_str Unknown = ''unknown''"
| "as_str Pending = ''pending''"
| "as_str Executing = ''executing''"
| "as_str Addressing = ''addressing''"
| "as_str Consultation = ''consultation''"
| "as_str AwaitingHuman = ''awaiting_human''"
| "as_str Reviewing = ''reviewing''"
| "as_str Complete = ''complete''"
| "as_str Failed = ''failed''"
| "as_str Reset = ''reset''"

fun clears_lease :: "TaskStatus \<Rightarrow> bool" where
  "clears_lease Reset = True"
| "clears_lease Reviewing = True"
| "clears_lease Addressing = True"
| "clears_lease Complete = True"
| "clears_lease Failed = True"
| "clears_lease _ = False"

fun is_executor_ready :: "TaskStatus \<Rightarrow> bool" where
  "is_executor_ready Pending = True"
| "is_executor_ready Executing = True"
| "is_executor_ready Addressing = True"
| "is_executor_ready _ = False"

fun is_executor_working :: "TaskStatus \<Rightarrow> bool" where
  "is_executor_working Executing = True"
| "is_executor_working Addressing = True"
| "is_executor_working _ = False"

fun is_resettable :: "TaskStatus \<Rightarrow> bool" where
  "is_resettable Unknown = False"
| "is_resettable Reset = False"
| "is_resettable Complete = False"
| "is_resettable _ = True"

fun is_terminal :: "TaskStatus \<Rightarrow> bool" where
  "is_terminal Reset = True"
| "is_terminal Complete = True"
| "is_terminal Failed = True"
| "is_terminal _ = False"

definition from_str :: "string \<Rightarrow> TaskStatus res" where
  "from_str value =
    (if value = ''unknown'' then Inr Unknown
     else if value = ''pending'' then Inr Pending
     else if value = ''executing'' then Inr Executing
     else if value = ''addressing'' then Inr Addressing
     else if value = ''consultation'' then Inr Consultation
     else if value = ''awaiting_human'' then Inr AwaitingHuman
     else if value = ''reviewing'' then Inr Reviewing
     else if value = ''complete'' then Inr Complete
     else if value = ''failed'' then Inr Failed
     else if value = ''reset'' then Inr Reset
     else Inl (Bail (''unknown task status: '' @ value)))"


section \<open>Legacy state files\<close>

datatype LegacyTaskState =
    LegacyIdle
  | LegacyExecuting
  | LegacyConsultation
  | LegacyReviewing
  | LegacyAddressing
  | LegacyComplete
  | LegacyFailed
  | LegacyAwaitingHuman

record LegacyStateData =
  legacy_state_field :: "LegacyTaskState option"
  legacy_check_retries :: "32 word"
  legacy_review_cycles :: "32 word"
  legacy_failure_reason :: "string option"
  legacy_paused_state :: "LegacyTaskState option"
  legacy_awaiting_human_by :: "string option"
  legacy_task_spec :: "string option"
  legacy_task_milestone :: "string option"
  legacy_selected_spec :: "string option"
  legacy_selected_milestone :: "string option"
  legacy_updated_at :: "datetime option"

definition legacy_state :: "LegacyStateData \<Rightarrow> LegacyTaskState" where
  "legacy_state d = (case legacy_state_field d of Some s \<Rightarrow> s | None \<Rightarrow> LegacyIdle)"

fun task_status_for_legacy_state :: "LegacyTaskState \<Rightarrow> TaskStatus" where
  "task_status_for_legacy_state LegacyIdle = Reset"
| "task_status_for_legacy_state LegacyExecuting = Executing"
| "task_status_for_legacy_state LegacyConsultation = Consultation"
| "task_status_for_legacy_state LegacyReviewing = Reviewing"
| "task_status_for_legacy_state LegacyAddressing = Addressing"
| "task_status_for_legacy_state LegacyComplete = Complete"
| "task_status_for_legacy_state LegacyFailed = Failed"
| "task_status_for_legacy_state LegacyAwaitingHuman = AwaitingHuman"


section \<open>Agent identities\<close>

definition agent_id :: "string \<Rightarrow> string \<Rightarrow> 32 word \<Rightarrow> string" where
  "agent_id role vendor index = role @ '':'' @ vendor @ '':'' @ show_u32 index"

definition mcp_server_name :: "string \<Rightarrow> string" where
  "mcp_server_name role = ''ferrus-'' @ role"

definition legacy_mcp_server_name :: "string \<Rightarrow> 32 word \<Rightarrow> string" where
  "legacy_mcp_server_name role index = ''ferrus-'' @ role @ ''-'' @ show_u32 index"


section \<open>Lemmas\<close>

text \<open>The strings the status columns may hold.\<close>

definition status_text :: "string \<Rightarrow> bool" where
  "status_text s = is_ok (from_str s)"

lemma from_str_as_str [simp]: "from_str (as_str s) = Inr s"
  by (cases s) (simp_all add: from_str_def)

lemma as_str_from_str: "from_str v = Inr s \<Longrightarrow> as_str s = v"
  by (auto simp: from_str_def split: if_splits)

lemma as_str_inject [simp]: "as_str s = as_str s' \<longleftrightarrow> s = s'"
  by (metis from_str_as_str sum.inject(2))

lemma status_text_as_str [simp]: "status_text (as_str s)"
  by (simp add: status_text_def)

text \<open>Statuses stay symbolic in proofs: distinctness comes from injectivity, not from comparing
  strings.\<close>

declare as_str.simps [simp del]

lemma status_text_iff: "status_text v \<longleftrightarrow> (\<exists>s. v = as_str s)"
  by (auto simp: status_text_def is_ok_iff dest: as_str_from_str)

end
