(* ===== verification/Repository_View.thy ===== *)
theory Repository_View
  imports Prelude
begin

text \<open>
  Identities of the repository graph and the reference a task or run keeps to its repository view.

  \<^item> \<open>opaque_id_new\<close>, \<open>digest_new\<close>, \<open>repo_path_new\<close>: the validating constructors of
    \<open>src/src/repository_graph/domain.rs\<close>.
  \<^item> \<open>RepositoryViewReference\<close> with \<open>view_new\<close>, \<open>materialized\<close>, \<open>frozen\<close>, \<open>mutable_successor\<close> and
    \<open>validate_view\<close>: \<open>src/src/project.rs\<close>.
  \<^item> \<open>view_columns\<close> and \<open>repository_view_reference_from_database\<close>: the seven columns a row stores
    and how they are read back (\<open>src/src/project/task.rs\<close>, \<open>src/src/project/graph.rs\<close>).

  The lemmas show that every constructor yields a valid reference, that storing and reading a valid
  reference is the identity, and that whatever is read back is valid.
\<close>

section \<open>Identities\<close>

definition opaque_id_new :: "string \<Rightarrow> string \<Rightarrow> string res" where
  "opaque_id_new kind value =
    (if value = [] then Inl (Bail (kind @ '' must not be empty'')) else Inr value)"

definition RepoPath_new :: "string \<Rightarrow> string res" where
  "RepoPath_new value =
    (if value = [] then Inl (Bail ''repository path must not be empty'')
     else if CHR 0x00 \<in> set value then Inl (Bail ''repository path must not contain NUL'')
     else
       let normalized = map (\<lambda>c. if c = CHR 0x5C then CHR ''/'' else c) value in
       if has_prefix ''/'' normalized \<or> has_prefix ''//'' normalized \<or>
          (1 < length normalized \<and> normalized ! 1 = CHR '':'')
       then Inl (Bail ''repository path must be relative and must not contain a platform prefix'')
       else
         case find (\<lambda>c. c = [] \<or> c = ''.'' \<or> c = ''..'') (split_on (CHR ''/'') normalized) of
           Some c \<Rightarrow> Inl (Bail (''repository path contains a forbidden component: '' @ c))
         | None \<Rightarrow> Inr normalized)"

record Digest =
  digest_algorithm :: string
  digest_value :: string

definition is_lower :: "char \<Rightarrow> bool" where
  "is_lower c = (97 \<le> byte_val c \<and> byte_val c \<le> 122)"

definition Digest_new :: "string \<Rightarrow> string \<Rightarrow> Digest res" where
  "Digest_new algorithm value =
    (if algorithm = [] \<or>
        \<not> list_all (\<lambda>b. is_lower b \<or> is_digit b \<or> b \<in> set ''._-'') algorithm
     then Inl (Bail ''digest algorithm must be a non-empty lowercase ASCII token'')
     else if value = [] \<or>
        \<not> list_all (\<lambda>b. is_digit b \<or> (97 \<le> byte_val b \<and> byte_val b \<le> 102)) value
     then Inl (Bail ''digest value must be non-empty lowercase hexadecimal'')
     else Inr \<lparr> digest_algorithm = algorithm, digest_value = value \<rparr>)"


section \<open>View references\<close>

datatype TaskViewLifecycle = Mutable | FrozenSubmitted

datatype RepositoryViewStatus = NotBuilt | Available | Stale | Unavailable | ViewFailed

fun view_status_as_str :: "RepositoryViewStatus \<Rightarrow> string" where
  "view_status_as_str NotBuilt = ''not_built''"
| "view_status_as_str Available = ''available''"
| "view_status_as_str Stale = ''stale''"
| "view_status_as_str Unavailable = ''unavailable''"
| "view_status_as_str ViewFailed = ''failed''"

definition view_status_from_database :: "string \<Rightarrow> RepositoryViewStatus res" where
  "view_status_from_database value =
    (if value = ''not_built'' then Inr NotBuilt
     else if value = ''available'' then Inr Available
     else if value = ''stale'' then Inr Stale
     else if value = ''unavailable'' then Inr Unavailable
     else if value = ''failed'' then Inr ViewFailed
     else Inl (Bail (''Unknown repository view status in ferrus.db: '' @ value)))"

record RepositoryViewReference =
  view_baseline_snapshot_id :: "string option"
  view_overlay_revision_id :: "string option"
  view_view_snapshot_id :: "string option"
  view_frozen_source_tree :: "Digest option"
  view_lifecycle :: TaskViewLifecycle
  view_status :: RepositoryViewStatus

definition default_view :: RepositoryViewReference where
  "default_view =
    \<lparr> view_baseline_snapshot_id = None, view_overlay_revision_id = None,
      view_view_snapshot_id = None, view_frozen_source_tree = None,
      view_lifecycle = Mutable, view_status = NotBuilt \<rparr>"

definition view_new ::
  "string option \<Rightarrow> string option \<Rightarrow> RepositoryViewStatus \<Rightarrow> RepositoryViewReference res" where
  "view_new baseline overlay status =
    (if overlay \<noteq> None \<and> baseline = None
     then Inl (Bail ''A repository overlay revision requires a baseline snapshot'')
     else if status = Available \<and> baseline = None
     then Inl (Bail ''An available repository view requires a baseline snapshot'')
     else Inr \<lparr> view_baseline_snapshot_id = baseline, view_overlay_revision_id = overlay,
                view_view_snapshot_id = None, view_frozen_source_tree = None,
                view_lifecycle = Mutable, view_status = status \<rparr>)"

definition materialized ::
  "string \<Rightarrow> string option \<Rightarrow> string \<Rightarrow> RepositoryViewStatus \<Rightarrow> RepositoryViewReference res" where
  "materialized baseline overlay view_snapshot status =
    (if status = NotBuilt then Inl (Bail ''A materialized repository view cannot be not_built'')
     else Inr \<lparr> view_baseline_snapshot_id = Some baseline, view_overlay_revision_id = overlay,
                view_view_snapshot_id = Some view_snapshot, view_frozen_source_tree = None,
                view_lifecycle = Mutable, view_status = status \<rparr>)"

definition frozen :: "RepositoryViewReference \<Rightarrow> Digest \<Rightarrow> RepositoryViewReference res" where
  "frozen v source_tree =
    (if view_baseline_snapshot_id v = None \<or> view_view_snapshot_id v = None
     then Inl (Bail ''A frozen repository view requires materialized baseline and view snapshots'')
     else Inr (v \<lparr> view_lifecycle := FrozenSubmitted, view_frozen_source_tree := Some source_tree \<rparr>))"

definition mutable_successor :: "RepositoryViewReference \<Rightarrow> RepositoryViewReference" where
  "mutable_successor v = v \<lparr> view_lifecycle := Mutable, view_frozen_source_tree := None \<rparr>"

definition validate_view :: "RepositoryViewReference \<Rightarrow> unit res" where
  "validate_view v =
    (if view_overlay_revision_id v \<noteq> None \<and> view_baseline_snapshot_id v = None
     then Inl (Bail ''A repository overlay revision requires a baseline snapshot'')
     else if view_status v = Available \<and> view_baseline_snapshot_id v = None
     then Inl (Bail ''An available repository view requires a baseline snapshot'')
     else case view_lifecycle v of
       Mutable \<Rightarrow>
         if view_frozen_source_tree v \<noteq> None
         then Inl (Bail ''A mutable repository view cannot retain a frozen source tree'')
         else Inr ()
     | FrozenSubmitted \<Rightarrow>
         if view_view_snapshot_id v = None \<or> view_frozen_source_tree v = None
         then Inl (Bail ''A frozen repository view requires a snapshot and source tree'')
         else Inr ())"


section \<open>Stored columns\<close>

record view_cols =
  baseline_snapshot_id :: "string option"
  overlay_revision_id :: "string option"
  repository_view_snapshot_id :: "string option"
  repository_view_tree_algorithm :: "string option"
  repository_view_tree_digest :: "string option"
  repository_view_lifecycle :: string
  repository_view_status :: string

text \<open>The column defaults of schema versions 2 and 3.\<close>

definition default_view_cols :: view_cols where
  "default_view_cols =
    \<lparr> baseline_snapshot_id = None, overlay_revision_id = None,
      repository_view_snapshot_id = None, repository_view_tree_algorithm = None,
      repository_view_tree_digest = None, repository_view_lifecycle = ''mutable'',
      repository_view_status = ''not_built'' \<rparr>"

fun lifecycle_text :: "TaskViewLifecycle \<Rightarrow> string" where
  "lifecycle_text Mutable = ''mutable''"
| "lifecycle_text FrozenSubmitted = ''frozen_submitted''"

definition view_columns :: "RepositoryViewReference \<Rightarrow> view_cols" where
  "view_columns v =
    \<lparr> baseline_snapshot_id = view_baseline_snapshot_id v,
      overlay_revision_id = view_overlay_revision_id v,
      repository_view_snapshot_id = view_view_snapshot_id v,
      repository_view_tree_algorithm = map_option digest_algorithm (view_frozen_source_tree v),
      repository_view_tree_digest = map_option digest_value (view_frozen_source_tree v),
      repository_view_lifecycle = lifecycle_text (view_lifecycle v),
      repository_view_status = view_status_as_str (view_status v) \<rparr>"

definition lifecycle_from_database :: "string \<Rightarrow> TaskViewLifecycle res" where
  "lifecycle_from_database s =
    (if s = ''mutable'' then Inr Mutable
     else if s = ''frozen_submitted'' then Inr FrozenSubmitted
     else Inl (Bail (''Unknown repository view lifecycle in ferrus.db: '' @ s)))"

fun tree_from_database :: "string option \<Rightarrow> string option \<Rightarrow> Digest option res" where
  "tree_from_database (Some algorithm) (Some value) =
    res_bind (Digest_new algorithm value) (\<lambda>d. Inr (Some d))"
| "tree_from_database None None = Inr None"
| "tree_from_database _ _ = Inl (Bail ''Incomplete frozen repository source tree in ferrus.db'')"

definition repository_view_reference_from_database :: "view_cols \<Rightarrow> RepositoryViewReference res" where
  "repository_view_reference_from_database c =
    res_bind (opt_res (opaque_id_new ''snapshot id'') (baseline_snapshot_id c)) (\<lambda>baseline.
    res_bind (opt_res (opaque_id_new ''overlay revision id'') (overlay_revision_id c)) (\<lambda>overlay.
    res_bind (opt_res (opaque_id_new ''snapshot id'') (repository_view_snapshot_id c)) (\<lambda>snapshot.
    res_bind (tree_from_database (repository_view_tree_algorithm c) (repository_view_tree_digest c)) (\<lambda>tree.
    res_bind (lifecycle_from_database (repository_view_lifecycle c)) (\<lambda>lifecycle.
    res_bind (view_status_from_database (repository_view_status c)) (\<lambda>status.
      let reference =
        \<lparr> view_baseline_snapshot_id = baseline, view_overlay_revision_id = overlay,
          view_view_snapshot_id = snapshot, view_frozen_source_tree = tree,
          view_lifecycle = lifecycle, view_status = status \<rparr>
      in res_bind (validate_view reference) (\<lambda>_. Inr reference)))))))"


section \<open>Lemmas\<close>

text \<open>What the Rust types guarantee of the identities in a reference: opaque identities are not
  empty and a digest went through its constructor.\<close>

definition digest_ok :: "Digest \<Rightarrow> bool" where
  "digest_ok d = (Digest_new (digest_algorithm d) (digest_value d) = Inr d)"

definition view_ids_ok :: "RepositoryViewReference \<Rightarrow> bool" where
  "view_ids_ok v =
    (view_baseline_snapshot_id v \<noteq> Some [] \<and> view_overlay_revision_id v \<noteq> Some [] \<and>
     view_view_snapshot_id v \<noteq> Some [] \<and>
     (case view_frozen_source_tree v of None \<Rightarrow> True | Some d \<Rightarrow> digest_ok d))"

text \<open>The row-level invariant: the columns decode to a valid reference.\<close>

definition view_cols_ok :: "view_cols \<Rightarrow> bool" where
  "view_cols_ok c = is_ok (repository_view_reference_from_database c)"

text \<open>What a review rejection does to the stored columns: the frozen tree is dropped and the view
  becomes mutable again.\<close>

definition unfreeze_cols :: "view_cols \<Rightarrow> view_cols" where
  "unfreeze_cols c =
    c \<lparr> repository_view_tree_algorithm := None, repository_view_tree_digest := None,
        repository_view_lifecycle := ''mutable'' \<rparr>"

lemma view_status_round_trip [simp]: "view_status_from_database (view_status_as_str s) = Inr s"
  by (cases s) (simp_all add: view_status_from_database_def)

lemma view_status_from_databaseD: "view_status_from_database v = Inr s \<Longrightarrow> v = view_status_as_str s"
  by (auto simp: view_status_from_database_def split: if_splits)

lemma lifecycle_round_trip [simp]: "lifecycle_from_database (lifecycle_text l) = Inr l"
  by (cases l) (simp_all add: lifecycle_from_database_def)

lemma lifecycle_from_databaseD: "lifecycle_from_database v = Inr l \<Longrightarrow> v = lifecycle_text l"
  by (auto simp: lifecycle_from_database_def split: if_splits)

lemma opaque_round_trip: "v \<noteq> Some [] \<Longrightarrow> opt_res (opaque_id_new k) v = Inr v"
  by (cases v) (auto simp: opaque_id_new_def)

lemma opaque_idD: "opt_res (opaque_id_new k) v = Inr w \<Longrightarrow> w = v \<and> v \<noteq> Some []"
  by (cases v) (auto simp: opaque_id_new_def split: if_splits)

lemma Digest_newD:
  "Digest_new a v = Inr d \<Longrightarrow> digest_algorithm d = a \<and> digest_value d = v \<and> digest_ok d"
  by (auto simp: Digest_new_def digest_ok_def split: if_splits)

lemma tree_from_databaseD:
  "tree_from_database a v = Inr t \<Longrightarrow>
    a = map_option digest_algorithm t \<and> v = map_option digest_value t \<and>
    (case t of None \<Rightarrow> True | Some d \<Rightarrow> digest_ok d)"
  by (induction a v rule: tree_from_database.induct)
     (auto simp: res_bind_Inr_iff dest: Digest_newD)

lemma tree_round_trip:
  "(case t of None \<Rightarrow> True | Some d \<Rightarrow> digest_ok d) \<Longrightarrow>
    tree_from_database (map_option digest_algorithm t) (map_option digest_value t) = Inr t"
  by (cases t) (auto simp: digest_ok_def)

lemma view_round_trip:
  assumes "validate_view v = Inr ()" "view_ids_ok v"
  shows "repository_view_reference_from_database (view_columns v) = Inr v"
  using assms
  by (cases v) (simp add: repository_view_reference_from_database_def view_columns_def view_ids_ok_def
      opaque_round_trip tree_round_trip Let_def)

lemma view_decodeD:
  assumes "repository_view_reference_from_database c = Inr v"
  shows "validate_view v = Inr () \<and> view_ids_ok v \<and> view_columns v = c"
  using assms
  by (auto simp: repository_view_reference_from_database_def res_bind_Inr_iff Let_def
      view_columns_def view_ids_ok_def
      dest!: opaque_idD tree_from_databaseD lifecycle_from_databaseD view_status_from_databaseD)

lemma view_cols_ok_view_columns:
  "validate_view v = Inr () \<Longrightarrow> view_ids_ok v \<Longrightarrow> view_cols_ok (view_columns v)"
  by (simp add: view_cols_ok_def view_round_trip)

lemma view_cols_ok_default [simp]: "view_cols_ok default_view_cols"
  by (simp add: view_cols_ok_def repository_view_reference_from_database_def default_view_cols_def
      lifecycle_from_database_def view_status_from_database_def validate_view_def Let_def)

lemma unfreeze_cols_view: "unfreeze_cols (view_columns v) = view_columns (mutable_successor v)"
  by (simp add: unfreeze_cols_def view_columns_def mutable_successor_def)

lemma validate_mutable_successor:
  "validate_view v = Inr () \<Longrightarrow> validate_view (mutable_successor v) = Inr ()"
  by (auto simp: validate_view_def mutable_successor_def split: if_splits TaskViewLifecycle.splits)

lemma view_cols_ok_unfreeze [simp, intro]: "view_cols_ok c \<Longrightarrow> view_cols_ok (unfreeze_cols c)"
proof -
  assume "view_cols_ok c"
  then obtain v where "repository_view_reference_from_database c = Inr v"
    by (auto simp: view_cols_ok_def is_ok_iff)
  note v = view_decodeD [OF this]
  then have "view_cols_ok (view_columns (mutable_successor v))"
    by (intro view_cols_ok_view_columns validate_mutable_successor)
       (auto simp: view_ids_ok_def mutable_successor_def)
  then show ?thesis using v unfreeze_cols_view by metis
qed

lemma constructors_valid:
  "view_new b ov s = Inr v \<Longrightarrow> validate_view v = Inr ()"
  "materialized b' ov s' st = Inr v \<Longrightarrow> validate_view v = Inr ()"
  "validate_view w = Inr () \<Longrightarrow> frozen w d = Inr v \<Longrightarrow> validate_view v = Inr ()"
  by (auto simp: view_new_def materialized_def frozen_def validate_view_def split: if_splits)

end
