(* ===== verification/Database.thy ===== *)
theory Database
  imports Runtime_Status Repository_View
begin

text \<open>
  The runtime database \<open>ferrus.db\<close>: its rows (schema version 4 of
  \<open>src/src/project/database/schema.rs\<close>), the row operations of \<open>src/src/project/database.rs\<close> and the
  invariant that all operations of the later theories keep.

  A table is the list of its rows in insertion order; a transaction body is a function from the
  database to \<open>err + result \<times> database\<close>, and \<open>run_tx\<close> keeps the old database when the body
  fails. Foreign keys are enforced (\<open>PRAGMA foreign_keys = ON\<close>), primary keys are kept unique by
  the inserting statements. The display-only columns \<open>events.created_at\<close>,
  \<open>project_runtime_state.updated_at\<close> and \<open>canonical_graph_updated_at\<close> are not modelled, because no
  modelled operation reads them.
\<close>

section \<open>Rows and tables\<close>

record task_row =
  t_id :: string
  t_path :: string
  t_status :: string
  t_paused_status :: "string option"
  t_spec_path :: "string option"
  t_milestone_id :: "string option"
  t_claimed_by :: "string option"
  t_lease_until :: "string option"
  t_last_heartbeat :: "string option"
  t_check_retries :: int
  t_review_cycles :: int
  t_failure_reason :: "string option"
  t_awaiting_human_by :: "string option"
  t_awaiting_human_status :: "string option"
  t_human_question_order :: "int option"
  t_human_answer_recorded :: bool
  t_executor_dispatches :: int
  t_view :: view_cols

record run_row =
  r_id :: string
  r_task_id :: string
  r_role :: string
  r_agent :: string
  r_status :: string
  r_started_at :: string
  r_updated_at :: string
  r_pid :: "int option"
  r_workspace_path :: string
  r_view :: view_cols

record event_row =
  e_id :: int
  e_run_id :: "string option"
  e_type :: string
  e_payload :: json

record project_row =
  p_selected_spec :: "string option"
  p_last_spec_path :: "string option"
  p_last_archive_path :: "string option"
  p_canonical_source_revision_id :: "string option"
  p_canonical_manifest_algorithm :: "string option"
  p_canonical_manifest_digest :: "string option"
  p_canonical_graph_snapshot_id :: "string option"
  p_canonical_graph_status :: string

record archive_row =
  a_spec_path :: string
  a_archive_dir :: string
  a_task_count :: int
  a_run_count :: int
  a_outcome :: string

record db =
  tasks :: "task_row list"
  runs :: "run_row list"
  events :: "event_row list"
  event_seq :: int
  project_state :: "project_row option"
  spec_archives :: "archive_row list"

definition empty_db :: db where
  "empty_db = \<lparr> tasks = [], runs = [], events = [], event_seq = 0, project_state = None,
                spec_archives = [] \<rparr>"

text \<open>A new task row carries the column defaults.\<close>

definition new_task_row :: "string \<Rightarrow> string \<Rightarrow> string \<Rightarrow> string option \<Rightarrow> string option \<Rightarrow> task_row" where
  "new_task_row tid path status spec milestone =
    \<lparr> t_id = tid, t_path = path, t_status = status, t_paused_status = None, t_spec_path = spec,
      t_milestone_id = milestone, t_claimed_by = None, t_lease_until = None,
      t_last_heartbeat = None, t_check_retries = 0, t_review_cycles = 0, t_failure_reason = None,
      t_awaiting_human_by = None, t_awaiting_human_status = None, t_human_question_order = None,
      t_human_answer_recorded = False, t_executor_dispatches = 0, t_view = default_view_cols \<rparr>"


section \<open>Statements\<close>

definition find_task :: "string \<Rightarrow> db \<Rightarrow> task_row option" where
  "find_task tid d = find_by t_id tid (tasks d)"

definition find_run :: "string \<Rightarrow> db \<Rightarrow> run_row option" where
  "find_run rid d = find_by r_id rid (runs d)"

text \<open>\<open>UPDATE tasks SET ... WHERE ...\<close> and \<open>UPDATE runs SET ... WHERE ...\<close>.\<close>

definition update_tasks :: "(task_row \<Rightarrow> bool) \<Rightarrow> (task_row \<Rightarrow> task_row) \<Rightarrow> db \<Rightarrow> db" where
  "update_tasks P f d = d \<lparr> tasks := update_by P f (tasks d) \<rparr>"

definition update_task :: "string \<Rightarrow> (task_row \<Rightarrow> task_row) \<Rightarrow> db \<Rightarrow> db" where
  "update_task tid f d = update_tasks (\<lambda>t. t_id t = tid) f d"

definition update_runs :: "(run_row \<Rightarrow> bool) \<Rightarrow> (run_row \<Rightarrow> run_row) \<Rightarrow> db \<Rightarrow> db" where
  "update_runs P f d = d \<lparr> runs := update_by P f (runs d) \<rparr>"

definition update_run :: "string \<Rightarrow> (run_row \<Rightarrow> run_row) \<Rightarrow> db \<Rightarrow> db" where
  "update_run rid f d = update_runs (\<lambda>r. r_id r = rid) f d"

definition insert_task :: "task_row \<Rightarrow> db \<Rightarrow> db" where
  "insert_task t d = d \<lparr> tasks := tasks d @ [t] \<rparr>"

definition insert_run :: "run_row \<Rightarrow> db \<Rightarrow> db" where
  "insert_run r d = d \<lparr> runs := runs d @ [r] \<rparr>"

definition append_event :: "string option \<Rightarrow> string \<Rightarrow> json \<Rightarrow> db \<Rightarrow> db" where
  "append_event run_id event_type payload d =
    d \<lparr> events := events d @ [\<lparr> e_id = event_seq d + 1, e_run_id = run_id, e_type = event_type,
                                e_payload = payload \<rparr>],
        event_seq := event_seq d + 1 \<rparr>"

text \<open>A transaction that fails is rolled back.\<close>

definition run_tx :: "(db \<Rightarrow> ('a \<times> db) res) \<Rightarrow> db \<Rightarrow> 'a res \<times> db" where
  "run_tx tx d = (case tx d of Inl e \<Rightarrow> (Inl e, d) | Inr (a, d') \<Rightarrow> (Inr a, d'))"


section \<open>Operations of \<open>database.rs\<close>\<close>

definition upsert_task ::
  "string \<Rightarrow> string \<Rightarrow> TaskStatus \<Rightarrow> string option \<Rightarrow> string option \<Rightarrow> db \<Rightarrow> db" where
  "upsert_task tid path status spec_path milestone_id d =
    (case find_task tid d of
       None \<Rightarrow> insert_task (new_task_row tid path (as_str status) spec_path milestone_id) d
     | Some _ \<Rightarrow> update_task tid (\<lambda>t. t \<lparr> t_path := path, t_status := as_str status,
         t_spec_path := (case spec_path of None \<Rightarrow> t_spec_path t | Some s \<Rightarrow> Some s),
         t_milestone_id := (case milestone_id of None \<Rightarrow> t_milestone_id t | Some m \<Rightarrow> Some m) \<rparr>) d)"

definition ensure_task_exists :: "string \<Rightarrow> string \<Rightarrow> db \<Rightarrow> db" where
  "ensure_task_exists tid path d =
    (case find_task tid d of
       None \<Rightarrow> insert_task (new_task_row tid path (as_str Unknown) None None) d
     | Some _ \<Rightarrow> d)"

definition normalized_metadata_value :: "string option \<Rightarrow> string option" where
  "normalized_metadata_value value =
    (case value of None \<Rightarrow> None | Some v \<Rightarrow> if trim v = [] then None else Some (trim v))"

text \<open>Both normalisers trim first and drop an empty result.\<close>

definition normalize_optional_db_string :: "string option \<Rightarrow> string option" where
  "normalize_optional_db_string value =
    (case map_option trim value of None \<Rightarrow> None | Some v \<Rightarrow> if v = [] then None else Some v)"

text \<open>Counters are \<open>i64\<close> columns read \<open>as u32\<close>; a missing row reads as 0.\<close>

definition as_u32 :: "int \<Rightarrow> 32 word" where
  "as_u32 i = word_of_int i"

definition task_check_retries :: "string \<Rightarrow> db \<Rightarrow> 32 word" where
  "task_check_retries tid d =
    as_u32 (case find_task tid d of None \<Rightarrow> 0 | Some t \<Rightarrow> t_check_retries t)"

definition task_review_cycles :: "string \<Rightarrow> db \<Rightarrow> 32 word" where
  "task_review_cycles tid d =
    as_u32 (case find_task tid d of None \<Rightarrow> 0 | Some t \<Rightarrow> t_review_cycles t)"

definition task_executor_dispatches :: "string \<Rightarrow> db \<Rightarrow> 32 word" where
  "task_executor_dispatches tid d =
    as_u32 (case find_task tid d of None \<Rightarrow> 0 | Some t \<Rightarrow> t_executor_dispatches t)"

record ReadyTaskCandidate =
  c_id :: string
  c_path :: string
  c_status :: string
  c_paused_status :: "string option"
  c_check_retries :: "32 word"
  c_review_cycles :: "32 word"
  c_failure_reason :: "string option"
  c_claimed_by :: "string option"
  c_lease_until :: "string option"

definition candidate_of_row :: "task_row \<Rightarrow> ReadyTaskCandidate" where
  "candidate_of_row t =
    \<lparr> c_id = t_id t, c_path = t_path t, c_status = t_status t,
      c_paused_status = t_paused_status t, c_check_retries = as_u32 (t_check_retries t),
      c_review_cycles = as_u32 (t_review_cycles t), c_failure_reason = t_failure_reason t,
      c_claimed_by = t_claimed_by t, c_lease_until = t_lease_until t \<rparr>"

definition task_id_le :: "task_row \<Rightarrow> task_row \<Rightarrow> bool" where
  "task_id_le a b = (t_id a \<le> t_id b)"

definition task_candidates_by_status :: "TaskStatus list \<Rightarrow> db \<Rightarrow> ReadyTaskCandidate list" where
  "task_candidates_by_status statuses d =
    (if statuses = [] then []
     else map candidate_of_row
       (order_by task_id_le (filter (\<lambda>t. t_status t \<in> set (map as_str statuses)) (tasks d))))"

definition task_candidate_by_id :: "string \<Rightarrow> db \<Rightarrow> ReadyTaskCandidate option" where
  "task_candidate_by_id tid d = map_option candidate_of_row (find_task tid d)"

definition parse_lease_until :: "chrono \<Rightarrow> string option \<Rightarrow> datetime option" where
  "parse_lease_until C value = (case value of None \<Rightarrow> None | Some v \<Rightarrow> parse_rfc3339 C v)"

definition clear_lease_row :: "task_row \<Rightarrow> task_row" where
  "clear_lease_row t = t \<lparr> t_claimed_by := None, t_lease_until := None, t_last_heartbeat := None \<rparr>"

definition clear_task_lease :: "string \<Rightarrow> db \<Rightarrow> db" where
  "clear_task_lease tid d = update_task tid clear_lease_row d"

text \<open>The statement itself fails on the foreign key of \<open>events.run_id\<close>; \<open>insert_event\<close> checks first and
  reports the unknown run.\<close>

definition insert_event_in_transaction :: "string option \<Rightarrow> string \<Rightarrow> json \<Rightarrow> db \<Rightarrow> db res" where
  "insert_event_in_transaction run_id event_type payload d =
    (case run_id of
       None \<Rightarrow> Inr (append_event run_id event_type payload d)
     | Some rid \<Rightarrow> if find_run rid d = None then Inl (SqlError ''FOREIGN KEY constraint failed'')
                  else Inr (append_event run_id event_type payload d))"

definition insert_event :: "string option \<Rightarrow> string \<Rightarrow> json \<Rightarrow> db \<Rightarrow> db res" where
  "insert_event run_id event_type payload d =
    (case run_id of
       None \<Rightarrow> Inr (append_event run_id event_type payload d)
     | Some rid \<Rightarrow> if find_run rid d = None
                  then Inl (Bail (''Cannot insert event for unknown run id '' @ rid))
                  else Inr (append_event run_id event_type payload d))"

definition claim_row :: "string \<Rightarrow> string \<Rightarrow> string \<Rightarrow> task_row \<Rightarrow> task_row" where
  "claim_row agent lease_text now_text t =
    t \<lparr> t_claimed_by := Some agent, t_lease_until := Some lease_text,
        t_last_heartbeat := Some now_text \<rparr>"

definition claim_task_in_transaction ::
  "chrono \<Rightarrow> string \<Rightarrow> string \<Rightarrow> datetime \<Rightarrow> datetime \<Rightarrow> db \<Rightarrow> db res" where
  "claim_task_in_transaction C tid agent lease_until now d =
    (let lease_until_text = to_rfc3339_secs C lease_until;
         now_text = to_rfc3339_secs C now;
         d1 = update_task tid (claim_row agent lease_until_text now_text) d
     in insert_event_in_transaction None ''task_claimed''
          (JObj [(''task_id'', JStr tid), (''claimed_by'', JStr agent),
                 (''lease_until'', JTime lease_until)]) d1)"

definition parse_task_number :: "string \<Rightarrow> nat option" where
  "parse_task_number tid = (case strip_prefix ''t-'' tid of None \<Rightarrow> None | Some n \<Rightarrow> parse_u32 n)"

text \<open>SQLite's \<open>LIKE 't-%'\<close> ignores the case of ASCII letters.\<close>

definition like_task_id :: "string \<Rightarrow> bool" where
  "like_task_id s = (has_prefix ''t-'' s \<or> has_prefix ''T-'' s)"

definition max_task_number :: "string list \<Rightarrow> nat" where
  "max_task_number ids = foldl (\<lambda>m i. case parse_task_number i of None \<Rightarrow> m | Some n \<Rightarrow> max m n) 0 ids"

definition max_task_number_in_database :: "db \<Rightarrow> nat" where
  "max_task_number_in_database d = max_task_number (filter like_task_id (map t_id (tasks d)))"

definition strip_suffix_md :: "string \<Rightarrow> string" where
  "strip_suffix_md f =
    (if has_prefix (rev ''.md'') (rev f) then take (length f - 3) f else f)"

definition max_task_number_from_files :: "string list \<Rightarrow> nat" where
  "max_task_number_from_files names = max_task_number (map strip_suffix_md names)"

definition default_project_row :: project_row where
  "default_project_row =
    \<lparr> p_selected_spec = None, p_last_spec_path = None, p_last_archive_path = None,
      p_canonical_source_revision_id = None, p_canonical_manifest_algorithm = None,
      p_canonical_manifest_digest = None, p_canonical_graph_snapshot_id = None,
      p_canonical_graph_status = ''unknown'' \<rparr>"

definition ensure_project_runtime_state_row :: "db \<Rightarrow> db" where
  "ensure_project_runtime_state_row d =
    (case project_state d of None \<Rightarrow> d \<lparr> project_state := Some default_project_row \<rparr> | Some _ \<Rightarrow> d)"

definition update_project_state :: "(project_row \<Rightarrow> project_row) \<Rightarrow> db \<Rightarrow> db" where
  "update_project_state f d = d \<lparr> project_state := map_option f (project_state d) \<rparr>"

definition read_project_column :: "(project_row \<Rightarrow> string option) \<Rightarrow> db \<Rightarrow> string option" where
  "read_project_column f d =
    normalize_optional_db_string (case project_state d of None \<Rightarrow> None | Some p \<Rightarrow> f p)"

definition read_project_selection_from_database :: "db \<Rightarrow> string option" where
  "read_project_selection_from_database d = read_project_column p_selected_spec d"

definition write_project_selection_to_database :: "string option \<Rightarrow> db \<Rightarrow> db" where
  "write_project_selection_to_database selected_spec d =
    update_project_state (\<lambda>p. p \<lparr> p_selected_spec := normalized_metadata_value selected_spec \<rparr>)
      (ensure_project_runtime_state_row d)"

definition read_last_spec_path_from_database :: "db \<Rightarrow> string option" where
  "read_last_spec_path_from_database d = read_project_column p_last_spec_path d"

definition write_last_spec_path_to_database :: "string option \<Rightarrow> db \<Rightarrow> db" where
  "write_last_spec_path_to_database path d =
    update_project_state (\<lambda>p. p \<lparr> p_last_spec_path := normalized_metadata_value path \<rparr>)
      (ensure_project_runtime_state_row d)"

definition read_last_spec_archive_path_from_database :: "db \<Rightarrow> string option" where
  "read_last_spec_archive_path_from_database d = read_project_column p_last_archive_path d"

definition write_last_spec_archive_path_to_database :: "string option \<Rightarrow> db \<Rightarrow> db" where
  "write_last_spec_archive_path_to_database path d =
    update_project_state (\<lambda>p. p \<lparr> p_last_archive_path := normalized_metadata_value path \<rparr>)
      (ensure_project_runtime_state_row d)"


section \<open>The invariant\<close>

text \<open>A task row is well formed when its status columns hold wire names, its lease columns are set
  together or not at all, its counters fit \<open>u32\<close> and its view columns decode.\<close>

definition opt_status_text :: "string option \<Rightarrow> bool" where
  "opt_status_text s = (case s of None \<Rightarrow> True | Some v \<Rightarrow> status_text v)"

definition u32_range :: "int \<Rightarrow> bool" where
  "u32_range i = (0 \<le> i \<and> i < 2 ^ 32)"

definition lease_ok :: "task_row \<Rightarrow> bool" where
  "lease_ok t =
    ((t_claimed_by t = None \<longleftrightarrow> t_lease_until t = None) \<and>
     (t_claimed_by t = None \<longleftrightarrow> t_last_heartbeat t = None))"

definition task_ok :: "task_row \<Rightarrow> bool" where
  "task_ok t =
    (status_text (t_status t) \<and> opt_status_text (t_paused_status t) \<and>
     opt_status_text (t_awaiting_human_status t) \<and> lease_ok t \<and>
     u32_range (t_check_retries t) \<and> u32_range (t_review_cycles t) \<and>
     u32_range (t_executor_dispatches t) \<and> view_cols_ok (t_view t))"

text \<open>A run row is well formed when its view columns decode and its process identity fits \<open>u32\<close>.\<close>

definition run_ok :: "run_row \<Rightarrow> bool" where
  "run_ok r =
    (view_cols_ok (r_view r) \<and> (case r_pid r of None \<Rightarrow> True | Some p \<Rightarrow> u32_range p))"

text \<open>The canonical source identity is stored completely or not at all.\<close>

definition project_ok :: "project_row \<Rightarrow> bool" where
  "project_ok p =
    (p_canonical_graph_status p \<in> {''unknown'', ''stale'', ''fresh''} \<and>
     p_canonical_source_revision_id p \<noteq> Some [] \<and> p_canonical_graph_snapshot_id p \<noteq> Some [] \<and>
     (p_canonical_source_revision_id p = None \<longleftrightarrow> p_canonical_manifest_algorithm p = None) \<and>
     is_ok (tree_from_database (p_canonical_manifest_algorithm p) (p_canonical_manifest_digest p)))"

definition events_ok :: "db \<Rightarrow> bool" where
  "events_ok d =
    (sorted_wrt (\<lambda>a b. e_id a < e_id b) (events d) \<and> 0 \<le> event_seq d \<and>
     (\<forall>e\<in>set (events d). 0 < e_id e \<and> e_id e \<le> event_seq d))"

text \<open>Primary keys, foreign keys and the event sequence.\<close>

definition keys_ok :: "db \<Rightarrow> bool" where
  "keys_ok d =
    (distinct (map t_id (tasks d)) \<and> distinct (map r_id (runs d)) \<and>
     r_task_id ` set (runs d) \<subseteq> t_id ` set (tasks d) \<and>
     (\<Union>e\<in>set (events d). set_option (e_run_id e)) \<subseteq> r_id ` set (runs d))"

definition db_inv :: "db \<Rightarrow> bool" where
  "db_inv d =
    (keys_ok d \<and> events_ok d \<and> (\<forall>t\<in>set (tasks d). task_ok t) \<and> (\<forall>r\<in>set (runs d). run_ok r) \<and>
     (case project_state d of None \<Rightarrow> True | Some p \<Rightarrow> project_ok p))"


section \<open>Lookup after each statement\<close>

interpretation task_table: keyed_rows find_task update_task t_id
  by unfold_locales
     (auto simp: find_task_def update_task_def update_tasks_def find_by_update dest: find_by_Some_key)

interpretation run_table: keyed_rows find_run update_run r_id
  by unfold_locales
     (auto simp: find_run_def update_run_def update_runs_def find_by_update dest: find_by_Some_key)

lemma find_task_in: "find_task tid d = Some t \<Longrightarrow> t \<in> set (tasks d)"
  by (auto simp: find_task_def dest: find_by_Some_in)

lemma find_run_in: "find_run rid d = Some r \<Longrightarrow> r \<in> set (runs d)"
  by (auto simp: find_run_def dest: find_by_Some_in)

lemma find_task_None_iff: "find_task tid d = None \<longleftrightarrow> tid \<notin> t_id ` set (tasks d)"
  by (simp add: find_task_def find_by_None_iff)

lemma find_run_None_iff: "find_run rid d = None \<longleftrightarrow> rid \<notin> r_id ` set (runs d)"
  by (simp add: find_run_def find_by_None_iff)

lemma find_task_iff:
  "keys_ok d \<Longrightarrow> find_task tid d = Some t \<longleftrightarrow> t \<in> set (tasks d) \<and> t_id t = tid"
  using find_by_distinct [of t_id "tasks d" t] task_table.get_key find_task_in
  by (auto simp: keys_ok_def find_task_def)

lemma find_run_iff:
  "keys_ok d \<Longrightarrow> find_run rid d = Some r \<longleftrightarrow> r \<in> set (runs d) \<and> r_id r = rid"
  using find_by_distinct [of r_id "runs d" r] run_table.get_key find_run_in
  by (auto simp: keys_ok_def find_run_def)

lemmas [row_simps] = task_table.get_upd run_table.get_upd

lemma find_task_update_tasks [row_simps]:
  "(\<And>t. t_id (f t) = t_id t) \<Longrightarrow>
    find_task k (update_tasks P f d) = map_option (\<lambda>t. if P t then f t else t) (find_task k d)"
  by (simp add: find_task_def update_tasks_def find_by_update_where)

lemma find_run_update_runs [row_simps]:
  "(\<And>r. r_id (f r) = r_id r) \<Longrightarrow>
    find_run k (update_runs P f d) = map_option (\<lambda>r. if P r then f r else r) (find_run k d)"
  by (simp add: find_run_def update_runs_def find_by_update_where)

lemma find_task_insert_task [row_simps]:
  "find_task k (insert_task t d) =
    (case find_task k d of Some t' \<Rightarrow> Some t' | None \<Rightarrow> if t_id t = k then Some t else None)"
  by (simp add: find_task_def insert_task_def find_by_append)

lemma find_run_insert_run [row_simps]:
  "find_run k (insert_run r d) =
    (case find_run k d of Some r' \<Rightarrow> Some r' | None \<Rightarrow> if r_id r = k then Some r else None)"
  by (simp add: find_run_def insert_run_def find_by_append)

lemma find_task_frame [simp]:
  "find_task k (append_event rid ty p d) = find_task k d"
  "find_task k (update_run x g d) = find_task k d"
  "find_task k (update_runs P g d) = find_task k d"
  "find_task k (insert_run r d) = find_task k d"
  "find_task k (update_project_state h d) = find_task k d"
  "find_task k (ensure_project_runtime_state_row d) = find_task k d"
  by (simp_all add: find_task_def append_event_def update_run_def update_runs_def insert_run_def
      update_project_state_def ensure_project_runtime_state_row_def split: option.split)

lemma find_run_frame [simp]:
  "find_run k (append_event rid ty p d) = find_run k d"
  "find_run k (update_task x f d) = find_run k d"
  "find_run k (update_tasks Q f d) = find_run k d"
  "find_run k (insert_task t d) = find_run k d"
  "find_run k (update_project_state h d) = find_run k d"
  "find_run k (ensure_project_runtime_state_row d) = find_run k d"
  by (simp_all add: find_run_def append_event_def update_task_def update_tasks_def insert_task_def
      update_project_state_def ensure_project_runtime_state_row_def split: option.split)

lemma tables_frame [simp]:
  "tasks (append_event rid ty p d) = tasks d"
  "runs (append_event rid ty p d) = runs d"
  "project_state (append_event rid ty p d) = project_state d"
  "runs (update_task x f d) = runs d"
  "runs (update_tasks Q f d) = runs d"
  "runs (insert_task t d) = runs d"
  "tasks (update_run x' g d) = tasks d"
  "tasks (update_runs P g d) = tasks d"
  "tasks (insert_run r d) = tasks d"
  "events (update_task x f d) = events d"
  "events (update_tasks Q f d) = events d"
  "events (insert_task t d) = events d"
  "events (update_run x' g d) = events d"
  "events (update_runs P g d) = events d"
  "events (insert_run r d) = events d"
  by (simp_all add: append_event_def update_task_def update_tasks_def insert_task_def
      update_run_def update_runs_def insert_run_def)

lemma event_seq_simps [simp]:
  "event_seq (append_event rid ty p d) = event_seq d + 1"
  "event_seq (update_task x f d) = event_seq d"
  "event_seq (update_tasks Q f d) = event_seq d"
  "event_seq (insert_task t d) = event_seq d"
  "event_seq (update_run x' g d) = event_seq d"
  "event_seq (update_runs P g d) = event_seq d"
  "event_seq (insert_run r d) = event_seq d"
  by (simp_all add: append_event_def update_task_def update_tasks_def insert_task_def
      update_run_def update_runs_def insert_run_def)

lemma insert_event_None [simp]:
  "insert_event_in_transaction None ty p d = Inr (append_event None ty p d)"
  "insert_event None ty p d = Inr (append_event None ty p d)"
  by (simp_all add: insert_event_in_transaction_def insert_event_def)

lemma clear_lease_row_id [simp]: "t_id (clear_lease_row t) = t_id t"
  by (simp add: clear_lease_row_def)

lemma claim_row_id [simp]: "t_id (claim_row a l n t) = t_id t"
  by (simp add: claim_row_def)


section \<open>Preservation of the invariant by each statement\<close>

lemma db_inv_empty: "db_inv empty_db"
  by (simp add: db_inv_def keys_ok_def events_ok_def empty_db_def)

lemma db_inv_task_ok: "db_inv d \<Longrightarrow> find_task tid d = Some t \<Longrightarrow> task_ok t"
  by (auto simp: db_inv_def dest: find_task_in)

lemma db_inv_run_ok: "db_inv d \<Longrightarrow> find_run rid d = Some r \<Longrightarrow> run_ok r"
  by (auto simp: db_inv_def dest: find_run_in)

lemma db_inv_keys: "db_inv d \<Longrightarrow> keys_ok d"
  by (simp add: db_inv_def)

lemma db_inv_update_tasks [inv_intros]:
  assumes "db_inv d" and f: "\<And>t. t_id (f t) = t_id t"
    and "\<And>t. t \<in> set (tasks d) \<Longrightarrow> P t \<Longrightarrow> task_ok t \<Longrightarrow> task_ok (f t)"
  shows "db_inv (update_tasks P f d)"
proof -
  have "t_id ` set (update_by P f (tasks d)) = t_id ` set (tasks d)"
    using map_key_update [of t_id f P "tasks d"] f by (metis set_map)
  then show ?thesis
    using assms
    by (auto simp: db_inv_def keys_ok_def events_ok_def update_tasks_def set_update_by)
qed

lemma db_inv_update_task [inv_intros]:
  assumes "db_inv d" "\<And>t. t_id (f t) = t_id t"
    and "\<And>t. find_task tid d = Some t \<Longrightarrow> task_ok t \<Longrightarrow> task_ok (f t)"
  shows "db_inv (update_task tid f d)"
  unfolding update_task_def
  using assms by (intro db_inv_update_tasks) (auto simp: find_task_iff [OF db_inv_keys])

lemma db_inv_update_runs [inv_intros]:
  assumes "db_inv d" and g: "\<And>r. r_id (g r) = r_id r"
    and "\<And>r. r \<in> set (runs d) \<Longrightarrow> P r \<Longrightarrow> run_ok r \<Longrightarrow> run_ok (g r)"
    and "\<And>r. r \<in> set (runs d) \<Longrightarrow> P r \<Longrightarrow> r_task_id (g r) \<in> t_id ` set (tasks d)"
  shows "db_inv (update_runs P g d)"
proof -
  have ids: "r_id ` set (update_by P g (runs d)) = r_id ` set (runs d)"
    using map_key_update [of r_id g P "runs d"] g by (metis set_map)
  have "r_task_id ` set (update_by P g (runs d)) \<subseteq> t_id ` set (tasks d)"
    using assms by (auto simp: set_update_by db_inv_def keys_ok_def)
  then show ?thesis
    using assms ids
    by (auto simp: db_inv_def keys_ok_def events_ok_def update_runs_def set_update_by)
qed

lemma db_inv_update_run [inv_intros]:
  assumes "db_inv d" "\<And>r. r_id (g r) = r_id r"
    and "\<And>r. find_run rid d = Some r \<Longrightarrow> run_ok r \<Longrightarrow> run_ok (g r)"
    and "\<And>r. find_run rid d = Some r \<Longrightarrow> r_task_id (g r) \<in> t_id ` set (tasks d)"
  shows "db_inv (update_run rid g d)"
  unfolding update_run_def
  using assms by (intro db_inv_update_runs) (auto simp: find_run_iff [OF db_inv_keys])

lemma db_inv_insert_task [inv_intros]:
  assumes "db_inv d" "find_task (t_id t) d = None" "task_ok t"
  shows "db_inv (insert_task t d)"
  using assms
  by (auto simp: db_inv_def keys_ok_def events_ok_def insert_task_def find_task_None_iff)

lemma db_inv_insert_run [inv_intros]:
  assumes "db_inv d" "find_run (r_id r) d = None" "find_task (r_task_id r) d \<noteq> None" "run_ok r"
  shows "db_inv (insert_run r d)"
  using assms
  by (auto simp: db_inv_def keys_ok_def events_ok_def insert_run_def find_run_None_iff
      find_task_None_iff split: option.splits)

lemma db_inv_append_event [inv_intros]:
  assumes "db_inv d" "\<And>rid. run = Some rid \<Longrightarrow> find_run rid d \<noteq> None"
  shows "db_inv (append_event run ty p d)"
  using assms
  by (cases run)
     (fastforce simp: db_inv_def keys_ok_def events_ok_def append_event_def sorted_wrt_append
       find_run_None_iff)+

lemma db_inv_append_taskless [simp]: "db_inv d \<Longrightarrow> db_inv (append_event None ty p d)"
  by (rule db_inv_append_event) simp_all

lemma db_inv_insert_event:
  "insert_event_in_transaction run ty p d = Inr d' \<Longrightarrow> db_inv d \<Longrightarrow> db_inv d'"
  "insert_event run ty p d = Inr d' \<Longrightarrow> db_inv d \<Longrightarrow> db_inv d'"
  by (auto simp: insert_event_in_transaction_def insert_event_def
      intro!: db_inv_append_event split: option.splits if_splits)

lemma db_inv_update_project [inv_intros]:
  assumes "db_inv d" "\<And>p. project_state d = Some p \<Longrightarrow> project_ok p \<Longrightarrow> project_ok (f p)"
  shows "db_inv (update_project_state f d)"
  using assms
  by (auto simp: db_inv_def keys_ok_def events_ok_def update_project_state_def split: option.splits)

lemma db_inv_ensure_project [inv_intros]: "db_inv d \<Longrightarrow> db_inv (ensure_project_runtime_state_row d)"
  by (auto simp: db_inv_def keys_ok_def events_ok_def ensure_project_runtime_state_row_def
      default_project_row_def project_ok_def split: option.splits)

lemma lease_ok_frame [simp]:
  "lease_ok (t \<lparr> t_path := a \<rparr>) = lease_ok t"
  "lease_ok (t \<lparr> t_status := b \<rparr>) = lease_ok t"
  "lease_ok (t \<lparr> t_paused_status := c \<rparr>) = lease_ok t"
  "lease_ok (t \<lparr> t_spec_path := c \<rparr>) = lease_ok t"
  "lease_ok (t \<lparr> t_milestone_id := c \<rparr>) = lease_ok t"
  "lease_ok (t \<lparr> t_check_retries := n \<rparr>) = lease_ok t"
  "lease_ok (t \<lparr> t_review_cycles := n \<rparr>) = lease_ok t"
  "lease_ok (t \<lparr> t_failure_reason := c \<rparr>) = lease_ok t"
  "lease_ok (t \<lparr> t_awaiting_human_by := c \<rparr>) = lease_ok t"
  "lease_ok (t \<lparr> t_awaiting_human_status := c \<rparr>) = lease_ok t"
  "lease_ok (t \<lparr> t_human_question_order := q \<rparr>) = lease_ok t"
  "lease_ok (t \<lparr> t_human_answer_recorded := z \<rparr>) = lease_ok t"
  "lease_ok (t \<lparr> t_executor_dispatches := n \<rparr>) = lease_ok t"
  "lease_ok (t \<lparr> t_view := v \<rparr>) = lease_ok t"
  by (simp_all add: lease_ok_def)

lemma lease_ok_set [simp]:
  "lease_ok (clear_lease_row t)"
  "lease_ok (claim_row agent l n' t)"
  "lease_ok (new_task_row tid p s sp m)"
  by (simp_all add: lease_ok_def clear_lease_row_def claim_row_def new_task_row_def)

lemma clear_lease_row_simps [simp]:
  "t_status (clear_lease_row t) = t_status t"
  "t_path (clear_lease_row t) = t_path t"
  "t_paused_status (clear_lease_row t) = t_paused_status t"
  "t_awaiting_human_status (clear_lease_row t) = t_awaiting_human_status t"
  "t_check_retries (clear_lease_row t) = t_check_retries t"
  "t_review_cycles (clear_lease_row t) = t_review_cycles t"
  "t_executor_dispatches (clear_lease_row t) = t_executor_dispatches t"
  "t_failure_reason (clear_lease_row t) = t_failure_reason t"
  "t_view (clear_lease_row t) = t_view t"
  "t_claimed_by (clear_lease_row t) = None"
  "t_lease_until (clear_lease_row t) = None"
  by (simp_all add: clear_lease_row_def)

lemma task_ok_clear_lease [simp, intro]: "task_ok t \<Longrightarrow> task_ok (clear_lease_row t)"
  by (simp add: task_ok_def)

lemma task_ok_claim [simp, intro]: "task_ok t \<Longrightarrow> task_ok (claim_row a l n t)"
  by (simp add: task_ok_def) (simp add: claim_row_def)

lemma task_ok_new [simp, intro]: "status_text s \<Longrightarrow> task_ok (new_task_row tid p s sp m)"
  by (simp add: task_ok_def) (simp add: new_task_row_def opt_status_text_def u32_range_def)

lemma new_task_row_id [simp]: "t_id (new_task_row tid p s sp m) = tid"
  by (simp add: new_task_row_def)

lemma db_inv_upsert_task [inv_intros]: "db_inv d \<Longrightarrow> db_inv (upsert_task tid p st sp m d)"
  unfolding upsert_task_def
  by (auto intro!: inv_intros simp: task_ok_def split: option.splits)

lemma db_inv_ensure_task [inv_intros]: "db_inv d \<Longrightarrow> db_inv (ensure_task_exists tid p d)"
  unfolding ensure_task_exists_def by (auto intro!: inv_intros split: option.splits)

lemma db_inv_clear_lease [inv_intros]: "db_inv d \<Longrightarrow> db_inv (clear_task_lease tid d)"
  unfolding clear_task_lease_def by (auto intro!: inv_intros)

lemma db_inv_claim:
  "claim_task_in_transaction C tid a l n d = Inr d' \<Longrightarrow> db_inv d \<Longrightarrow> db_inv d'"
  unfolding claim_task_in_transaction_def Let_def by (auto intro!: inv_intros)

lemma u32_range_uint [simp]: "u32_range (uint (w :: 32 word))"
  using uint_lt2p [of w] by (simp add: u32_range_def)

lemma u32_range_0 [simp]: "u32_range 0"
  by (simp add: u32_range_def)

lemma as_u32_uint [simp]: "as_u32 (uint w) = w"
  by (simp add: as_u32_def)

lemma unat_as_u32: "u32_range i \<Longrightarrow> unat (as_u32 i) = nat i"
  by (simp add: u32_range_def as_u32_def unat_word_ariths unsigned_of_int take_bit_int_eq_self)

end
