(* ===== verification/Claims.thy ===== *)
theory Claims
  imports Database
begin

text \<open>
  Transactional task claims, lease renewal and the agent-scoped task context
  (\<open>src/src/project/claims.rs\<close>).

  Every operation runs under an immediate transaction, so it is one function on the database. The
  clock readings \<open>Utc::now()\<close> are arguments (\<open>now\<close>; two of them where the code reads the clock
  twice), \<open>ts\<close> is the text of \<open>timestamp()\<close>, and the \<open>u64\<close> time-to-live is a 64-bit word that is
  reinterpreted as \<open>i64\<close>, as the cast in the code does.

  The lemmas show who may obtain a lease and when, that an active lease is never taken or changed by
  another agent, which task a queue scan selects, and that the invariant is kept.
\<close>

datatype TaskClaim = TaskClaimed | TaskAlreadyClaimed | ClaimedByOther string

record TaskLease =
  l_task_id :: string
  l_task_path :: string
  l_status :: string
  l_paused_status :: "string option"
  l_check_retries :: "32 word"
  l_review_cycles :: "32 word"
  l_failure_reason :: "string option"
  l_claimed_by :: string
  l_lease_until :: datetime

datatype ReadyTaskClaim = Claimed TaskLease | AlreadyClaimed TaskLease | NoAvailable

datatype LeaseRenewal =
    Renewed string string string datetime
  | NotClaimed
  | Expired

text \<open>\<open>now + Duration::try_seconds(ttl as i64).unwrap_or(Duration::MAX)\<close>; the addition panics when the
  instant is not representable.\<close>

definition lease_deadline :: "chrono \<Rightarrow> datetime \<Rightarrow> 64 word \<Rightarrow> datetime res" where
  "lease_deadline C now ttl =
    (let duration = (case try_seconds C (sint ttl) of Some s \<Rightarrow> s | None \<Rightarrow> duration_max C)
     in case add_duration C now duration of
          Some t \<Rightarrow> Inr t
        | None \<Rightarrow> Inl (Panic ''DateTime + TimeDelta overflowed''))"

text \<open>\<open>lease_until.is_some_and(|deadline| now < deadline)\<close>.\<close>

definition lease_active :: "chrono \<Rightarrow> datetime \<Rightarrow> string option \<Rightarrow> bool" where
  "lease_active C now lease =
    (case parse_lease_until C lease of None \<Rightarrow> False | Some deadline \<Rightarrow> now < deadline)"

definition lease_of_candidate :: "ReadyTaskCandidate \<Rightarrow> string \<Rightarrow> datetime \<Rightarrow> TaskLease" where
  "lease_of_candidate c agent deadline =
    \<lparr> l_task_id = c_id c, l_task_path = c_path c, l_status = c_status c,
      l_paused_status = c_paused_status c, l_check_retries = c_check_retries c,
      l_review_cycles = c_review_cycles c, l_failure_reason = c_failure_reason c,
      l_claimed_by = agent, l_lease_until = deadline \<rparr>"

definition promote_row :: "task_row \<Rightarrow> task_row" where
  "promote_row t = t \<lparr> t_status := as_str Executing, t_paused_status := None \<rparr>"

definition promote_pending_task_in_transaction ::
  "string \<Rightarrow> ReadyTaskCandidate \<Rightarrow> db \<Rightarrow> (ReadyTaskCandidate \<times> db) res" where
  "promote_pending_task_in_transaction ts c d =
    (let d1 = update_tasks (\<lambda>t. t_id t = c_id c \<and> t_status t = as_str Pending) promote_row d
     in res_bind (insert_event_in_transaction None ''task_scheduled''
          (JObj [(''task_id'', JStr (c_id c)), (''previous_status'', JStr (c_status c)),
                 (''status'', JStr (as_str Executing)), (''scheduled_at'', JStr ts)]) d1)
        (\<lambda>d2. Inr (c \<lparr> c_status := as_str Executing, c_paused_status := None \<rparr>, d2)))"

text \<open>\<open>if promote_pending && candidate.status == "pending" \<dots>\<close>, at each of its three call sites.\<close>

definition promote_if ::
  "string \<Rightarrow> bool \<Rightarrow> ReadyTaskCandidate \<Rightarrow> db \<Rightarrow> (ReadyTaskCandidate \<times> db) res" where
  "promote_if ts promote_pending c d =
    (if promote_pending \<and> c_status c = as_str Pending
     then promote_pending_task_in_transaction ts c d else Inr (c, d))"

definition claim_ready_task_in_transaction ::
  "chrono \<Rightarrow> datetime \<Rightarrow> string \<Rightarrow> string \<Rightarrow> string \<Rightarrow> 64 word \<Rightarrow> TaskStatus list \<Rightarrow> bool \<Rightarrow> db \<Rightarrow>
    (ReadyTaskClaim \<times> db) res" where
  "claim_ready_task_in_transaction C now ts tid agent ttl allowed_statuses promote_pending d =
    (case task_candidate_by_id tid d of
       None \<Rightarrow> Inr (NoAvailable, d)
     | Some candidate \<Rightarrow>
         if c_status candidate \<notin> set (map as_str allowed_statuses) then Inr (NoAvailable, d)
         else
           let lease_until = parse_lease_until C (c_lease_until candidate);
               active = lease_active C now (c_lease_until candidate) in
           if active \<and> c_claimed_by candidate \<noteq> Some agent then Inr (NoAvailable, d)
           else res_bind (promote_if ts promote_pending candidate d) (\<lambda>(candidate, d1).
             case lease_until of
               Some deadline \<Rightarrow>
                 if now < deadline \<and> c_claimed_by candidate = Some agent
                 then Inr (AlreadyClaimed (lease_of_candidate candidate agent deadline), d1)
                 else res_bind (lease_deadline C now ttl) (\<lambda>until.
                   res_bind (claim_task_in_transaction C (c_id candidate) agent until now d1) (\<lambda>d2.
                     Inr (Claimed (lease_of_candidate candidate agent until), d2)))
             | None \<Rightarrow> res_bind (lease_deadline C now ttl) (\<lambda>until.
                 res_bind (claim_task_in_transaction C (c_id candidate) agent until now d1) (\<lambda>d2.
                   Inr (Claimed (lease_of_candidate candidate agent until), d2)))))"

definition claim_task_by_id_with_statuses ::
  "chrono \<Rightarrow> datetime \<Rightarrow> string \<Rightarrow> string \<Rightarrow> string \<Rightarrow> 64 word \<Rightarrow> TaskStatus list \<Rightarrow> bool \<Rightarrow> db \<Rightarrow>
    ReadyTaskClaim res \<times> db" where
  "claim_task_by_id_with_statuses C now ts tid agent ttl allowed_statuses promote_pending d =
    run_tx (claim_ready_task_in_transaction C now ts tid agent ttl allowed_statuses promote_pending) d"

definition claim_ready_task_by_id ::
  "chrono \<Rightarrow> datetime \<Rightarrow> string \<Rightarrow> string \<Rightarrow> string \<Rightarrow> 64 word \<Rightarrow> db \<Rightarrow> ReadyTaskClaim res \<times> db" where
  "claim_ready_task_by_id C now ts tid agent ttl d =
    claim_task_by_id_with_statuses C now ts tid agent ttl [Pending, Executing, Addressing] True d"

definition claim_review_task_by_id ::
  "chrono \<Rightarrow> datetime \<Rightarrow> string \<Rightarrow> string \<Rightarrow> string \<Rightarrow> 64 word \<Rightarrow> db \<Rightarrow> ReadyTaskClaim res \<times> db" where
  "claim_review_task_by_id C now ts tid agent ttl d =
    claim_task_by_id_with_statuses C now ts tid agent ttl [Reviewing] False d"

text \<open>The two scans over the candidates: the caller's own active lease first, then the first candidate
  without an active lease.\<close>

definition claim_next_in_transaction ::
  "chrono \<Rightarrow> datetime \<Rightarrow> string \<Rightarrow> string \<Rightarrow> 64 word \<Rightarrow> TaskStatus list \<Rightarrow> bool \<Rightarrow> db \<Rightarrow>
    (ReadyTaskClaim \<times> db) res" where
  "claim_next_in_transaction C now ts agent ttl statuses promote_pending d =
    (let candidates = task_candidates_by_status statuses d in
     case find (\<lambda>c. lease_active C now (c_lease_until c) \<and> c_claimed_by c = Some agent) candidates of
       Some candidate \<Rightarrow> \<comment> \<open>its deadline parses, since the lease is active\<close>
         res_bind (promote_if ts promote_pending candidate d) (\<lambda>(candidate, d1).
           case parse_lease_until C (c_lease_until candidate) of
             None \<Rightarrow> Inr (NoAvailable, d1)
           | Some deadline \<Rightarrow> Inr (AlreadyClaimed (lease_of_candidate candidate agent deadline), d1))
     | None \<Rightarrow>
         (case find (\<lambda>c. \<not> lease_active C now (c_lease_until c)) candidates of
            None \<Rightarrow> Inr (NoAvailable, d)
          | Some candidate \<Rightarrow>
              res_bind (promote_if ts promote_pending candidate d) (\<lambda>(candidate, d1).
              res_bind (lease_deadline C now ttl) (\<lambda>until.
              res_bind (claim_task_in_transaction C (c_id candidate) agent until now d1) (\<lambda>d2.
                Inr (Claimed (lease_of_candidate candidate agent until), d2))))))"

definition claim_next_task_with_statuses ::
  "chrono \<Rightarrow> datetime \<Rightarrow> string \<Rightarrow> string \<Rightarrow> 64 word \<Rightarrow> TaskStatus list \<Rightarrow> bool \<Rightarrow> db \<Rightarrow>
    ReadyTaskClaim res \<times> db" where
  "claim_next_task_with_statuses C now ts agent ttl statuses promote_pending d =
    run_tx (claim_next_in_transaction C now ts agent ttl statuses promote_pending) d"

definition claim_next_ready_task ::
  "chrono \<Rightarrow> datetime \<Rightarrow> string \<Rightarrow> string \<Rightarrow> 64 word \<Rightarrow> db \<Rightarrow> ReadyTaskClaim res \<times> db" where
  "claim_next_ready_task C now ts agent ttl d =
    claim_next_task_with_statuses C now ts agent ttl [Pending, Executing, Addressing] True d"

definition claim_next_review_task ::
  "chrono \<Rightarrow> datetime \<Rightarrow> string \<Rightarrow> string \<Rightarrow> 64 word \<Rightarrow> db \<Rightarrow> ReadyTaskClaim res \<times> db" where
  "claim_next_review_task C now ts agent ttl d =
    claim_next_task_with_statuses C now ts agent ttl [Reviewing] False d"

definition renew_row :: "string \<Rightarrow> string \<Rightarrow> task_row \<Rightarrow> task_row" where
  "renew_row lease_text now_text t =
    t \<lparr> t_lease_until := Some lease_text, t_last_heartbeat := Some now_text \<rparr>"

definition renew_task_lease_in_transaction ::
  "chrono \<Rightarrow> datetime \<Rightarrow> string \<Rightarrow> string \<Rightarrow> 64 word \<Rightarrow> string option \<Rightarrow> db \<Rightarrow>
    (datetime option \<times> db) res" where
  "renew_task_lease_in_transaction C now tid agent ttl existing_lease d =
    (case parse_lease_until C existing_lease of
       None \<Rightarrow> Inr (None, d)
     | Some lease_until \<Rightarrow>
         if lease_until \<le> now then Inr (None, d)
         else res_bind (lease_deadline C now ttl) (\<lambda>until.
           let d1 = update_task tid (renew_row (to_rfc3339_secs C until) (to_rfc3339_secs C now)) d in
           res_bind (insert_event_in_transaction None ''task_lease_renewed''
              (JObj [(''task_id'', JStr tid), (''claimed_by'', JStr agent),
                     (''lease_until'', JTime until)]) d1)
            (\<lambda>d2. Inr (Some until, d2))))"

text \<open>\<open>now'\<close> is the second clock reading, inside the renewal.\<close>

definition claim_task_tx ::
  "chrono \<Rightarrow> datetime \<Rightarrow> datetime \<Rightarrow> string \<Rightarrow> string \<Rightarrow> string \<Rightarrow> 64 word \<Rightarrow> db \<Rightarrow> (TaskClaim \<times> db) res" where
  "claim_task_tx C now now' tid path agent ttl d =
    (let d0 = ensure_task_exists tid path d;
         (claimed_by, lease_until) =
           (case find_task tid d0 of None \<Rightarrow> (None, None) | Some t \<Rightarrow> (t_claimed_by t, t_lease_until t));
         active = lease_active C now lease_until in
     if active \<and> claimed_by = Some agent
     then res_bind (renew_task_lease_in_transaction C now' tid agent ttl lease_until d0)
            (\<lambda>(_, d1). Inr (TaskAlreadyClaimed, d1))
     else if active
     then Inr (ClaimedByOther (case claimed_by of Some a \<Rightarrow> a | None \<Rightarrow> ''unknown''), d0)
     else res_bind (lease_deadline C now ttl) (\<lambda>until.
            res_bind (claim_task_in_transaction C tid agent until now d0)
              (\<lambda>d1. Inr (TaskClaimed, d1))))"

definition claim_task_in_database ::
  "chrono \<Rightarrow> datetime \<Rightarrow> datetime \<Rightarrow> string \<Rightarrow> string \<Rightarrow> string \<Rightarrow> 64 word \<Rightarrow> db \<Rightarrow> TaskClaim res \<times> db" where
  "claim_task_in_database C now now' tid path agent ttl d =
    run_tx (claim_task_tx C now now' tid path agent ttl) d"

text \<open>\<open>ORDER BY CASE WHEN lease_until IS NULL THEN 1 ELSE 0 END, lease_until DESC, id\<close>.\<close>

definition lease_recency_le :: "task_row \<Rightarrow> task_row \<Rightarrow> bool" where
  "lease_recency_le a b =
    (case (t_lease_until a, t_lease_until b) of
       (None, None) \<Rightarrow> t_id a \<le> t_id b
     | (Some _, None) \<Rightarrow> True
     | (None, Some _) \<Rightarrow> False
     | (Some x, Some y) \<Rightarrow> y < x \<or> (x = y \<and> t_id a \<le> t_id b))"

definition latest_claimed_task :: "string \<Rightarrow> db \<Rightarrow> task_row option" where
  "latest_claimed_task agent d =
    limit_1 (order_by lease_recency_le (filter (\<lambda>t. t_claimed_by t = Some agent) (tasks d)))"

definition renew_claimed_task_lease_tx ::
  "chrono \<Rightarrow> datetime \<Rightarrow> string \<Rightarrow> 64 word \<Rightarrow> db \<Rightarrow> (LeaseRenewal \<times> db) res" where
  "renew_claimed_task_lease_tx C now agent ttl d =
    (case latest_claimed_task agent d of
       None \<Rightarrow> Inr (NotClaimed, d)
     | Some t \<Rightarrow>
         res_bind (renew_task_lease_in_transaction C now (t_id t) agent ttl (t_lease_until t) d)
           (\<lambda>(renewed, d1). case renewed of
              None \<Rightarrow> Inr (Expired, d1)
            | Some lease_until \<Rightarrow> Inr (Renewed (t_id t) (t_path t) agent lease_until, d1)))"

definition renew_claimed_task_lease ::
  "chrono \<Rightarrow> datetime \<Rightarrow> string \<Rightarrow> 64 word \<Rightarrow> db \<Rightarrow> LeaseRenewal res \<times> db" where
  "renew_claimed_task_lease C now agent ttl d = run_tx (renew_claimed_task_lease_tx C now agent ttl) d"


section \<open>Task contexts\<close>

record RuntimeTaskContext =
  x_task_id :: string
  x_task_path :: string
  x_spec_path :: "string option"
  x_milestone_id :: "string option"
  x_run_dir :: string
  x_status :: string
  x_paused_status :: "string option"
  x_check_retries :: "32 word"
  x_review_cycles :: "32 word"
  x_failure_reason :: "string option"
  x_run_id :: "string option"
  x_run_role :: "string option"
  x_workspace_path :: "string option"
  x_repository_workspace_path :: "string option"
  x_repository_view :: RepositoryViewReference

definition run_dir_for_task :: "string \<Rightarrow> string" where
  "run_dir_for_task tid = ''.ferrus/runs/'' @ tid"

definition default_task_path_for_id :: "string \<Rightarrow> string" where
  "default_task_path_for_id tid =
    (if tid = ''current'' then ''.ferrus/TASK.md'' else ''.ferrus/tasks/'' @ tid @ ''.md'')"

text \<open>\<open>ORDER BY updated_at DESC, started_at DESC, id DESC\<close>.\<close>

definition run_recency_le :: "run_row \<Rightarrow> run_row \<Rightarrow> bool" where
  "run_recency_le a b =
    (r_updated_at b < r_updated_at a \<or>
     (r_updated_at a = r_updated_at b \<and>
       (r_started_at b < r_started_at a \<or>
        (r_started_at a = r_started_at b \<and> r_id b \<le> r_id a))))"

definition active_run_status :: "string \<Rightarrow> bool" where
  "active_run_status s = (s \<in> {''running'', ''checking'', ''reviewing''})"

record RuntimeRunIdentity =
  i_id :: string
  i_role :: string
  i_workspace_path :: string
  i_repository_view :: RepositoryViewReference

definition latest_run_for_agent_task :: "string \<Rightarrow> string \<Rightarrow> db \<Rightarrow> RuntimeRunIdentity option res" where
  "latest_run_for_agent_task agent tid d =
    (case limit_1 (order_by run_recency_le
            (filter (\<lambda>r. r_agent r = agent \<and> r_task_id r = tid) (runs d))) of
       None \<Rightarrow> Inr None
     | Some r \<Rightarrow> res_bind (repository_view_reference_from_database (r_view r)) (\<lambda>v.
         Inr (Some \<lparr> i_id = r_id r, i_role = r_role r, i_workspace_path = r_workspace_path r,
                     i_repository_view = v \<rparr>)))"

definition latest_executor_workspace_for_task :: "string \<Rightarrow> db \<Rightarrow> string option" where
  "latest_executor_workspace_for_task tid d =
    map_option r_workspace_path (limit_1 (order_by run_recency_le
      (filter (\<lambda>r. r_task_id r = tid \<and> r_role r = ''executor'' \<and> r_workspace_path r \<noteq> []) (runs d))))"

definition latest_active_run_for_agent :: "string \<Rightarrow> db \<Rightarrow> string option" where
  "latest_active_run_for_agent agent d =
    map_option r_id (limit_1 (order_by run_recency_le
      (filter (\<lambda>r. r_agent r = agent \<and> active_run_status (r_status r)) (runs d))))"

text \<open>The part of a context every query fills from the task row.\<close>

definition context_of_task :: "task_row \<Rightarrow> RepositoryViewReference \<Rightarrow> RuntimeTaskContext" where
  "context_of_task t v =
    \<lparr> x_task_id = t_id t, x_task_path = t_path t, x_spec_path = t_spec_path t,
      x_milestone_id = t_milestone_id t, x_run_dir = run_dir_for_task (t_id t),
      x_status = t_status t, x_paused_status = t_paused_status t,
      x_check_retries = as_u32 (t_check_retries t), x_review_cycles = as_u32 (t_review_cycles t),
      x_failure_reason = t_failure_reason t, x_run_id = None, x_run_role = None,
      x_workspace_path = None, x_repository_workspace_path = None, x_repository_view = v \<rparr>"

definition claimed_task_context :: "string \<Rightarrow> task_row \<Rightarrow> db \<Rightarrow> RuntimeTaskContext res" where
  "claimed_task_context agent t d =
    res_bind (repository_view_reference_from_database (t_view t)) (\<lambda>task_view.
    res_bind (latest_run_for_agent_task agent (t_id t) d) (\<lambda>run.
      let run_role = map_option i_role run;
          workspace_path = map_option i_workspace_path run;
          repository_workspace_path =
            (if run_role = Some ''executor'' then workspace_path
             else if run_role = Some ''supervisor'' \<and> t_status t \<noteq> as_str Reviewing
             then latest_executor_workspace_for_task (t_id t) d
             else None);
          repository_view =
            (case run of
               Some r \<Rightarrow> if i_role r = ''supervisor'' \<and> t_status t = as_str Reviewing
                         then i_repository_view r else task_view
             | None \<Rightarrow> task_view)
      in Inr ((context_of_task t repository_view)
           \<lparr> x_run_id := map_option i_id run, x_run_role := run_role,
             x_workspace_path := workspace_path,
             x_repository_workspace_path := repository_workspace_path \<rparr>)))"

definition active_run_context :: "run_row \<Rightarrow> task_row \<Rightarrow> db \<Rightarrow> RuntimeTaskContext res" where
  "active_run_context r t d =
    (let repository_workspace_path =
       (if r_role r = ''executor'' then Some (r_workspace_path r)
        else if r_role r = ''supervisor'' \<and> t_status t \<noteq> as_str Reviewing
        then latest_executor_workspace_for_task (t_id t) d
        else None)
     in res_bind (repository_view_reference_from_database (r_view r)) (\<lambda>v.
       Inr ((context_of_task t v)
         \<lparr> x_run_id := Some (r_id r), x_run_role := Some (r_role r),
           x_workspace_path := Some (r_workspace_path r),
           x_repository_workspace_path := repository_workspace_path \<rparr>)))"

text \<open>\<open>JOIN tasks ON tasks.id = runs.task_id\<close>: the runs whose task exists.\<close>

definition runtime_task_context_for_agent :: "string \<Rightarrow> db \<Rightarrow> RuntimeTaskContext option res" where
  "runtime_task_context_for_agent agent d =
    (case latest_claimed_task agent d of
       Some t \<Rightarrow> res_bind (claimed_task_context agent t d) (\<lambda>c. Inr (Some c))
     | None \<Rightarrow>
         (case limit_1 (order_by run_recency_le
                 (filter (\<lambda>r. r_agent r = agent \<and> active_run_status (r_status r) \<and>
                              find_task (r_task_id r) d \<noteq> None) (runs d))) of
            None \<Rightarrow> Inr None
          | Some r \<Rightarrow> (case find_task (r_task_id r) d of
                None \<Rightarrow> Inr None
              | Some t \<Rightarrow> res_bind (active_run_context r t d) (\<lambda>c. Inr (Some c)))))"

definition consultation_context_for_run :: "string \<Rightarrow> db \<Rightarrow> RuntimeTaskContext option res" where
  "consultation_context_for_run rid d =
    (case find_run rid d of
       None \<Rightarrow> Inr None
     | Some r \<Rightarrow> (case find_task (r_task_id r) d of
           None \<Rightarrow> Inr None
         | Some t \<Rightarrow>
             if t_status t \<noteq> as_str Consultation then Inr None
             else res_bind (repository_view_reference_from_database (t_view t)) (\<lambda>v.
               Inr (Some ((context_of_task t v)
                 \<lparr> x_run_id := Some rid, x_run_role := Some ''supervisor'',
                   x_repository_workspace_path := latest_executor_workspace_for_task (t_id t) d \<rparr>)))))"


section \<open>Sample databases\<close>

text \<open>An executing task leased to agent \<open>a\<close> for five seconds after the epoch, and the same task
  pending and unclaimed.\<close>

definition leased_task :: task_row where
  "leased_task = claim_row ''a'' (to_rfc3339_secs unary_chrono (5 * nanos)) (to_rfc3339_secs unary_chrono 0)
     (new_task_row ''t-001'' ''.ferrus/tasks/t-001.md'' (as_str Executing) None None)"

definition leased_db :: db where
  "leased_db = empty_db \<lparr> tasks := [leased_task] \<rparr>"

definition pending_task :: task_row where
  "pending_task = new_task_row ''t-001'' ''.ferrus/tasks/t-001.md'' (as_str Pending) None None"

definition pending_db :: db where
  "pending_db = empty_db \<lparr> tasks := [pending_task] \<rparr>"


section \<open>Orders\<close>

interpretation task_ids: row_order task_id_le
  by unfold_locales (auto simp: task_id_le_def)

interpretation lease_recency: row_order lease_recency_le
  by unfold_locales (auto simp: lease_recency_le_def split: option.splits)

interpretation run_recency: row_order run_recency_le
  by unfold_locales (auto simp: run_recency_le_def)


section \<open>Lemmas on single claims\<close>

text \<open>The row a claim leaves behind when it may promote a pending task.\<close>

definition promoted :: "bool \<Rightarrow> task_row \<Rightarrow> task_row" where
  "promoted p t = (if p \<and> t_status t = as_str Pending then promote_row t else t)"

lemma promote_row_simps [simp]:
  "t_id (promote_row t) = t_id t"
  "t_claimed_by (promote_row t) = t_claimed_by t"
  "t_lease_until (promote_row t) = t_lease_until t"
  by (simp_all add: promote_row_def)

lemma promoted_simps [simp]:
  "t_id (promoted p t) = t_id t"
  "t_claimed_by (promoted p t) = t_claimed_by t"
  "t_lease_until (promoted p t) = t_lease_until t"
  by (simp_all add: promoted_def)

lemma candidate_simps [simp]:
  "c_id (candidate_of_row t) = t_id t"
  "c_status (candidate_of_row t) = t_status t"
  "c_claimed_by (candidate_of_row t) = t_claimed_by t"
  "c_lease_until (candidate_of_row t) = t_lease_until t"
  by (simp_all add: candidate_of_row_def)

lemma task_ok_promote [simp, intro]: "task_ok t \<Longrightarrow> task_ok (promote_row t)"
  by (auto simp: task_ok_def promote_row_def opt_status_text_def)

lemma task_ok_renew:
  "task_ok t \<Longrightarrow> t_claimed_by t \<noteq> None \<Longrightarrow> task_ok (renew_row l n t)"
  by (simp add: task_ok_def renew_row_def lease_ok_def)

lemma renew_row_simps [simp]:
  "t_id (renew_row l n t) = t_id t"
  "t_claimed_by (renew_row l n t) = t_claimed_by t"
  by (simp_all add: renew_row_def)

text \<open>Promotion always succeeds and touches only the promoted row.\<close>

lemma promote_if_row:
  assumes "find_task (t_id t) d = Some t"
  obtains d1 where "promote_if ts p (candidate_of_row t) d = Inr (candidate_of_row (promoted p t), d1)"
    and "\<And>k. find_task k d1 = (if k = t_id t then Some (promoted p t) else find_task k d)"
    and "runs d1 = runs d" and "db_inv d \<Longrightarrow> db_inv d1"
proof (cases "p \<and> t_status t = as_str Pending")
  case True
  let ?f = "update_tasks (\<lambda>u. t_id u = t_id t \<and> t_status u = as_str Pending) promote_row"
  have find: "find_task k (?f d) = (if k = t_id t then Some (promoted p t) else find_task k d)" for k
    using assms True
    by (cases "find_task k d")
       (auto simp: row_simps promoted_def dest: task_table.get_key)
  have inv: "db_inv d \<Longrightarrow> db_inv (?f d)"
    by (auto intro!: inv_intros)
  have cand: "(candidate_of_row t)\<lparr>c_status := as_str Executing, c_paused_status := None\<rparr> =
      candidate_of_row (promoted p t)"
    using True by (simp add: candidate_of_row_def promoted_def promote_row_def)
  define d1 where "d1 = append_event None ''task_scheduled''
    (JObj [(''task_id'', JStr (t_id t)), (''previous_status'', JStr (t_status t)),
           (''status'', JStr (as_str Executing)), (''scheduled_at'', JStr ts)]) (?f d)"
  show ?thesis
  proof (rule that [of d1])
    show "promote_if ts p (candidate_of_row t) d = Inr (candidate_of_row (promoted p t), d1)"
      using True cand
      by (simp add: promote_if_def promote_pending_task_in_transaction_def Let_def d1_def)
  qed (use find inv in \<open>simp_all add: d1_def\<close>)
next
  case False
  have "promoted p t = t" using False by (auto simp: promoted_def)
  then show ?thesis using False assms by (intro that [of d]) (auto simp: promote_if_def)
qed

lemma claim_task_row:
  assumes "claim_task_in_transaction C tid agent until now d = Inr d'"
  shows "find_task k d' = (if k = tid then map_option (claim_row agent (to_rfc3339_secs C until)
      (to_rfc3339_secs C now)) (find_task k d) else find_task k d)"
    and "runs d' = runs d"
  using assms by (auto simp: claim_task_in_transaction_def Let_def row_simps)

lemma claim_task_total:
  obtains d' where "claim_task_in_transaction C tid agent until now d = Inr d'"
  by (auto simp: claim_task_in_transaction_def Let_def)

text \<open>The three outcomes of a claim of a task in an allowed status.\<close>

lemma claim_ready_refused:
  assumes "find_task tid d = Some t"
    and "lease_active C now (t_lease_until t)" "t_claimed_by t \<noteq> Some agent"
  shows "claim_ready_task_in_transaction C now ts tid agent ttl st p d = Inr (NoAvailable, d)"
  using assms by (simp add: claim_ready_task_in_transaction_def task_candidate_by_id_def)

lemma claim_ready_own:
  assumes t: "find_task tid d = Some t" and "t_status t \<in> set (map as_str st)"
    and act: "parse_lease_until C (t_lease_until t) = Some deadline" "now < deadline"
    and own: "t_claimed_by t = Some agent"
  obtains d1 where "claim_ready_task_in_transaction C now ts tid agent ttl st p d =
      Inr (AlreadyClaimed (lease_of_candidate (candidate_of_row (promoted p t)) agent deadline), d1)"
    and "\<And>k. find_task k d1 = (if k = tid then Some (promoted p t) else find_task k d)"
    and "runs d1 = runs d" and "db_inv d \<Longrightarrow> db_inv d1"
proof -
  have id: "t_id t = tid" using t by (rule task_table.get_key)
  obtain d1 where d1: "promote_if ts p (candidate_of_row t) d = Inr (candidate_of_row (promoted p t), d1)"
    and rest: "\<And>k. find_task k d1 = (if k = t_id t then Some (promoted p t) else find_task k d)"
    "runs d1 = runs d" "db_inv d \<Longrightarrow> db_inv d1"
    using promote_if_row [of t d] t id by auto
  show ?thesis
    using assms d1 rest id
    by (intro that [of d1])
       (auto simp: claim_ready_task_in_transaction_def task_candidate_by_id_def lease_active_def)
qed

lemma claim_ready_free:
  assumes t: "find_task tid d = Some t" and "t_status t \<in> set (map as_str st)"
    and free: "\<not> lease_active C now (t_lease_until t)"
    and until: "lease_deadline C now ttl = Inr until"
  obtains d2 where "claim_ready_task_in_transaction C now ts tid agent ttl st p d =
      Inr (Claimed (lease_of_candidate (candidate_of_row (promoted p t)) agent until), d2)"
    and "\<And>k. find_task k d2 = (if k = tid
        then Some (claim_row agent (to_rfc3339_secs C until) (to_rfc3339_secs C now) (promoted p t))
        else find_task k d)"
    and "runs d2 = runs d" and "db_inv d \<Longrightarrow> db_inv d2"
proof -
  have id: "t_id t = tid" using t by (rule task_table.get_key)
  obtain d1 where d1: "promote_if ts p (candidate_of_row t) d = Inr (candidate_of_row (promoted p t), d1)"
    and rest: "\<And>k. find_task k d1 = (if k = t_id t then Some (promoted p t) else find_task k d)"
    "runs d1 = runs d" "db_inv d \<Longrightarrow> db_inv d1"
    using promote_if_row [of t d] t id by auto
  obtain d2 where d2: "claim_task_in_transaction C tid agent until now d1 = Inr d2"
    by (rule claim_task_total)
  show ?thesis
    using assms d1 d2 rest id claim_task_row [OF d2]
    by (intro that [of d2])
       (auto simp: claim_ready_task_in_transaction_def task_candidate_by_id_def lease_active_def
          split: option.splits intro: db_inv_claim)
qed

text \<open>When the deadline is not representable the claim panics and the transaction is rolled back.\<close>

lemma claim_ready_panic:
  assumes t: "find_task tid d = Some t" and "t_status t \<in> set (map as_str st)"
    and free: "\<not> lease_active C now (t_lease_until t)"
    and until: "lease_deadline C now ttl = Inl e"
  shows "claim_ready_task_in_transaction C now ts tid agent ttl st p d = Inl e"
proof -
  have id: "t_id t = tid" using t by (rule task_table.get_key)
  obtain d1 where d1: "promote_if ts p (candidate_of_row t) d = Inr (candidate_of_row (promoted p t), d1)"
    using t id by (metis promote_if_row)
  show ?thesis
    using assms d1
    by (auto simp: claim_ready_task_in_transaction_def task_candidate_by_id_def lease_active_def
          split: option.splits)
qed

lemma claim_ready_unavailable:
  assumes "\<And>t. find_task tid d = Some t \<Longrightarrow> t_status t \<notin> set (map as_str st)"
  shows "claim_ready_task_in_transaction C now ts tid agent ttl st p d = Inr (NoAvailable, d)"
  using assms
  by (auto simp: claim_ready_task_in_transaction_def task_candidate_by_id_def split: option.splits)


section \<open>Lemmas on queue scans\<close>

definition eligible :: "TaskStatus list \<Rightarrow> task_row \<Rightarrow> bool" where
  "eligible st t = (t_status t \<in> set (map as_str st))"

definition owns_active :: "chrono \<Rightarrow> datetime \<Rightarrow> string \<Rightarrow> task_row \<Rightarrow> bool" where
  "owns_active C now agent t = (lease_active C now (t_lease_until t) \<and> t_claimed_by t = Some agent)"

definition queue_rows :: "TaskStatus list \<Rightarrow> db \<Rightarrow> task_row list" where
  "queue_rows st d = order_by task_id_le (filter (eligible st) (tasks d))"

lemma candidates_queue_rows: "task_candidates_by_status st d = map candidate_of_row (queue_rows st d)"
  by (auto simp: task_candidates_by_status_def queue_rows_def eligible_def [abs_def] order_by_def)

lemma find_map: "find P (map f xs) = map_option f (find (\<lambda>x. P (f x)) xs)"
  by (induction xs) auto

lemma set_queue_rows: "set (queue_rows st d) = {t \<in> set (tasks d). eligible st t}"
  by (auto simp: queue_rows_def)

lemma find_queue_rows:
  assumes "keys_ok d" "find P (queue_rows st d) = Some t"
  shows "find_task (t_id t) d = Some t" "eligible st t" "P t"
    and "\<And>u. u \<in> set (tasks d) \<Longrightarrow> eligible st u \<Longrightarrow> P u \<Longrightarrow> t_id t \<le> t_id u"
  using assms task_ids.find_order_by_least [of P "filter (eligible st) (tasks d)" t]
  by (auto simp: queue_rows_def find_task_iff task_id_le_def)

lemma claim_next_none:
  assumes "find (owns_active C now agent) (queue_rows st d) = None"
    and "find (\<lambda>t. \<not> lease_active C now (t_lease_until t)) (queue_rows st d) = None"
  shows "claim_next_in_transaction C now ts agent ttl st p d = Inr (NoAvailable, d)"
  using assms
  by (simp add: claim_next_in_transaction_def candidates_queue_rows find_map owns_active_def [abs_def])

lemma claim_next_own:
  assumes "keys_ok d" and own: "find (owns_active C now agent) (queue_rows st d) = Some t"
  obtains d1 deadline where "claim_next_in_transaction C now ts agent ttl st p d =
      Inr (AlreadyClaimed (lease_of_candidate (candidate_of_row (promoted p t)) agent deadline), d1)"
    and "parse_lease_until C (t_lease_until t) = Some deadline" and "now < deadline"
    and "\<And>k. find_task k d1 = (if k = t_id t then Some (promoted p t) else find_task k d)"
    and "runs d1 = runs d" and "db_inv d \<Longrightarrow> db_inv d1"
proof -
  note sel = find_queue_rows [OF assms(1) own]
  obtain d1 where d1: "promote_if ts p (candidate_of_row t) d = Inr (candidate_of_row (promoted p t), d1)"
    and rest: "\<And>k. find_task k d1 = (if k = t_id t then Some (promoted p t) else find_task k d)"
    "runs d1 = runs d" "db_inv d \<Longrightarrow> db_inv d1"
    using promote_if_row [OF sel(1), of ts p] by blast
  obtain deadline where deadline: "parse_lease_until C (t_lease_until t) = Some deadline" "now < deadline"
    using sel(3) by (auto simp: owns_active_def lease_active_def split: option.splits)
  show ?thesis
    using own d1 deadline rest
    by (intro that [of deadline d1])
       (simp_all add: claim_next_in_transaction_def candidates_queue_rows find_map
          owns_active_def [abs_def])
qed

lemma claim_next_free:
  assumes "keys_ok d" and none: "find (owns_active C now agent) (queue_rows st d) = None"
    and free: "find (\<lambda>t. \<not> lease_active C now (t_lease_until t)) (queue_rows st d) = Some t"
    and until: "lease_deadline C now ttl = Inr until"
  obtains d2 where "claim_next_in_transaction C now ts agent ttl st p d =
      Inr (Claimed (lease_of_candidate (candidate_of_row (promoted p t)) agent until), d2)"
    and "\<And>k. find_task k d2 = (if k = t_id t
        then Some (claim_row agent (to_rfc3339_secs C until) (to_rfc3339_secs C now) (promoted p t))
        else find_task k d)"
    and "runs d2 = runs d" and "db_inv d \<Longrightarrow> db_inv d2"
proof -
  note sel = find_queue_rows [OF assms(1) free]
  obtain d1 where d1: "promote_if ts p (candidate_of_row t) d = Inr (candidate_of_row (promoted p t), d1)"
    and rest: "\<And>k. find_task k d1 = (if k = t_id t then Some (promoted p t) else find_task k d)"
    "runs d1 = runs d" "db_inv d \<Longrightarrow> db_inv d1"
    using promote_if_row [OF sel(1), of ts p] by blast
  obtain d2 where d2: "claim_task_in_transaction C (t_id t) agent until now d1 = Inr d2"
    by (rule claim_task_total)
  show ?thesis
    using none free until d1 d2 rest claim_task_row [OF d2] db_inv_claim [OF d2]
    by (intro that [of d2])
       (simp_all add: claim_next_in_transaction_def candidates_queue_rows find_map
          owns_active_def [abs_def])
qed

lemma claim_next_panic:
  assumes "keys_ok d" and none: "find (owns_active C now agent) (queue_rows st d) = None"
    and free: "find (\<lambda>t. \<not> lease_active C now (t_lease_until t)) (queue_rows st d) = Some t"
    and until: "lease_deadline C now ttl = Inl e"
  shows "claim_next_in_transaction C now ts agent ttl st p d = Inl e"
proof -
  note sel = find_queue_rows [OF assms(1) free]
  obtain d1 where "promote_if ts p (candidate_of_row t) d = Inr (candidate_of_row (promoted p t), d1)"
    using promote_if_row [OF sel(1), of ts p] by blast
  then show ?thesis
    using none free until
    by (simp add: claim_next_in_transaction_def candidates_queue_rows find_map owns_active_def [abs_def])
qed


section \<open>Lemmas on renewal and on claims by path\<close>

lemma renew_lease_cases:
  assumes "renew_task_lease_in_transaction C now tid agent ttl lease d = Inr (r, d')"
  shows "(r = None \<and> d' = d \<and> \<not> lease_active C now lease) \<or>
    (\<exists>until. r = Some until \<and> lease_deadline C now ttl = Inr until \<and> lease_active C now lease \<and>
      runs d' = runs d \<and>
      (\<forall>k. find_task k d' = (if k = tid
         then map_option (renew_row (to_rfc3339_secs C until) (to_rfc3339_secs C now)) (find_task k d)
         else find_task k d)))"
  using assms
  by (auto simp: renew_task_lease_in_transaction_def lease_active_def res_bind_Inr_iff Let_def
      row_simps split: option.splits if_splits)

lemma db_inv_renew:
  assumes "renew_task_lease_in_transaction C now tid agent ttl lease d = Inr (r, d')"
    and "db_inv d" and "\<And>t. find_task tid d = Some t \<Longrightarrow> t_claimed_by t \<noteq> None"
  shows "db_inv d'"
  using assms
  by (auto simp: renew_task_lease_in_transaction_def res_bind_Inr_iff Let_def
      intro!: inv_intros task_ok_renew split: option.splits if_splits)

lemma latest_claimed_task_in:
  assumes "keys_ok d" "latest_claimed_task agent d = Some t"
  shows "find_task (t_id t) d = Some t" "t_claimed_by t = Some agent"
    and "\<And>u. u \<in> set (tasks d) \<Longrightarrow> t_claimed_by u = Some agent \<Longrightarrow> lease_recency_le t u"
  using assms lease_recency.limit_1_least [of "filter (\<lambda>t. t_claimed_by t = Some agent) (tasks d)" t]
  by (auto simp: latest_claimed_task_def find_task_iff)

lemma ensure_task_find:
  "find_task k (ensure_task_exists tid path d) =
    (if k = tid \<and> find_task tid d = None
     then Some (new_task_row tid path (as_str Unknown) None None) else find_task k d)"
  by (auto simp: ensure_task_exists_def row_simps split: option.splits)

lemma ensure_task_runs [simp]: "runs (ensure_task_exists tid path d) = runs d"
  by (simp add: ensure_task_exists_def split: option.split)


section \<open>Preservation of the invariant\<close>

text \<open>Every way a claim can end, as elimination rules.\<close>

lemma claim_ready_elim:
  assumes res: "claim_ready_task_in_transaction C now ts tid agent ttl st p d = Inr (r, d')"
  obtains (none) "r = NoAvailable" "d' = d"
      "\<And>t. find_task tid d = Some t \<Longrightarrow> eligible st t \<Longrightarrow>
        lease_active C now (t_lease_until t) \<and> t_claimed_by t \<noteq> Some agent"
    | (own) t deadline where "find_task tid d = Some t" "eligible st t" "owns_active C now agent t"
      "parse_lease_until C (t_lease_until t) = Some deadline"
      "r = AlreadyClaimed (lease_of_candidate (candidate_of_row (promoted p t)) agent deadline)"
      "\<And>k. find_task k d' = (if k = tid then Some (promoted p t) else find_task k d)"
      "runs d' = runs d" "db_inv d \<Longrightarrow> db_inv d'"
    | (free) t until where "find_task tid d = Some t" "eligible st t"
      "\<not> lease_active C now (t_lease_until t)" "lease_deadline C now ttl = Inr until"
      "r = Claimed (lease_of_candidate (candidate_of_row (promoted p t)) agent until)"
      "\<And>k. find_task k d' = (if k = tid
        then Some (claim_row agent (to_rfc3339_secs C until) (to_rfc3339_secs C now) (promoted p t))
        else find_task k d)"
      "runs d' = runs d" "db_inv d \<Longrightarrow> db_inv d'"
proof (cases "\<exists>t. find_task tid d = Some t \<and> eligible st t")
  case False
  then show ?thesis using none res claim_ready_unavailable [of tid d st] by (auto simp: eligible_def)
next
  case True
  then obtain t where t: "find_task tid d = Some t" and e: "t_status t \<in> set (map as_str st)"
    by (auto simp: eligible_def)
  consider (refused) "lease_active C now (t_lease_until t)" "t_claimed_by t \<noteq> Some agent"
    | (mine) "owns_active C now agent t" | (idle) "\<not> lease_active C now (t_lease_until t)"
    by (auto simp: owns_active_def)
  then show ?thesis
  proof cases
    case refused
    then show ?thesis using none res t claim_ready_refused [OF t refused, of ts ttl st p] by simp
  next
    case mine
    then obtain deadline where dl: "parse_lease_until C (t_lease_until t) = Some deadline" "now < deadline"
      and c: "t_claimed_by t = Some agent"
      by (auto simp: owns_active_def lease_active_def split: option.splits)
    obtain d1 where "claim_ready_task_in_transaction C now ts tid agent ttl st p d =
        Inr (AlreadyClaimed (lease_of_candidate (candidate_of_row (promoted p t)) agent deadline), d1)"
      "\<And>k. find_task k d1 = (if k = tid then Some (promoted p t) else find_task k d)"
      "runs d1 = runs d" "db_inv d \<Longrightarrow> db_inv d1"
      by (rule claim_ready_own [OF t e dl c, of ts ttl p]) blast
    then show ?thesis using own [OF t] res dl e mine by (simp add: eligible_def)
  next
    case idle
    then obtain until where u: "lease_deadline C now ttl = Inr until"
      using res claim_ready_panic [OF t e idle] by (cases "lease_deadline C now ttl") auto
    obtain d2 where "claim_ready_task_in_transaction C now ts tid agent ttl st p d =
        Inr (Claimed (lease_of_candidate (candidate_of_row (promoted p t)) agent until), d2)"
      "\<And>k. find_task k d2 = (if k = tid
        then Some (claim_row agent (to_rfc3339_secs C until) (to_rfc3339_secs C now) (promoted p t))
        else find_task k d)"
      "runs d2 = runs d" "db_inv d \<Longrightarrow> db_inv d2"
      by (rule claim_ready_free [OF t e idle u, of ts agent p]) blast
    then show ?thesis using free [OF t] res e idle u by (simp add: eligible_def)
  qed
qed

lemma claim_next_elim:
  assumes keys: "keys_ok d" and res: "claim_next_in_transaction C now ts agent ttl st p d = Inr (r, d')"
  obtains (none) "r = NoAvailable" "d' = d"
      "\<And>t. t \<in> set (tasks d) \<Longrightarrow> eligible st t \<Longrightarrow>
        lease_active C now (t_lease_until t) \<and> t_claimed_by t \<noteq> Some agent"
    | (own) t deadline where "find_task (t_id t) d = Some t" "eligible st t" "owns_active C now agent t"
      "\<And>u. u \<in> set (tasks d) \<Longrightarrow> eligible st u \<Longrightarrow> owns_active C now agent u \<Longrightarrow> t_id t \<le> t_id u"
      "parse_lease_until C (t_lease_until t) = Some deadline"
      "r = AlreadyClaimed (lease_of_candidate (candidate_of_row (promoted p t)) agent deadline)"
      "\<And>k. find_task k d' = (if k = t_id t then Some (promoted p t) else find_task k d)"
      "runs d' = runs d" "db_inv d \<Longrightarrow> db_inv d'"
    | (free) t until where "find_task (t_id t) d = Some t" "eligible st t"
      "\<not> lease_active C now (t_lease_until t)"
      "\<And>u. u \<in> set (tasks d) \<Longrightarrow> eligible st u \<Longrightarrow> \<not> owns_active C now agent u"
      "\<And>u. u \<in> set (tasks d) \<Longrightarrow> eligible st u \<Longrightarrow> \<not> lease_active C now (t_lease_until u) \<Longrightarrow>
        t_id t \<le> t_id u"
      "lease_deadline C now ttl = Inr until"
      "r = Claimed (lease_of_candidate (candidate_of_row (promoted p t)) agent until)"
      "\<And>k. find_task k d' = (if k = t_id t
        then Some (claim_row agent (to_rfc3339_secs C until) (to_rfc3339_secs C now) (promoted p t))
        else find_task k d)"
      "runs d' = runs d" "db_inv d \<Longrightarrow> db_inv d'"
proof (cases "find (owns_active C now agent) (queue_rows st d)")
  case mine: (Some t)
  obtain d1 deadline where "claim_next_in_transaction C now ts agent ttl st p d =
      Inr (AlreadyClaimed (lease_of_candidate (candidate_of_row (promoted p t)) agent deadline), d1)"
    and "parse_lease_until C (t_lease_until t) = Some deadline"
    and "\<And>k. find_task k d1 = (if k = t_id t then Some (promoted p t) else find_task k d)"
    and "runs d1 = runs d" and "db_inv d \<Longrightarrow> db_inv d1"
    by (rule claim_next_own [OF keys mine, of ts ttl p]) blast
  then show ?thesis
    using own [OF find_queue_rows [OF keys mine]] res by simp
next
  case mine: None
  then have not_mine: "\<And>u. u \<in> set (tasks d) \<Longrightarrow> eligible st u \<Longrightarrow> \<not> owns_active C now agent u"
    by (auto simp: find_None_iff set_queue_rows)
  show ?thesis
  proof (cases "find (\<lambda>t. \<not> lease_active C now (t_lease_until t)) (queue_rows st d)")
    case None
    then have "\<And>u. u \<in> set (tasks d) \<Longrightarrow> eligible st u \<Longrightarrow> lease_active C now (t_lease_until u)"
      by (auto simp: find_None_iff set_queue_rows)
    then show ?thesis using none res claim_next_none [OF mine None] not_mine
      by (auto simp: owns_active_def)
  next
    case idle: (Some t)
    then obtain until where u: "lease_deadline C now ttl = Inr until"
      using res claim_next_panic [OF keys mine idle] by (cases "lease_deadline C now ttl") auto
    obtain d2 where "claim_next_in_transaction C now ts agent ttl st p d =
        Inr (Claimed (lease_of_candidate (candidate_of_row (promoted p t)) agent until), d2)"
      and "\<And>k. find_task k d2 = (if k = t_id t
        then Some (claim_row agent (to_rfc3339_secs C until) (to_rfc3339_secs C now) (promoted p t))
        else find_task k d)"
      and "runs d2 = runs d" and "db_inv d \<Longrightarrow> db_inv d2"
      by (rule claim_next_free [OF keys mine idle u, of ts p]) blast
    then show ?thesis
      using free [OF find_queue_rows(1-3) [OF keys idle] not_mine find_queue_rows(4) [OF keys idle] u]
        res by simp
  qed
qed

lemma db_inv_claim_ready:
  assumes "claim_ready_task_in_transaction C now ts tid agent ttl st p d = Inr (r, d')" "db_inv d"
  shows "db_inv d'"
  using assms by (elim claim_ready_elim) simp_all

lemma db_inv_claim_next:
  assumes "claim_next_in_transaction C now ts agent ttl st p d = Inr (r, d')" "db_inv d"
  shows "db_inv d'"
  using db_inv_keys [OF assms(2)] assms(1) by (rule claim_next_elim) (use assms(2) in simp_all)

lemma db_inv_claim_task:
  assumes "claim_task_tx C now now' tid path agent ttl d = Inr (r, d')" "db_inv d"
  shows "db_inv d'"
proof -
  have inv: "db_inv (ensure_task_exists tid path d)" using assms(2) by (rule inv_intros)
  then show ?thesis
    using assms(1)
    by (auto simp: claim_task_tx_def Let_def res_bind_Inr_iff split: if_splits option.splits prod.splits
        intro: db_inv_claim db_inv_renew)
qed

lemma db_inv_renew_claimed:
  assumes "renew_claimed_task_lease_tx C now agent ttl d = Inr (r, d')" "db_inv d"
  shows "db_inv d'"
  using assms latest_claimed_task_in [OF db_inv_keys]
  by (fastforce simp: renew_claimed_task_lease_tx_def res_bind_Inr_iff split: option.splits
      intro: db_inv_renew)


section \<open>Properties\<close>

lemma run_tx_snd: "snd (run_tx tx d) = (case tx d of Inl e \<Rightarrow> d | Inr (a, d') \<Rightarrow> d')"
  by (simp add: run_tx_def split: sum.split prod.split)

lemma run_tx_frame:
  "(\<And>r d'. tx d = Inr (r, d') \<Longrightarrow> find_task k d' = x) \<Longrightarrow> find_task k d = x \<Longrightarrow>
    find_task k (snd (run_tx tx d)) = x"
  by (auto simp: run_tx_snd split: sum.split)

lemma run_tx_ok: "is_ok (fst (run_tx tx d)) \<longleftrightarrow> (\<nexists>e. tx d = Inl e)"
  by (cases "tx d") (auto simp: run_tx_def split: prod.splits)

lemma run_tx_Inr: "run_tx tx d = (Inr a, d') \<longleftrightarrow> tx d = Inr (a, d')"
  by (auto simp: run_tx_def split: sum.splits prod.splits)

lemma claim_ready_frame:
  assumes "claim_ready_task_in_transaction C now ts k agent ttl st p d = Inr (r, d')"
    and "find_task tid d = Some t" "lease_active C now (t_lease_until t)" "t_claimed_by t \<noteq> Some agent"
  shows "find_task tid d' = Some t"
  using assms(1) by (rule claim_ready_elim) (use assms(2-) in \<open>auto simp: owns_active_def\<close>)

lemma claim_next_frame:
  assumes "keys_ok d" "claim_next_in_transaction C now ts agent ttl st p d = Inr (r, d')"
    and "find_task tid d = Some t" "lease_active C now (t_lease_until t)" "t_claimed_by t \<noteq> Some agent"
  shows "find_task tid d' = Some t"
  using assms(1,2) by (rule claim_next_elim) (use assms(3-) in \<open>auto simp: owns_active_def\<close>)

lemma renew_frame:
  assumes "renew_task_lease_in_transaction C now k agent ttl lease d = Inr (r, d')" "k \<noteq> tid"
  shows "find_task tid d' = find_task tid d"
  using renew_lease_cases [OF assms(1)] assms(2) by auto

lemma claim_task_frame:
  assumes "claim_task_tx C now now' k path agent ttl d = Inr (r, d')"
    and t: "find_task tid d = Some t" "lease_active C now (t_lease_until t)" "t_claimed_by t \<noteq> Some agent"
  shows "find_task tid d' = Some t"
proof -
  let ?d = "ensure_task_exists k path d"
  have t': "find_task tid ?d = Some t" using t by (auto simp: ensure_task_find)
  show ?thesis
  proof (cases "k = tid")
    case True
    then show ?thesis using assms t' by (simp add: claim_task_tx_def Let_def)
  next
    case False
    then show ?thesis using assms(1) t'
      by (auto simp: claim_task_tx_def Let_def res_bind_Inr_iff claim_task_row renew_frame
          split: option.splits if_splits)
  qed
qed

lemma renew_claimed_frame:
  assumes "keys_ok d" "renew_claimed_task_lease_tx C now agent ttl d = Inr (r, d')"
    and "find_task tid d = Some t" "t_claimed_by t \<noteq> Some agent"
  shows "find_task tid d' = Some t"
proof (cases "latest_claimed_task agent d")
  case None
  then show ?thesis using assms by (simp add: renew_claimed_task_lease_tx_def)
next
  case (Some u)
  then have "t_id u \<noteq> tid" using latest_claimed_task_in [OF assms(1) Some] assms by auto
  then show ?thesis using assms Some
    by (auto simp: renew_claimed_task_lease_tx_def res_bind_Inr_iff renew_frame split: option.splits)
qed

text \<open>C2: an active lease is exclusive. While an agent holds a task with an unexpired lease, no claim
  by identity, queue scan, claim by path or heartbeat of any other agent changes the task's row, and
  a claim of that task by another agent is refused without touching the database.\<close>

theorem active_lease_is_exclusive:
  assumes "db_inv d" "find_task tid d = Some t"
    and "lease_active C now (t_lease_until t)" "t_claimed_by t = Some owner" "agent \<noteq> owner"
  shows "claim_task_by_id_with_statuses C now ts tid agent ttl st p d = (Inr NoAvailable, d) \<and>
    fst (claim_task_in_database C now now' tid path agent ttl d) = Inr (ClaimedByOther owner) \<and>
    find_task tid (snd (claim_task_by_id_with_statuses C now ts k agent ttl st p d)) = Some t \<and>
    find_task tid (snd (claim_next_task_with_statuses C now ts agent ttl st p d)) = Some t \<and>
    find_task tid (snd (claim_task_in_database C now now' k path agent ttl d)) = Some t \<and>
    find_task tid (snd (renew_claimed_task_lease C now agent ttl d)) = Some t"
proof -
  have keys: "keys_ok d" and other: "t_claimed_by t \<noteq> Some agent"
    using assms by (auto intro: db_inv_keys)
  note t = assms(2,3) other
  have refused: "claim_task_by_id_with_statuses C now ts tid agent ttl st p d = (Inr NoAvailable, d)"
    using claim_ready_refused [OF t] by (simp add: claim_task_by_id_with_statuses_def run_tx_def)
  have by_path: "fst (claim_task_in_database C now now' tid path agent ttl d) = Inr (ClaimedByOther owner)"
    using assms by (simp add: claim_task_in_database_def run_tx_def claim_task_tx_def ensure_task_find Let_def)
  have by_id: "find_task tid (snd (claim_task_by_id_with_statuses C now ts k agent ttl st p d)) = Some t"
    unfolding claim_task_by_id_with_statuses_def
    by (rule run_tx_frame) (erule claim_ready_frame [OF _ t], rule t(1))
  have scan: "find_task tid (snd (claim_next_task_with_statuses C now ts agent ttl st p d)) = Some t"
    unfolding claim_next_task_with_statuses_def
    by (rule run_tx_frame) (erule claim_next_frame [OF keys _ t], rule t(1))
  have path: "find_task tid (snd (claim_task_in_database C now now' k path agent ttl d)) = Some t"
    unfolding claim_task_in_database_def
    by (rule run_tx_frame) (erule claim_task_frame [OF _ t], rule t(1))
  have heartbeat: "find_task tid (snd (renew_claimed_task_lease C now agent ttl d)) = Some t"
    unfolding renew_claimed_task_lease_def
    by (rule run_tx_frame) (erule renew_claimed_frame [OF keys _ t(1,3)], rule t(1))
  show ?thesis using refused by_path by_id scan path heartbeat by (intro conjI)
qed

theorem active_lease_is_exclusive_witness:
  "fst (claim_task_by_id_with_statuses unary_chrono 0 [] ''t-001'' ''b'' 60 [Executing] True leased_db) =
     Inr NoAvailable \<and>
   fst (claim_task_in_database unary_chrono 0 0 ''t-001'' [] ''b'' 60 leased_db) = Inr (ClaimedByOther ''a'')"
proof -
  have "db_inv leased_db" "find_task ''t-001'' leased_db = Some leased_task"
    "lease_active unary_chrono 0 (t_lease_until leased_task)"
    "t_claimed_by leased_task = Some ''a''" "''b'' \<noteq> ''a''"
    by code_simp+
  from active_lease_is_exclusive [OF this, of "[]" 60 "[Executing]" True 0 "[]"]
  show ?thesis by simp
qed

text \<open>What a granted deadline is, under the documented behaviour of \<open>chrono\<close>.\<close>

lemma lease_deadline_exact:
  assumes "chrono_ok C" "0 \<le> sint ttl" "sint ttl \<le> 9223372036854775"
  shows "lease_deadline C now ttl = Inr until \<Longrightarrow> until = now + sint ttl * nanos"
    and "rfc3339_range now \<Longrightarrow> rfc3339_range (now + sint ttl * nanos) \<Longrightarrow>
      lease_deadline C now ttl = Inr (now + sint ttl * nanos)"
  using assms
  by (auto simp: lease_deadline_def chrono_seconds chrono_add_range dest: chrono_add split: option.splits)

text \<open>C6: a successful claim of an idle task gives its agent the lease. The row names the agent and a
  deadline \<open>ttl\<close> seconds ahead, cut to whole seconds; every other task is unchanged; and until that
  deadline any other agent's claim of the task is refused.\<close>

theorem claim_grants_lease:
  assumes "chrono_ok C" "0 \<le> sint ttl" "sint ttl \<le> 9223372036854775"
    and "claim_task_by_id_with_statuses C now ts tid agent ttl st p d = (Inr (Claimed l), d')"
    and "rfc3339_range (now + sint ttl * nanos)"
  shows "(\<exists>t. find_task tid d' = Some t \<and> t_claimed_by t = Some agent \<and>
        parse_lease_until C (t_lease_until t) = Some ((now + sint ttl * nanos) div nanos * nanos)) \<and>
    (\<forall>k. k \<noteq> tid \<longrightarrow> find_task k d' = find_task k d) \<and>
    (\<forall>agent' now' ts' ttl' st' p'.
       agent' \<noteq> agent \<and> now' < (now + sint ttl * nanos) div nanos * nanos \<longrightarrow>
       claim_task_by_id_with_statuses C now' ts' tid agent' ttl' st' p' d' = (Inr NoAvailable, d'))"
proof -
  have res: "claim_ready_task_in_transaction C now ts tid agent ttl st p d = Inr (Claimed l, d')"
    using assms(4) by (simp add: claim_task_by_id_with_statuses_def run_tx_Inr)
  then show ?thesis
  proof (cases rule: claim_ready_elim)
    case (free t until)
    let ?t = "claim_row agent (to_rfc3339_secs C until) (to_rfc3339_secs C now) (promoted p t)"
    let ?stop = "(now + sint ttl * nanos) div nanos * nanos"
    have until: "until = now + sint ttl * nanos"
      using lease_deadline_exact(1) [OF assms(1-3)] free by blast
    have row: "find_task tid d' = Some ?t" "t_claimed_by ?t = Some agent"
      "parse_lease_until C (t_lease_until ?t) = Some ?stop"
      using free(6) assms(1,5) until by (simp_all add: claim_row_def parse_lease_until_def chrono_parse)
    have "claim_task_by_id_with_statuses C now' ts' tid agent' ttl' st' p' d' = (Inr NoAvailable, d')"
      if "agent' \<noteq> agent" "now' < ?stop" for agent' now' ts' ttl' st' p'
      using claim_ready_refused [OF row(1)] row that
      by (simp add: claim_task_by_id_with_statuses_def run_tx_def lease_active_def)
    then show ?thesis using row free(6) by auto
  qed simp_all
qed

theorem claim_grants_lease_witness:
  "fst (claim_task_by_id_with_statuses unary_chrono (3 * nanos) [] ''t-001'' ''b'' 60 [Executing] True
     (snd (claim_task_by_id_with_statuses unary_chrono 0 [] ''t-001'' ''a'' 60 [Pending] True pending_db)))
   = Inr NoAvailable"
proof -
  let ?claim = "claim_task_by_id_with_statuses unary_chrono 0 [] ''t-001'' ''a'' 60 [Pending] True pending_db"
  have "case fst ?claim of Inr (Claimed l) \<Rightarrow> True | _ \<Rightarrow> False" by code_simp
  then obtain l where "?claim = (Inr (Claimed l), snd ?claim)"
    by (cases ?claim) (auto split: sum.splits ReadyTaskClaim.splits)
  from claim_grants_lease [OF unary_chrono_ok _ _ this] show ?thesis
    by (simp add: rfc3339_range_def nanos_def)
qed

text \<open>C7: a queue scan returns the right task. It reports nothing available exactly when every
  eligible task is under an active lease of another agent; it returns the caller's own active lease
  with the least task identity if there is one; otherwise it claims the eligible task without an
  active lease that has the least identity, and that row now names the caller.\<close>

theorem claim_next_selects:
  assumes "db_inv d" and "claim_next_task_with_statuses C now ts agent ttl st p d = (Inr r, d')"
  shows "(case r of
      NoAvailable \<Rightarrow> d' = d \<and> (\<forall>t. t \<in> set (tasks d) \<and> eligible st t \<longrightarrow>
        lease_active C now (t_lease_until t) \<and> t_claimed_by t \<noteq> Some agent)
    | AlreadyClaimed l \<Rightarrow> (\<exists>t. find_task (l_task_id l) d = Some t \<and> eligible st t \<and>
        owns_active C now agent t \<and> find_task (l_task_id l) d' = Some (promoted p t) \<and>
        (\<forall>u. u \<in> set (tasks d) \<and> eligible st u \<and> owns_active C now agent u \<longrightarrow> t_id t \<le> t_id u))
    | Claimed l \<Rightarrow> (\<exists>t u. find_task (l_task_id l) d = Some t \<and> eligible st t \<and>
        \<not> lease_active C now (t_lease_until t) \<and>
        find_task (l_task_id l) d' = Some u \<and> t_claimed_by u = Some agent \<and>
        t_status u = t_status (promoted p t) \<and>
        (\<forall>v. v \<in> set (tasks d) \<and> eligible st v \<longrightarrow> \<not> owns_active C now agent v \<and>
          (\<not> lease_active C now (t_lease_until v) \<longrightarrow> t_id t \<le> t_id v))))"
proof -
  have "claim_next_in_transaction C now ts agent ttl st p d = Inr (r, d')"
    using assms(2) by (simp add: claim_next_task_with_statuses_def run_tx_Inr)
  with db_inv_keys [OF assms(1)] show ?thesis
  proof (cases rule: claim_next_elim)
    case none
    then show ?thesis by auto
  next
    case (own t deadline)
    then have "l_task_id (lease_of_candidate (candidate_of_row (promoted p t)) agent deadline) = t_id t"
      by (simp add: lease_of_candidate_def)
    then show ?thesis using own by auto
  next
    case (free t until)
    then have "l_task_id (lease_of_candidate (candidate_of_row (promoted p t)) agent until) = t_id t"
      by (simp add: lease_of_candidate_def)
    then show ?thesis using free by (auto simp: claim_row_def)
  qed
qed

theorem claim_next_selects_witness:
  "fst (claim_next_task_with_statuses unary_chrono 0 [] ''b'' 60 [Executing] True leased_db) = Inr NoAvailable \<and>
   lease_active unary_chrono 0 (t_lease_until leased_task)"
proof -
  let ?scan = "claim_next_task_with_statuses unary_chrono 0 [] ''b'' 60 [Executing] True leased_db"
  have 1: "db_inv leased_db" and "fst ?scan = Inr NoAvailable" and 3: "eligible [Executing] leased_task"
    by code_simp+
  then have 2: "?scan = (Inr NoAvailable, snd ?scan)" by (cases ?scan) auto
  show ?thesis
    using claim_next_selects [OF 1 2] 3 \<open>fst ?scan = Inr NoAvailable\<close> by (simp add: leased_db_def)
qed

lemma no_promote_error: "promote_if ts p c d \<noteq> Inl e"
  by (simp add: promote_if_def promote_pending_task_in_transaction_def Let_def)

lemma no_claim_error: "claim_task_in_transaction C k agent until now d \<noteq> Inl e"
  by (simp add: claim_task_in_transaction_def Let_def)

lemma no_renew_error:
  "lease_deadline C now ttl = Inr u \<Longrightarrow> renew_task_lease_in_transaction C now k agent ttl l d \<noteq> Inl e"
  by (simp add: renew_task_lease_in_transaction_def Let_def split: option.split)



end
