(* ===== verification/Task_Transitions.thy ===== *)
theory Task_Transitions
  imports Claims
begin

text \<open>
  Task transitions (\<open>src/src/project/task.rs\<close>) and the consultation and human-answer pauses
  (\<open>src/src/project/task/waits.rs\<close>): status changes, submission with the frozen repository view,
  check and review accounting, the executor dispatch budget, pausing and restoring.

  Counters are \<open>u32\<close> values, modelled as 32-bit words whose addition wraps (the release profile has no
  overflow checks), and stored in \<open>i64\<close> columns. A transaction body has the type
  \<open>db \<Rightarrow> err + result \<times> db\<close>; where the code executes statements outside a transaction the
  definition returns the database of the completed statements next to the error.

  The lemmas give the effect of each transition on the task's row and on the other rows, the
  behaviour of repeated failures and rejections, and that pausing and restoring are inverse.
\<close>

datatype TaskCheckFailure = CheckFailed "32 word" | CheckLimitExceeded "32 word"

datatype TaskReviewRejection = RejectedAddressing "32 word" | RejectionLimitExceeded "32 word"

datatype ExecutorDispatchOutcome = Proceed | DispatchLimitExceeded "32 word"

datatype TaskConsultRestore = ConsultRestored string | NotInConsultation

datatype TaskHumanAnswerRestore = HumanRestored string | NotAwaitingHuman

record SubmissionCheckEvidence =
  checks_passed :: bool
  checks_commands_sha256 :: "string option"


section \<open>Status changes\<close>

definition record_task_status_on_connection ::
  "string \<Rightarrow> string \<Rightarrow> TaskStatus \<Rightarrow> string option \<Rightarrow> string option \<Rightarrow> db \<Rightarrow> db res" where
  "record_task_status_on_connection tid path status spec_path milestone_id d =
    (let d1 = upsert_task tid path status spec_path milestone_id d;
         d2 = (if clears_lease status then clear_task_lease tid d1 else d1)
     in insert_event None ''task_status_changed''
          (JObj [(''task_id'', JStr tid), (''status'', JStr (as_str status))]) d2)"

definition record_task_status :: "string \<Rightarrow> string \<Rightarrow> TaskStatus \<Rightarrow> db \<Rightarrow> db res" where
  "record_task_status tid path status d = record_task_status_on_connection tid path status None None d"


section \<open>Submission\<close>

datatype owner_table = Tasks | Runs

definition update_repository_view_in_transaction ::
  "owner_table \<Rightarrow> string \<Rightarrow> RepositoryViewReference \<Rightarrow> db \<Rightarrow> db res" where
  "update_repository_view_in_transaction owner owner_id view d =
    (case owner of
       Tasks \<Rightarrow>
         if find_task owner_id d = None
         then Inl (Bail ''Cannot record submitted repository view: tasks row does not exist'')
         else Inr (update_task owner_id (\<lambda>t. t \<lparr> t_view := view_columns view \<rparr>) d)
     | Runs \<Rightarrow>
         if find_run owner_id d = None
         then Inl (Bail ''Cannot record submitted repository view: runs row does not exist'')
         else Inr (update_run owner_id (\<lambda>r. r \<lparr> r_view := view_columns view \<rparr>) d))"

definition require_frozen :: "RepositoryViewReference option \<Rightarrow> unit res" where
  "require_frozen frozen_view =
    (case frozen_view of
       None \<Rightarrow> Inr ()
     | Some view \<Rightarrow> res_bind (validate_view view) (\<lambda>_.
         ensure (view_lifecycle view = FrozenSubmitted)
           (Bail ''A submitted repository view must be frozen'')))"

text \<open>The view part of a submission: pin the frozen view on the task and on the submitting run, or note
  that freezing failed.\<close>

definition submission_view ::
  "string \<Rightarrow> string option \<Rightarrow> RepositoryViewReference option \<Rightarrow> bool \<Rightarrow> db \<Rightarrow> db res" where
  "submission_view tid run_id frozen_view freeze_failed d =
    (case frozen_view of
       Some view \<Rightarrow>
         res_bind (update_repository_view_in_transaction Tasks tid view d) (\<lambda>d1.
         res_bind (case run_id of None \<Rightarrow> Inr d1
                   | Some rid \<Rightarrow> update_repository_view_in_transaction Runs rid view d1) (\<lambda>d2.
           insert_event_in_transaction run_id ''repository_view_frozen''
             (JObj [(''task_id'', JStr tid), (''snapshot_id'', jopt (view_view_snapshot_id view))]) d2))
     | None \<Rightarrow>
         if freeze_failed
         then insert_event_in_transaction run_id ''repository_view_freeze_failed''
                (JObj [(''task_id'', JStr tid)]) d
         else Inr d)"

definition task_submitted_in_transaction ::
  "string \<Rightarrow> string \<Rightarrow> string option \<Rightarrow> RepositoryViewReference option \<Rightarrow> bool \<Rightarrow>
    SubmissionCheckEvidence \<Rightarrow> db \<Rightarrow> db res" where
  "task_submitted_in_transaction tid path run_id frozen_view freeze_failed checks d =
    res_bind (require_frozen frozen_view) (\<lambda>_.
      let d1 = clear_task_lease tid (upsert_task tid path Reviewing None None d) in
      res_bind (submission_view tid run_id frozen_view freeze_failed d1) (\<lambda>d2.
      res_bind (insert_event_in_transaction run_id ''submission_committed''
          (JObj [(''task_id'', JStr tid),
                 (''check_gate'', JStr (if checks_passed checks then ''passed'' else ''skipped'')),
                 (''check_commands_sha256'', jopt (checks_commands_sha256 checks)),
                 (''review_cycles'', JInt (uint (task_review_cycles tid d2)))]) d2) (\<lambda>d3.
        insert_event_in_transaction run_id ''task_status_changed''
          (JObj [(''task_id'', JStr tid), (''status'', JStr (as_str Reviewing))]) d3)))"

text \<open>\<open>record_task_submitted\<close> checks the view once more before it opens the database.\<close>

definition record_task_submitted ::
  "string \<Rightarrow> string \<Rightarrow> string option \<Rightarrow> RepositoryViewReference option \<Rightarrow> bool \<Rightarrow>
    SubmissionCheckEvidence \<Rightarrow> db \<Rightarrow> unit res \<times> db" where
  "record_task_submitted tid path run_id frozen_view freeze_failed checks d =
    (case require_frozen frozen_view of
       Inl e \<Rightarrow> (Inl e, d)
     | Inr _ \<Rightarrow> run_tx (\<lambda>d. res_bind
         (task_submitted_in_transaction tid path run_id frozen_view freeze_failed checks d)
         (\<lambda>d'. Inr ((), d'))) d)"


section \<open>Checks\<close>

definition task_check_passed_in_transaction :: "string \<Rightarrow> db \<Rightarrow> db res" where
  "task_check_passed_in_transaction tid d =
    insert_event None ''task_check_passed'' (JObj [(''task_id'', JStr tid)])
      (update_task tid (\<lambda>t. t \<lparr> t_check_retries := 0, t_failure_reason := None \<rparr>) d)"

text \<open>No transaction: the update stays when the event cannot be inserted.\<close>

definition record_task_integration_failed ::
  "string \<Rightarrow> string option \<Rightarrow> string \<Rightarrow> db \<Rightarrow> unit res \<times> db" where
  "record_task_integration_failed tid run_id failure_reason d =
    (let d1 = update_task tid (\<lambda>t. t \<lparr> t_failure_reason := Some failure_reason \<rparr>) d
     in case insert_event run_id ''task_integration_failed''
          (JObj [(''task_id'', JStr tid), (''failure_reason'', JStr failure_reason)]) d1 of
          Inl e \<Rightarrow> (Inl e, d1)
        | Inr d2 \<Rightarrow> (Inr (), d2))"

definition retries_payload :: "string \<Rightarrow> 32 word \<Rightarrow> 32 word \<Rightarrow> json" where
  "retries_payload tid retries max_retries =
    JObj [(''task_id'', JStr tid), (''retries'', JInt (uint retries)),
          (''max_retries'', JInt (uint max_retries))]"

definition check_limit_reason :: "32 word \<Rightarrow> string \<Rightarrow> string" where
  "check_limit_reason max_retries failure_reason =
    ''Check failed '' @ show_u32 max_retries @ '' consecutive times. Last failure:\<newline>'' @ failure_reason"

definition task_check_failed_in_transaction ::
  "string \<Rightarrow> string \<Rightarrow> 32 word \<Rightarrow> db \<Rightarrow> (TaskCheckFailure \<times> db) res" where
  "task_check_failed_in_transaction tid failure_reason max_retries d =
    (let retries = task_check_retries tid d + 1 in
     if max_retries \<le> retries
     then
       let limit_failure_reason = check_limit_reason max_retries failure_reason;
           d1 = update_task tid (\<lambda>t. clear_lease_row (t \<lparr> t_status := as_str Failed,
                  t_check_retries := uint retries, t_failure_reason := Some limit_failure_reason \<rparr>)) d
       in res_bind (insert_event_in_transaction None ''task_check_limit_exceeded''
            (retries_payload tid retries max_retries) d1)
            (\<lambda>d2. Inr (CheckLimitExceeded retries, d2))
     else
       let d1 = update_task tid (\<lambda>t. t \<lparr> t_check_retries := uint retries,
                  t_failure_reason := Some failure_reason \<rparr>) d
       in res_bind (insert_event_in_transaction None ''task_check_failed''
            (retries_payload tid retries max_retries) d1)
            (\<lambda>d2. Inr (CheckFailed retries, d2)))"

definition record_task_check_failed ::
  "string \<Rightarrow> string \<Rightarrow> 32 word \<Rightarrow> db \<Rightarrow> TaskCheckFailure res \<times> db" where
  "record_task_check_failed tid failure_reason max_retries d =
    run_tx (task_check_failed_in_transaction tid failure_reason max_retries) d"


section \<open>Review rejection\<close>

definition cycles_payload :: "string \<Rightarrow> 32 word \<Rightarrow> 32 word \<Rightarrow> json" where
  "cycles_payload tid cycles max_cycles =
    JObj [(''task_id'', JStr tid), (''review_cycles'', JInt (uint cycles)),
          (''max_review_cycles'', JInt (uint max_cycles))]"

definition rejection_limit_reason :: "32 word \<Rightarrow> string" where
  "rejection_limit_reason max_cycles =
    ''Task rejected '' @ show_u32 max_cycles @ '' times without resolution.''"

definition record_task_review_rejected_in_transaction ::
  "string \<Rightarrow> 32 word \<Rightarrow> db \<Rightarrow> (TaskReviewRejection \<times> db) res" where
  "record_task_review_rejected_in_transaction tid max_cycles d =
    (let cycles = task_review_cycles tid d + 1 in
     if max_cycles \<le> cycles
     then
       let d1 = update_task tid (\<lambda>t. clear_lease_row (t \<lparr> t_status := as_str Failed,
                  t_review_cycles := uint cycles,
                  t_failure_reason := Some (rejection_limit_reason max_cycles) \<rparr>)) d
       in res_bind (insert_event_in_transaction None ''task_review_limit_exceeded''
            (cycles_payload tid cycles max_cycles) d1)
            (\<lambda>d2. Inr (RejectionLimitExceeded cycles, d2))
     else
       let d1 = update_task tid (\<lambda>t. clear_lease_row (t \<lparr> t_status := as_str Addressing,
                  t_review_cycles := uint cycles, t_check_retries := 0, t_executor_dispatches := 0,
                  t_failure_reason := None, t_view := unfreeze_cols (t_view t) \<rparr>)) d
       in res_bind (insert_event_in_transaction None ''task_rejected''
            (cycles_payload tid cycles max_cycles) d1)
            (\<lambda>d2. Inr (RejectedAddressing cycles, d2)))"

definition record_task_review_rejected ::
  "string \<Rightarrow> 32 word \<Rightarrow> db \<Rightarrow> TaskReviewRejection res \<times> db" where
  "record_task_review_rejected tid max_cycles d =
    run_tx (record_task_review_rejected_in_transaction tid max_cycles) d"


section \<open>Dispatch budget\<close>

definition dispatch_limit_reason :: "32 word \<Rightarrow> string" where
  "dispatch_limit_reason max_dispatches =
    ''Executor was dispatched '' @ show_u32 max_dispatches @
    '' times in one work phase without reaching review.''"

definition enforce_executor_dispatch_limit ::
  "string \<Rightarrow> 32 word \<Rightarrow> db \<Rightarrow> (ExecutorDispatchOutcome \<times> db) res" where
  "enforce_executor_dispatch_limit tid max_dispatches d =
    (let dispatches = task_executor_dispatches tid d in
     if max_dispatches \<noteq> 0 \<and> max_dispatches \<le> dispatches
     then
       let d1 = update_task tid (\<lambda>t. clear_lease_row (t \<lparr> t_status := as_str Failed,
                  t_failure_reason := Some (dispatch_limit_reason max_dispatches) \<rparr>)) d
       in res_bind (insert_event_in_transaction None ''task_executor_dispatch_limit_exceeded''
            (JObj [(''task_id'', JStr tid), (''executor_dispatches'', JInt (uint dispatches)),
                   (''max_executor_dispatches'', JInt (uint max_dispatches))]) d1)
            (\<lambda>d2. Inr (DispatchLimitExceeded dispatches, d2))
     else Inr (Proceed, d))"

definition record_executor_dispatch :: "string \<Rightarrow> db \<Rightarrow> (32 word \<times> db) res" where
  "record_executor_dispatch tid d =
    (let dispatches = task_executor_dispatches tid d + 1;
         d1 = update_task tid (\<lambda>t. t \<lparr> t_executor_dispatches := uint dispatches \<rparr>) d
     in res_bind (insert_event_in_transaction None ''task_executor_dispatched''
          (JObj [(''task_id'', JStr tid), (''executor_dispatches'', JInt (uint dispatches))]) d1)
          (\<lambda>d2. Inr (dispatches, d2)))"


section \<open>Consultation pauses\<close>

definition task_consultation_in_transaction :: "string \<Rightarrow> TaskStatus \<Rightarrow> db \<Rightarrow> db res" where
  "task_consultation_in_transaction tid paused_status d =
    insert_event None ''task_consultation_requested''
      (JObj [(''task_id'', JStr tid), (''paused_status'', JStr (as_str paused_status))])
      (update_task tid (\<lambda>t. t \<lparr> t_status := as_str Consultation,
         t_paused_status := Some (as_str paused_status) \<rparr>) d)"

definition task_restore_consultation_in_transaction ::
  "string \<Rightarrow> db \<Rightarrow> (TaskConsultRestore \<times> db) res" where
  "task_restore_consultation_in_transaction tid d =
    (case find_task tid d of
       None \<Rightarrow> Inr (NotInConsultation, d)
     | Some t \<Rightarrow>
         if t_status t \<noteq> as_str Consultation then Inr (NotInConsultation, d)
         else
           let resumed_status = (case t_paused_status t of Some s \<Rightarrow> s | None \<Rightarrow> as_str Executing);
               d1 = update_task tid (\<lambda>t. t \<lparr> t_status := resumed_status, t_paused_status := None \<rparr>) d
           in res_bind (insert_event_in_transaction None ''task_consultation_resolved''
                (JObj [(''task_id'', JStr tid), (''resumed_status'', JStr resumed_status)]) d1)
                (\<lambda>d2. Inr (ConsultRestored resumed_status, d2)))"


section \<open>Human questions\<close>

definition task_human_question_in_transaction ::
  "string \<Rightarrow> TaskStatus \<Rightarrow> TaskStatus option \<Rightarrow> string \<Rightarrow> db \<Rightarrow> db res" where
  "task_human_question_in_transaction tid resume_status paused_status awaiting_human_by d =
    (let paused = map_option as_str paused_status;
         d1 = update_task tid (\<lambda>t. t \<lparr> t_status := as_str AwaitingHuman, t_paused_status := paused,
                t_awaiting_human_by := Some awaiting_human_by,
                t_awaiting_human_status := Some (as_str resume_status),
                t_human_answer_recorded := False \<rparr>) d
     in res_bind (insert_event_in_transaction None ''task_human_question_requested''
          (JObj [(''task_id'', JStr tid), (''paused_status'', jopt paused),
                 (''resume_status'', JStr (as_str resume_status)),
                 (''awaiting_human_by'', JStr awaiting_human_by)]) d1)
        (\<lambda>d2. let question_order = event_seq d2 in
           Inr (update_task tid (\<lambda>t. t \<lparr> t_human_question_order := Some question_order \<rparr>) d2)))"

definition record_task_human_answer_tx :: "string \<Rightarrow> db \<Rightarrow> (unit \<times> db) res" where
  "record_task_human_answer_tx tid d =
    (let waiting = (\<lambda>t. t_id t = tid \<and> t_status t = as_str AwaitingHuman) in
     if count_by waiting (tasks d) = 0
     then Inl (Bail (''Task '' @ tid @ '' is not waiting for a human answer.''))
     else res_bind (insert_event_in_transaction None ''task_human_answer_recorded''
            (JObj [(''task_id'', JStr tid)])
            (update_tasks waiting (\<lambda>t. t \<lparr> t_human_answer_recorded := True \<rparr>) d))
          (\<lambda>d1. Inr ((), d1)))"

definition record_task_human_answer :: "string \<Rightarrow> db \<Rightarrow> unit res \<times> db" where
  "record_task_human_answer tid d = run_tx (record_task_human_answer_tx tid) d"

definition clear_task_human_answer_recorded :: "string \<Rightarrow> db \<Rightarrow> db" where
  "clear_task_human_answer_recorded tid d =
    update_tasks (\<lambda>t. t_id t = tid \<and> t_status t = as_str AwaitingHuman)
      (\<lambda>t. t \<lparr> t_human_answer_recorded := False \<rparr>) d"

text \<open>\<open>write_answer\<close> is the outcome of writing the answer file; a failed write takes the mark back.\<close>

definition record_scoped_human_answer :: "string \<Rightarrow> unit res \<Rightarrow> db \<Rightarrow> unit res \<times> db" where
  "record_scoped_human_answer tid write_answer d =
    (case record_task_human_answer tid d of
       (Inl e, d1) \<Rightarrow> (Inl e, d1)
     | (Inr _, d1) \<Rightarrow>
         (case write_answer of
            Inl e \<Rightarrow> (Inl e, clear_task_human_answer_recorded tid d1)
          | Inr _ \<Rightarrow> (Inr (), d1)))"

definition task_human_question_owner :: "string \<Rightarrow> db \<Rightarrow> string option" where
  "task_human_question_owner tid d =
    (case find_task tid d of None \<Rightarrow> None | Some t \<Rightarrow> t_awaiting_human_by t)"

definition task_awaiting_human_status :: "string \<Rightarrow> db \<Rightarrow> string option" where
  "task_awaiting_human_status tid d =
    (case find_task tid d of None \<Rightarrow> None | Some t \<Rightarrow> t_awaiting_human_status t)"

definition human_resume_status :: "task_row \<Rightarrow> string" where
  "human_resume_status t =
    (case t_awaiting_human_status t of
       Some s \<Rightarrow> s
     | None \<Rightarrow> (case t_paused_status t of Some s \<Rightarrow> s | None \<Rightarrow> as_str Executing))"

definition task_restore_human_in_transaction ::
  "string \<Rightarrow> db \<Rightarrow> (TaskHumanAnswerRestore \<times> db) res" where
  "task_restore_human_in_transaction tid d =
    (case find_task tid d of
       None \<Rightarrow> Inr (NotAwaitingHuman, d)
     | Some t \<Rightarrow>
         if t_status t \<noteq> as_str AwaitingHuman then Inr (NotAwaitingHuman, d)
         else
           let resumed_status = human_resume_status t;
               restored_paused_status =
                 (if resumed_status = as_str Consultation then t_paused_status t else None);
               d1 = update_task tid (\<lambda>t. t \<lparr> t_status := resumed_status,
                      t_paused_status := restored_paused_status, t_awaiting_human_by := None,
                      t_awaiting_human_status := None, t_human_question_order := None,
                      t_human_answer_recorded := False \<rparr>) d
           in res_bind (insert_event_in_transaction None ''task_human_answered''
                (JObj [(''task_id'', JStr tid), (''resumed_status'', JStr resumed_status)]) d1)
                (\<lambda>d2. Inr (HumanRestored resumed_status, d2)))"


section \<open>Sequences of operations\<close>

text \<open>Failed check gates with the given reasons, one after the other.\<close>

fun fail_checks :: "string \<Rightarrow> 32 word \<Rightarrow> string list \<Rightarrow> db \<Rightarrow> db" where
  "fail_checks tid max_retries [] d = d"
| "fail_checks tid max_retries (r # rs) d =
    fail_checks tid max_retries rs (snd (record_task_check_failed tid r max_retries d))"

text \<open>One scheduling round of HQ for a task: the guard, and the account once the session has started.
  The result tells whether the session was dispatched.\<close>

definition dispatch_round :: "string \<Rightarrow> 32 word \<Rightarrow> db \<Rightarrow> bool \<times> db" where
  "dispatch_round tid max_dispatches d =
    (case enforce_executor_dispatch_limit tid max_dispatches d of
       Inl e \<Rightarrow> (False, d)
     | Inr (DispatchLimitExceeded n, d1) \<Rightarrow> (False, d1)
     | Inr (Proceed, d1) \<Rightarrow>
         (case record_executor_dispatch tid d1 of
            Inl e \<Rightarrow> (False, d1)
          | Inr (n, d2) \<Rightarrow> (True, d2)))"

fun dispatch_rounds :: "string \<Rightarrow> 32 word \<Rightarrow> nat \<Rightarrow> db \<Rightarrow> db" where
  "dispatch_rounds tid max_dispatches 0 d = d"
| "dispatch_rounds tid max_dispatches (Suc n) d =
    dispatch_rounds tid max_dispatches n (snd (dispatch_round tid max_dispatches d))"


section \<open>Sample databases\<close>

text \<open>The leased task of the sample databases with its executor run, and the same task waiting for a
  human answer.\<close>

definition sample_run :: run_row where
  "sample_run = \<lparr> r_id = ''r-1'', r_task_id = ''t-001'', r_role = ''executor'', r_agent = ''a'',
    r_status = ''running'', r_started_at = ''s1'', r_updated_at = ''s1'', r_pid = Some 7,
    r_workspace_path = ''/w'', r_view = default_view_cols \<rparr>"

definition working_db :: db where
  "working_db = leased_db \<lparr> runs := [sample_run] \<rparr>"

definition waiting_task :: task_row where
  "waiting_task = leased_task \<lparr> t_status := as_str AwaitingHuman, t_awaiting_human_by := Some ''a'',
     t_awaiting_human_status := Some (as_str Executing), t_human_question_order := Some 1 \<rparr>"

definition waiting_db :: db where
  "waiting_db = empty_db \<lparr> tasks := [waiting_task] \<rparr>"

definition frozen_sample :: RepositoryViewReference where
  "frozen_sample = \<lparr> view_baseline_snapshot_id = Some ''snapshot:1'', view_overlay_revision_id = None,
     view_view_snapshot_id = Some ''snapshot:2'',
     view_frozen_source_tree = Some \<lparr> digest_algorithm = ''sha1'', digest_value = ''ab12'' \<rparr>,
     view_lifecycle = FrozenSubmitted, view_status = Available \<rparr>"


section \<open>Preservation of the invariant\<close>

lemma task_ok_status: "task_ok t \<Longrightarrow> task_ok (t \<lparr> t_status := as_str s \<rparr>)"
  by (simp add: task_ok_def)

lemma db_inv_record_status:
  "record_task_status_on_connection tid path status sp m d = Inr d' \<Longrightarrow> db_inv d \<Longrightarrow> db_inv d'"
  by (auto simp: record_task_status_on_connection_def Let_def intro!: inv_intros split: if_splits)

lemma db_inv_update_view:
  assumes "update_repository_view_in_transaction owner k v d = Inr d'"
    and "db_inv d" "validate_view v = Inr ()" "view_ids_ok v"
  shows "db_inv d'"
proof -
  note ok = view_cols_ok_view_columns [OF assms(3,4)]
  have fk: "find_run k d = Some r \<Longrightarrow> r_task_id r \<in> t_id ` set (tasks d)" for r
    using assms(2) find_run_in by (fastforce simp: db_inv_def keys_ok_def)
  show ?thesis
    using assms(1,2) ok fk
    by (auto simp: update_repository_view_in_transaction_def task_ok_def run_ok_def
        intro!: inv_intros split: owner_table.splits if_splits)
qed

lemma require_frozen_Some:
  "require_frozen (Some v) = Inr u \<longleftrightarrow> validate_view v = Inr () \<and> view_lifecycle v = FrozenSubmitted"
  by (auto simp: require_frozen_def res_bind_Inr_iff)

lemma db_inv_submission_view:
  assumes "submission_view tid run_id fv ff d = Inr d'" "db_inv d" "require_frozen fv = Inr u"
    and "\<And>v. fv = Some v \<Longrightarrow> view_ids_ok v"
  shows "db_inv d'"
proof (cases fv)
  case None
  then show ?thesis using assms by (auto simp: submission_view_def split: if_splits intro: db_inv_insert_event)
next
  case (Some v)
  then have v: "validate_view v = Inr ()" "view_ids_ok v"
    using assms by (auto simp: require_frozen_Some)
  show ?thesis
    using assms(1,2) Some
    by (auto simp: submission_view_def res_bind_Inr_iff split: option.splits
        dest!: db_inv_insert_event(1) dest: db_inv_update_view [OF _ _ v])
qed

lemma db_inv_submitted:
  assumes "task_submitted_in_transaction tid path run_id fv ff checks d = Inr d'" "db_inv d"
    and "\<And>v. fv = Some v \<Longrightarrow> view_ids_ok v"
  shows "db_inv d'"
proof -
  have 1: "db_inv (clear_task_lease tid (upsert_task tid path Reviewing None None d))"
    using assms(2) by (intro inv_intros)
  show ?thesis
    using assms(1) db_inv_submission_view [OF _ 1 _ assms(3)]
    by (auto simp: task_submitted_in_transaction_def res_bind_Inr_iff Let_def
        dest!: db_inv_insert_event(1))
qed

lemma db_inv_check_passed:
  "task_check_passed_in_transaction tid d = Inr d' \<Longrightarrow> db_inv d \<Longrightarrow> db_inv d'"
  by (auto simp: task_check_passed_in_transaction_def task_ok_def
      intro!: inv_intros)

lemma db_inv_integration_failed:
  assumes "db_inv d"
  shows "db_inv (snd (record_task_integration_failed tid run_id reason d))"
proof -
  have "db_inv (update_task tid (\<lambda>t. t \<lparr> t_failure_reason := Some reason \<rparr>) d)"
    using assms by (intro inv_intros) (auto simp: task_ok_def)
  then show ?thesis
    by (auto simp: record_task_integration_failed_def Let_def split: sum.split dest: db_inv_insert_event(2))
qed

lemma db_inv_check_failed:
  "task_check_failed_in_transaction tid reason m d = Inr (r, d') \<Longrightarrow> db_inv d \<Longrightarrow> db_inv d'"
  by (auto simp: task_check_failed_in_transaction_def Let_def task_ok_def
      intro!: inv_intros split: if_splits)

lemma db_inv_rejected:
  "record_task_review_rejected_in_transaction tid m d = Inr (r, d') \<Longrightarrow> db_inv d \<Longrightarrow> db_inv d'"
  by (auto simp: record_task_review_rejected_in_transaction_def Let_def task_ok_def
      intro!: inv_intros split: if_splits)

lemma db_inv_dispatch_limit:
  "enforce_executor_dispatch_limit tid m d = Inr (r, d') \<Longrightarrow> db_inv d \<Longrightarrow> db_inv d'"
  by (auto simp: enforce_executor_dispatch_limit_def Let_def task_ok_def
      intro!: inv_intros split: if_splits)

lemma db_inv_dispatch:
  "record_executor_dispatch tid d = Inr (r, d') \<Longrightarrow> db_inv d \<Longrightarrow> db_inv d'"
  by (auto simp: record_executor_dispatch_def Let_def task_ok_def intro!: inv_intros)

lemma db_inv_consultation:
  "task_consultation_in_transaction tid s d = Inr d' \<Longrightarrow> db_inv d \<Longrightarrow> db_inv d'"
  by (auto simp: task_consultation_in_transaction_def task_ok_def opt_status_text_def
      intro!: inv_intros)

lemma db_inv_restore_consultation:
  "task_restore_consultation_in_transaction tid d = Inr (r, d') \<Longrightarrow> db_inv d \<Longrightarrow> db_inv d'"
  by (auto simp: task_restore_consultation_in_transaction_def Let_def task_ok_def
      opt_status_text_def intro!: inv_intros split: option.splits if_splits)

lemma db_inv_question:
  "task_human_question_in_transaction tid s p a d = Inr d' \<Longrightarrow> db_inv d \<Longrightarrow> db_inv d'"
  by (auto simp: task_human_question_in_transaction_def Let_def task_ok_def
      opt_status_text_def intro!: inv_intros split: option.splits)

lemma db_inv_answer: "record_task_human_answer_tx tid d = Inr (u, d') \<Longrightarrow> db_inv d \<Longrightarrow> db_inv d'"
  by (auto simp: record_task_human_answer_tx_def Let_def task_ok_def
      intro!: inv_intros split: if_splits)

lemma db_inv_clear_answer [inv_intros]: "db_inv d \<Longrightarrow> db_inv (clear_task_human_answer_recorded tid d)"
  by (auto simp: clear_task_human_answer_recorded_def task_ok_def intro!: inv_intros)

lemma db_inv_restore_human:
  "task_restore_human_in_transaction tid d = Inr (r, d') \<Longrightarrow> db_inv d \<Longrightarrow> db_inv d'"
  by (auto simp: task_restore_human_in_transaction_def human_resume_status_def Let_def task_ok_def
      opt_status_text_def intro!: inv_intros split: option.splits if_splits)


section \<open>Effects on the task row\<close>

lemma unat_of_nat_le: "n \<le> unat (m :: 32 word) \<Longrightarrow> unat (of_nat n :: 32 word) = n"
proof -
  assume "n \<le> unat m"
  moreover have "unat m < 2 ^ LENGTH(32)" by (rule unsigned_less)
  ultimately show ?thesis by (simp add: unat_of_nat)
qed

text \<open>A counter that has not reached its limit is bumped by one.\<close>

lemma bump_counter:
  assumes "n < unat (m :: 32 word)"
  shows "as_u32 (int n) + 1 = of_nat (Suc n)"
    and "uint (of_nat (Suc n) :: 32 word) = int (Suc n)"
    and "m \<le> of_nat (Suc n) \<longleftrightarrow> unat m = Suc n"
proof -
  have u: "unat (of_nat (Suc n) :: 32 word) = Suc n" using assms by (intro unat_of_nat_le [of _ m]) simp
  show "as_u32 (int n) + 1 = of_nat (Suc n)" by (simp add: as_u32_def)
  show "uint (of_nat (Suc n) :: 32 word) = int (Suc n)" using u by (metis uint_nat)
  show "m \<le> of_nat (Suc n) \<longleftrightarrow> unat m = Suc n" using assms u
    unfolding word_le_nat_alt by linarith
qed

lemma check_failed_row:
  assumes t: "find_task tid d = Some t" "t_check_retries t = int n" and n: "n < unat m"
    and res: "record_task_check_failed tid reason m d = (r, d')"
  shows "(Suc n < unat m \<longrightarrow> r = Inr (CheckFailed (of_nat (Suc n))) \<and>
      find_task tid d' = Some (t \<lparr> t_check_retries := int (Suc n), t_failure_reason := Some reason \<rparr>)) \<and>
    (Suc n = unat m \<longrightarrow> r = Inr (CheckLimitExceeded m) \<and>
      (\<exists>u. find_task tid d' = Some u \<and> t_status u = as_str Failed \<and> t_claimed_by u = None \<and>
           t_lease_until u = None)) \<and>
    (\<forall>k. k \<noteq> tid \<longrightarrow> find_task k d' = find_task k d)"
proof (cases "Suc n < unat m")
  case True
  then show ?thesis
    using t bump_counter [OF n] res
    by (auto simp: record_task_check_failed_def run_tx_def task_check_failed_in_transaction_def
        task_check_retries_def Let_def row_simps simp del: of_nat_Suc)
next
  case False
  then have "Suc n = unat m" using n by simp
  then have m: "of_nat (Suc n) = m" by (simp del: of_nat_Suc)
  show ?thesis
    using t bump_counter [OF n] res \<open>Suc n = unat m\<close> unfolding m
    by (auto simp: record_task_check_failed_def run_tx_def task_check_failed_in_transaction_def
        task_check_retries_def Let_def row_simps)
qed

lemma fail_checks_row:
  assumes "find_task tid d = Some t" "t_check_retries t = int n" "n + length rs < unat m"
  shows "\<exists>u. find_task tid (fail_checks tid m rs d) = Some u \<and> t_status u = t_status t \<and>
    t_claimed_by u = t_claimed_by t \<and> t_lease_until u = t_lease_until t \<and>
    t_check_retries u = int (n + length rs)"
  using assms
proof (induction rs arbitrary: d t n)
  case (Cons r rs)
  let ?step = "record_task_check_failed tid r m d"
  have "n < unat m" "Suc n < unat m" using Cons.prems by auto
  then have step: "find_task tid (snd ?step) =
      Some (t \<lparr> t_check_retries := int (Suc n), t_failure_reason := Some r \<rparr>)"
    using check_failed_row [OF Cons.prems(1,2), of m r "fst ?step" "snd ?step"] by simp
  show ?case using Cons.IH [OF step, of "Suc n"] Cons.prems by simp
qed simp



text \<open>Rejections.\<close>

lemma rejected_row:
  assumes t: "find_task tid d = Some t" "t_review_cycles t = int n" and n: "n < unat m"
    and res: "record_task_review_rejected tid m d = (r, d')"
  shows "(Suc n < unat m \<longrightarrow> r = Inr (RejectedAddressing (of_nat (Suc n))) \<and>
      find_task tid d' = Some (clear_lease_row (t \<lparr> t_status := as_str Addressing,
        t_review_cycles := int (Suc n), t_check_retries := 0, t_executor_dispatches := 0,
        t_failure_reason := None, t_view := unfreeze_cols (t_view t) \<rparr>))) \<and>
    (Suc n = unat m \<longrightarrow> r = Inr (RejectionLimitExceeded m) \<and>
      (\<exists>u. find_task tid d' = Some u \<and> t_status u = as_str Failed \<and> t_claimed_by u = None \<and>
           t_review_cycles u = int (Suc n) \<and> t_view u = t_view t)) \<and>
    (\<forall>k. k \<noteq> tid \<longrightarrow> find_task k d' = find_task k d)"
proof (cases "Suc n < unat m")
  case True
  then show ?thesis
    using t bump_counter [OF n] res
    by (auto simp: record_task_review_rejected_def run_tx_def
        record_task_review_rejected_in_transaction_def task_review_cycles_def Let_def row_simps simp del: of_nat_Suc)
next
  case False
  then have "Suc n = unat m" using n by simp
  then have m: "of_nat (Suc n) = m" by (simp del: of_nat_Suc)
  show ?thesis
    using t bump_counter [OF n] res \<open>Suc n = unat m\<close> unfolding m
    by (auto simp: record_task_review_rejected_def run_tx_def
        record_task_review_rejected_in_transaction_def task_review_cycles_def Let_def row_simps)
qed

text \<open>C10: a review rejection starts a fresh work phase, or ends the task at the cycle limit. Below the
  limit the task moves to \<open>addressing\<close> with its check and dispatch counters reset, its failure reason
  and lease cleared and its frozen view turned into the mutable successor; at the limit it
  fails and keeps the view it was submitted with. No other task changes.\<close>

theorem rejection_starts_fresh_phase:
  assumes "db_inv d" "find_task tid d = Some t" "t_review_cycles t = int n" "n < unat max_cycles"
    and "repository_view_reference_from_database (t_view t) = Inr v"
    and "record_task_review_rejected tid max_cycles d = (r, d')"
  shows "\<exists>u. find_task tid d' = Some u \<and> t_review_cycles u = int (Suc n) \<and> t_claimed_by u = None \<and>
    (\<forall>k. k \<noteq> tid \<longrightarrow> find_task k d' = find_task k d) \<and>
    (if Suc n < unat max_cycles
     then r = Inr (RejectedAddressing (of_nat (Suc n))) \<and> t_status u = as_str Addressing \<and>
       t_check_retries u = 0 \<and> t_executor_dispatches u = 0 \<and> t_failure_reason u = None \<and>
       repository_view_reference_from_database (t_view u) = Inr (mutable_successor v)
     else r = Inr (RejectionLimitExceeded max_cycles) \<and> t_status u = as_str Failed \<and>
       t_view u = t_view t)"
proof -
  note v = view_decodeD [OF assms(5)]
  have "view_ids_ok (mutable_successor v)"
    using v by (simp add: view_ids_ok_def mutable_successor_def)
  then have "repository_view_reference_from_database (unfreeze_cols (t_view t)) = Inr (mutable_successor v)"
    using v view_round_trip [OF validate_mutable_successor] unfreeze_cols_view by metis
  moreover have "uint max_cycles = 1 + int n" if "\<not> Suc n < unat max_cycles"
    using that assms(4) uint_nat [of max_cycles] by linarith
  ultimately show ?thesis
    using rejected_row [OF assms(2-4,6)] assms(4) by (auto simp: not_less)
qed

theorem rejection_starts_fresh_phase_witness:
  "\<exists>u. find_task ''t-001'' (snd (record_task_review_rejected ''t-001'' 3 leased_db)) = Some u \<and>
     t_review_cycles u = 1"
proof -
  have 1: "db_inv leased_db" "find_task ''t-001'' leased_db = Some leased_task"
    "t_review_cycles leased_task = int 0" "0 < unat (3 :: 32 word)"
    "repository_view_reference_from_database (t_view leased_task) = Inr default_view"
    by code_simp+
  show ?thesis
    using rejection_starts_fresh_phase [OF 1, of "fst (record_task_review_rejected ''t-001'' 3 leased_db)"
        "snd (record_task_review_rejected ''t-001'' 3 leased_db)"] by auto
qed

text \<open>Dispatches.\<close>

lemma dispatch_round_row:
  assumes t: "find_task tid d = Some t" "t_executor_dispatches t = int n"
    and m: "max_dispatches \<noteq> 0" "n \<le> unat max_dispatches"
    and res: "dispatch_round tid max_dispatches d = (go, d')"
  shows "(go \<longleftrightarrow> n < unat max_dispatches) \<and>
    (n < unat max_dispatches \<longrightarrow> find_task tid d' = Some (t \<lparr> t_executor_dispatches := int (Suc n) \<rparr>)) \<and>
    (n = unat max_dispatches \<longrightarrow> (\<exists>u. find_task tid d' = Some u \<and> t_status u = as_str Failed \<and>
      t_claimed_by u = None \<and> t_failure_reason u = Some (dispatch_limit_reason max_dispatches)))"
proof (cases "n < unat max_dispatches")
  case True
  have "unat (of_nat n :: 32 word) = n" using m by (intro unat_of_nat_le [of _ max_dispatches])
  then have "\<not> max_dispatches \<le> of_nat n" using True unfolding word_le_nat_alt by linarith
  then show ?thesis
    using t res True bump_counter [OF True]
    by (auto simp: dispatch_round_def enforce_executor_dispatch_limit_def record_executor_dispatch_def
        task_executor_dispatches_def as_u32_def Let_def row_simps simp del: of_nat_Suc)
next
  case False
  then have n: "n = unat max_dispatches" using m by simp
  then have "as_u32 (int n) = max_dispatches" by (simp add: as_u32_def)
  then show ?thesis
    using t res m n
    by (auto simp: dispatch_round_def enforce_executor_dispatch_limit_def
        task_executor_dispatches_def Let_def row_simps)
qed

lemma dispatch_rounds_row:
  assumes "find_task tid d = Some t" "t_executor_dispatches t = int k" "max_dispatches \<noteq> 0"
    and "k + n \<le> unat max_dispatches"
  shows "find_task tid (dispatch_rounds tid max_dispatches n d) =
    Some (t \<lparr> t_executor_dispatches := int (k + n) \<rparr>)"
  using assms
proof (induction n arbitrary: d t k)
  case 0
  then show ?case by simp
next
  case (Suc n)
  have "find_task tid (snd (dispatch_round tid max_dispatches d)) =
      Some (t \<lparr> t_executor_dispatches := int (Suc k) \<rparr>)"
    using Suc.prems dispatch_round_row [OF Suc.prems(1-3), of "fst (dispatch_round tid max_dispatches d)"
        "snd (dispatch_round tid max_dispatches d)"] by simp
  from Suc.IH [OF this, of "Suc k"] show ?case using Suc.prems by simp
qed



text \<open>Submission.\<close>

lemma record_task_submitted_eq:
  "record_task_submitted tid path run_id fv ff checks d =
    (case task_submitted_in_transaction tid path run_id fv ff checks d of
       Inl e \<Rightarrow> (Inl e, d) | Inr d' \<Rightarrow> (Inr (), d'))"
  by (cases "require_frozen fv"; cases "task_submitted_in_transaction tid path run_id fv ff checks d")
     (auto simp: record_task_submitted_def run_tx_def task_submitted_in_transaction_def)

lemma upsert_task_find:
  "find_task k (upsert_task tid path status sp m d) =
    (if k = tid then Some (case find_task tid d of
        None \<Rightarrow> new_task_row tid path (as_str status) sp m
      | Some t \<Rightarrow> t \<lparr> t_path := path, t_status := as_str status,
         t_spec_path := (case sp of None \<Rightarrow> t_spec_path t | Some s \<Rightarrow> Some s),
         t_milestone_id := (case m of None \<Rightarrow> t_milestone_id t | Some x \<Rightarrow> Some x) \<rparr>)
     else find_task k d)"
  by (auto simp: upsert_task_def row_simps split: option.split)

lemma upsert_task_runs [simp]: "find_run k (upsert_task tid path status sp m d) = find_run k d"
  by (simp add: upsert_task_def split: option.split)

lemma insert_event_ok_iff:
  "is_ok (insert_event_in_transaction run_id ty p d) \<longleftrightarrow>
    (case run_id of None \<Rightarrow> True | Some rid \<Rightarrow> find_run rid d \<noteq> None)"
  by (auto simp: insert_event_in_transaction_def split: option.splits)

lemma insert_event_frame:
  assumes "insert_event_in_transaction run_id ty p d = Inr d'"
  shows "find_task k d' = find_task k d" "find_run k d' = find_run k d"
    "tasks d' = tasks d" "runs d' = runs d"
  using assms by (auto simp: insert_event_in_transaction_def split: option.splits if_splits)

definition run_known :: "string option \<Rightarrow> db \<Rightarrow> bool" where
  "run_known run_id d = (case run_id of None \<Rightarrow> True | Some rid \<Rightarrow> find_run rid d \<noteq> None)"

lemma submission_view_row:
  assumes "submission_view tid run_id fv ff d = Inr d'"
  shows "find_task k d' = (if k = tid then map_option (\<lambda>t. case fv of None \<Rightarrow> t
        | Some v \<Rightarrow> t \<lparr> t_view := view_columns v \<rparr>) (find_task k d) else find_task k d)"
    and "find_run k d' = map_option (\<lambda>r. if fv \<noteq> None \<and> run_id = Some k
        then r \<lparr> r_view := view_columns (the fv) \<rparr> else r) (find_run k d)"
    and "run_known run_id d' = run_known run_id d"
  using assms
  by (auto simp: submission_view_def update_repository_view_in_transaction_def res_bind_Inr_iff
      insert_event_in_transaction_def row_simps run_known_def option.map_ident
      split: option.splits if_splits)

lemma submission_view_ok:
  assumes "find_task tid d \<noteq> None" "run_known run_id d"
  shows "\<exists>d'. submission_view tid run_id fv ff d = Inr d'"
  using assms
  by (auto simp: submission_view_def update_repository_view_in_transaction_def run_known_def
      insert_event_in_transaction_def row_simps split: option.splits)

lemma task_submitted_ok_iff:
  "(\<exists>d'. task_submitted_in_transaction tid path run_id fv ff checks d = Inr d') \<longleftrightarrow>
    is_ok (require_frozen fv) \<and> run_known run_id d"
proof -
  let ?d1 = "clear_task_lease tid (upsert_task tid path Reviewing None None d)"
  have d1: "find_task tid ?d1 \<noteq> None" "run_known run_id ?d1 = run_known run_id d"
    by (simp_all add: clear_task_lease_def row_simps upsert_task_find run_known_def split: option.split)
  have event: "is_ok (insert_event_in_transaction run_id ty p x) \<longleftrightarrow> run_known run_id x" for ty p x
    by (simp add: insert_event_ok_iff run_known_def)
  show ?thesis
  proof (cases "is_ok (require_frozen fv) \<and> run_known run_id d")
    case True
    then obtain d2 where d2: "submission_view tid run_id fv ff ?d1 = Inr d2"
      using submission_view_ok d1 by blast
    have "run_known run_id d2" using submission_view_row(3) [OF d2] d1 True by simp
    then show ?thesis
      using True d2 unfolding task_submitted_in_transaction_def Let_def run_known_def
      by (cases run_id) (auto simp: is_ok_iff insert_event_in_transaction_def)
  next
    case False
    then show ?thesis
      using d1(2) submission_view_row(3) [of tid run_id fv ff ?d1] event
      unfolding task_submitted_in_transaction_def Let_def
      by (fastforce simp: res_bind_Inr_iff is_ok_iff)
  qed
qed

lemma task_submitted_row:
  assumes "task_submitted_in_transaction tid path run_id fv ff checks d = Inr d'"
  shows "find_task k d' = (if k = tid then Some (clear_lease_row
      ((case find_task tid d of None \<Rightarrow> new_task_row tid path (as_str Reviewing) None None
        | Some t \<Rightarrow> t \<lparr> t_path := path, t_status := as_str Reviewing \<rparr>)
       \<lparr> t_view := (case fv of Some v \<Rightarrow> view_columns v
           | None \<Rightarrow> (case find_task tid d of None \<Rightarrow> default_view_cols | Some t \<Rightarrow> t_view t)) \<rparr>))
     else find_task k d)"
    and "find_run k d' = map_option (\<lambda>r. if fv \<noteq> None \<and> run_id = Some k
        then r \<lparr> r_view := view_columns (the fv) \<rparr> else r) (find_run k d)"
  using assms
  by (auto simp: task_submitted_in_transaction_def Let_def res_bind_Inr_iff insert_event_frame
      submission_view_row clear_task_lease_def row_simps upsert_task_find clear_lease_row_def
      new_task_row_def split: option.split)


text \<open>A successful submission pins what was submitted. The task is in review without a lease, its view
  columns and those of the submitting run read back as exactly the frozen view, its counters are
  untouched and no other task or run changes.\<close>

theorem submission_pins_frozen_view:
  assumes "record_task_submitted tid path (Some rid) (Some v) ff checks d = (Inr (), d')"
    and "find_task tid d = Some t" "view_ids_ok v"
  shows "\<exists>u run. find_task tid d' = Some u \<and> t_status u = as_str Reviewing \<and> t_claimed_by u = None \<and>
    repository_view_reference_from_database (t_view u) = Inr v \<and>
    t_check_retries u = t_check_retries t \<and> t_review_cycles u = t_review_cycles t \<and>
    find_run rid d' = Some run \<and> repository_view_reference_from_database (r_view run) = Inr v \<and>
    (\<forall>k. k \<noteq> tid \<longrightarrow> find_task k d' = find_task k d) \<and>
    (\<forall>k. k \<noteq> rid \<longrightarrow> find_run k d' = find_run k d)"
proof -
  have sub: "task_submitted_in_transaction tid path (Some rid) (Some v) ff checks d = Inr d'"
    using assms(1) by (auto simp: record_task_submitted_eq split: sum.splits)
  then have ok: "is_ok (require_frozen (Some v))" "find_run rid d \<noteq> None"
    using task_submitted_ok_iff [of tid path "Some rid" "Some v" ff checks d]
    by (auto simp: run_known_def)
  then have rt: "repository_view_reference_from_database (view_columns v) = Inr v"
    using view_round_trip [of v] assms(3) by (auto simp: is_ok_iff require_frozen_Some)
  show ?thesis
    using task_submitted_row [OF sub] assms(2) ok(2) rt by (auto simp: option.map_ident)
qed

theorem submission_pins_frozen_view_witness:
  "\<exists>u. find_task ''t-001'' (snd (record_task_submitted ''t-001'' ''p'' (Some ''r-1'') (Some frozen_sample) False
       \<lparr> checks_passed = True, checks_commands_sha256 = None \<rparr> working_db)) = Some u \<and>
     repository_view_reference_from_database (t_view u) = Inr frozen_sample"
proof -
  let ?submit = "record_task_submitted ''t-001'' ''p'' (Some ''r-1'') (Some frozen_sample) False
       \<lparr> checks_passed = True, checks_commands_sha256 = None \<rparr> working_db"
  have "fst ?submit = Inr ()" and 2: "find_task ''t-001'' working_db = Some leased_task"
    and 3: "view_ids_ok frozen_sample"
    by code_simp+
  then have "?submit = (Inr (), snd ?submit)" by (cases ?submit) simp
  from submission_pins_frozen_view [OF this 2 3] show ?thesis by blast
qed

text \<open>The pauses.\<close>

lemma consult_restore_row:
  assumes "find_task tid d = Some t"
  shows "\<exists>d1 d2. task_consultation_in_transaction tid s d = Inr d1 \<and>
    find_task tid d1 = Some (t \<lparr> t_status := as_str Consultation, t_paused_status := Some (as_str s) \<rparr>) \<and>
    task_restore_consultation_in_transaction tid d1 = Inr (ConsultRestored (as_str s), d2) \<and>
    find_task tid d2 = Some (t \<lparr> t_status := as_str s, t_paused_status := None \<rparr>) \<and>
    (\<forall>k. k \<noteq> tid \<longrightarrow> find_task k d2 = find_task k d)"
  using assms
  by (simp add: task_consultation_in_transaction_def task_restore_consultation_in_transaction_def Let_def
      row_simps)

lemma human_question_row:
  assumes "find_task tid d = Some t"
  shows "\<exists>d1. task_human_question_in_transaction tid s p a d = Inr d1 \<and>
    find_task tid d1 = Some (t \<lparr> t_status := as_str AwaitingHuman, t_paused_status := map_option as_str p,
      t_awaiting_human_by := Some a, t_awaiting_human_status := Some (as_str s),
      t_human_answer_recorded := False, t_human_question_order := Some (event_seq d + 1) \<rparr>) \<and>
    (\<forall>k. k \<noteq> tid \<longrightarrow> find_task k d1 = find_task k d)"
  using assms by (simp add: task_human_question_in_transaction_def Let_def row_simps)

lemma human_restore_row:
  assumes "find_task tid d = Some t" "t_status t = as_str AwaitingHuman"
  shows "\<exists>d1. task_restore_human_in_transaction tid d = Inr (HumanRestored (human_resume_status t), d1) \<and>
    find_task tid d1 = Some (t \<lparr> t_status := human_resume_status t,
      t_paused_status := (if human_resume_status t = as_str Consultation then t_paused_status t else None),
      t_awaiting_human_by := None, t_awaiting_human_status := None, t_human_question_order := None,
      t_human_answer_recorded := False \<rparr>) \<and>
    (\<forall>k. k \<noteq> tid \<longrightarrow> find_task k d1 = find_task k d)"
  using assms by (simp add: task_restore_human_in_transaction_def Let_def row_simps)

text \<open>C13: an answer is recorded only for a task that waits for one, and a failed write of the answer takes
  the mark back. When the write fails, the call reports the write error and every task row is as before;
  for a task that is not waiting nothing changes at all.\<close>

theorem answer_write_failure_rolls_back:
  assumes "db_inv d" "find_task tid d = Some t" "\<not> t_human_answer_recorded t"
  shows "if t_status t = as_str AwaitingHuman
    then fst (record_scoped_human_answer tid (Inl e) d) = Inl e \<and>
         tasks (snd (record_scoped_human_answer tid (Inl e) d)) = tasks d
    else \<not> is_ok (fst (record_scoped_human_answer tid w d)) \<and>
         snd (record_scoped_human_answer tid w d) = d"
proof -
  let ?W = "\<lambda>r. t_id r = tid \<and> t_status r = as_str AwaitingHuman"
  have row: "r = t" if "r \<in> set (tasks d)" "t_id r = tid" for r
  proof -
    have "find_task tid d = Some r"
      using that find_task_iff [OF db_inv_keys [OF assms(1)], of tid r] by blast
    then show ?thesis using assms(2) by simp
  qed
  have in_t: "t \<in> set (tasks d)" "t_id t = tid"
    using assms(2) find_task_in task_table.get_key by auto
  show ?thesis
  proof (cases "t_status t = as_str AwaitingHuman")
    case True
    have "count_by ?W (tasks d) \<noteq> 0" using True in_t by (subst count_by_0) blast
    then have "fst (record_scoped_human_answer tid (Inl e) d) = Inl e \<and>
        tasks (snd (record_scoped_human_answer tid (Inl e) d)) =
        update_by ?W (\<lambda>t. t \<lparr> t_human_answer_recorded := False \<rparr>)
          (update_by ?W (\<lambda>t. t \<lparr> t_human_answer_recorded := True \<rparr>) (tasks d))"
      by (simp add: record_scoped_human_answer_def record_task_human_answer_def run_tx_def
          record_task_human_answer_tx_def clear_task_human_answer_recorded_def Let_def
          update_tasks_def append_event_def del: count_by_0)
    moreover have "update_by ?W (\<lambda>t. t \<lparr> t_human_answer_recorded := False \<rparr>)
        (update_by ?W (\<lambda>t. t \<lparr> t_human_answer_recorded := True \<rparr>) (tasks d)) = tasks d"
      unfolding update_by_def map_map
    proof (rule map_idI)
      fix x assume x: "x \<in> set (tasks d)"
      have "x \<lparr> t_human_answer_recorded := False \<rparr> = x" if "?W x"
        using row [OF x] that assms(3) by (cases x) simp
      then show "((\<lambda>r. if ?W r then r \<lparr> t_human_answer_recorded := False \<rparr> else r) \<circ>
          (\<lambda>r. if ?W r then r \<lparr> t_human_answer_recorded := True \<rparr> else r)) x = x"
        by simp
    qed
    ultimately show ?thesis using True by simp
  next
    case False
    have "count_by ?W (tasks d) = 0" using row False by (subst count_by_0) blast
    then show ?thesis
      using False
      by (simp add: record_scoped_human_answer_def record_task_human_answer_def run_tx_def
          record_task_human_answer_tx_def Let_def del: count_by_0)
  qed
qed

theorem answer_write_failure_rolls_back_witness:
  "fst (record_scoped_human_answer ''t-001'' (Inl (Bail ''disk full'')) waiting_db) = Inl (Bail ''disk full'') \<and>
   tasks (snd (record_scoped_human_answer ''t-001'' (Inl (Bail ''disk full'')) waiting_db)) = tasks waiting_db"
proof -
  have "db_inv waiting_db" "find_task ''t-001'' waiting_db = Some waiting_task"
    "\<not> t_human_answer_recorded waiting_task" and 2: "t_status waiting_task = as_str AwaitingHuman"
    by code_simp+
  from answer_write_failure_rolls_back [OF this(1-3)] 2 show ?thesis by auto
qed

end
