(* ===== verification/Runs.thy ===== *)
theory Runs
  imports Task_Transitions
begin

text \<open>
  Agent runs (\<open>src/src/project/runs.rs\<close>): reservation of an executor session, start, attachment to a
  task or to a consultation, and the end of a run.

  \<open>alive\<close> is the operating system's answer to \<open>process_is_alive\<close> (a function of the \<open>u32\<close> process
  identity), \<open>canonicalize\<close> the file system's resolution of a path; both are parameters. \<open>ts\<close> is the
  text of \<open>timestamp()\<close>.

  The lemmas show that a run always belongs to an existing task and carries a decodable view, that a
  reservation refuses a second live executor, and that attaching never puts two active
  supervisor runs on one consultation.
\<close>

section \<open>Operations\<close>

definition run_status_at :: "string \<Rightarrow> db \<Rightarrow> string option" where
  "run_status_at rid d = map_option r_status (find_run rid d)"

text \<open>A \<open>NULL\<close> or live process identity, read as \<open>Option<u32>\<close>: a value outside the range is an error.\<close>

definition pid_u32 :: "int option \<Rightarrow> 32 word option res" where
  "pid_u32 pid =
    (case pid of
       None \<Rightarrow> Inr None
     | Some p \<Rightarrow> if u32_range p then Inr (Some (as_u32 p)) else Inl (SqlError ''integer out of range''))"

fun any_live :: "(32 word \<Rightarrow> bool) \<Rightarrow> int option list \<Rightarrow> bool res" where
  "any_live alive [] = Inr False"
| "any_live alive (pid # pids) =
    res_bind (pid_u32 pid) (\<lambda>p.
    res_bind (any_live alive pids) (\<lambda>live.
      Inr (live \<or> (case p of None \<Rightarrow> False | Some p \<Rightarrow> alive p))))"

definition executor_runs :: "bool \<Rightarrow> db \<Rightarrow> run_row list" where
  "executor_runs shared_workspace d =
    filter (\<lambda>r. (shared_workspace \<or> r_task_id r = ''current'') \<and> r_role r = ''executor'' \<and>
                active_run_status (r_status r)) (runs d)"

definition occupied_message :: "bool \<Rightarrow> string" where
  "occupied_message shared_workspace =
    (if shared_workspace
     then ''Cannot start an Executor while another Executor uses the shared workspace. Stop that session first.''
     else ''Cannot start a direct Nano session while another taskless Executor uses the canonical workspace. Stop that session first.'')"

definition reserved_run :: "string \<Rightarrow> string \<Rightarrow> string \<Rightarrow> string \<Rightarrow> int \<Rightarrow> string \<Rightarrow> run_row" where
  "reserved_run rid tid agent ts pid workspace =
    \<lparr> r_id = rid, r_task_id = tid, r_role = ''executor'', r_agent = agent, r_status = ''running'',
      r_started_at = ts, r_updated_at = ts, r_pid = Some pid, r_workspace_path = workspace,
      r_view = default_view_cols \<rparr>"

definition reserve_executor_session_at ::
  "(32 word \<Rightarrow> bool) \<Rightarrow> 32 word \<Rightarrow> string \<Rightarrow> string \<Rightarrow> string \<Rightarrow> string \<Rightarrow> string \<Rightarrow> bool \<Rightarrow> db \<Rightarrow>
    (unit \<times> db) res" where
  "reserve_executor_session_at alive hq_pid ts rid agent workspace tid shared_workspace d =
    res_bind (any_live alive (map r_pid (executor_runs shared_workspace d))) (\<lambda>occupied.
    res_bind (ensure (\<not> occupied) (Bail (occupied_message shared_workspace))) (\<lambda>_.
      let d1 = ensure_task_exists tid (default_task_path_for_id tid) d in
      if find_run rid d1 \<noteq> None then Inl (SqlError ''UNIQUE constraint failed: runs.id'')
      else Inr ((), insert_run (reserved_run rid tid agent ts (uint hq_pid) workspace) d1)))"

text \<open>Dropping a reservation that never started.\<close>

definition drop_reservation :: "string \<Rightarrow> string \<Rightarrow> bool \<Rightarrow> db \<Rightarrow> db" where
  "drop_reservation ts rid reserved d =
    (if \<not> reserved then d
     else update_run rid (\<lambda>r. r \<lparr> r_status := ''failed'', r_pid := None, r_updated_at := ts \<rparr>) d)"

definition authorize_taskless_run_at ::
  "(string \<Rightarrow> string res) \<Rightarrow> string \<Rightarrow> string \<Rightarrow> string \<Rightarrow> string \<Rightarrow> db \<Rightarrow> unit res" where
  "authorize_taskless_run_at canonicalize rid agent workspace role d =
    res_bind (ensure (role \<in> {''executor'', ''supervisor''}) (Bail ''Invalid taskless role'')) (\<lambda>_.
      case find_run rid d of
        None \<Rightarrow> Inl (SqlError ''Query returned no rows'')
      | Some r \<Rightarrow>
          let mismatch = Bail ''Interactive run binding mismatch or run is no longer active'' in
          if r_task_id r = ''current'' \<and> r_role r = role \<and> r_agent r = agent \<and>
             r_status r = ''running'' \<and> is_absolute (r_workspace_path r)
          then res_bind (canonicalize (r_workspace_path r)) (\<lambda>p. ensure (p = workspace) mismatch)
          else Inl mismatch)"

definition record_runtime_event :: "string option \<Rightarrow> string \<Rightarrow> json \<Rightarrow> db \<Rightarrow> db res" where
  "record_runtime_event run_id event_type payload d = insert_event run_id event_type payload d"

text \<open>\<open>task_id.map(str::trim).filter(non-empty)\<close>, or the legacy bookkeeping task.\<close>

definition run_task_identity :: "string option \<Rightarrow> string \<times> string" where
  "run_task_identity task_id =
    (case normalized_metadata_value task_id of
       Some tid \<Rightarrow> (tid, default_task_path_for_id tid)
     | None \<Rightarrow> (''current'', ''.ferrus/TASK.md''))"

definition started_run :: "string \<Rightarrow> string \<Rightarrow> string \<Rightarrow> string \<Rightarrow> string \<Rightarrow> 32 word \<Rightarrow> string \<Rightarrow> view_cols \<Rightarrow> run_row" where
  "started_run rid tid role agent ts pid workspace view =
    \<lparr> r_id = rid, r_task_id = tid, r_role = role, r_agent = agent, r_status = ''running'',
      r_started_at = ts, r_updated_at = ts, r_pid = Some (uint pid), r_workspace_path = workspace,
      r_view = view \<rparr>"

text \<open>\<open>INSERT \<dots> SELECT \<dots> FROM tasks WHERE id = ? ON CONFLICT(id) DO UPDATE\<close>: a run that is already
  there keeps its task, role, agent and start time.\<close>

definition upsert_run :: "run_row \<Rightarrow> db \<Rightarrow> db" where
  "upsert_run new d =
    (case find_run (r_id new) d of
       None \<Rightarrow> insert_run new d
     | Some _ \<Rightarrow> update_run (r_id new) (\<lambda>r. r \<lparr> r_status := r_status new, r_updated_at := r_updated_at new,
         r_pid := r_pid new, r_workspace_path := r_workspace_path new, r_view := r_view new \<rparr>) d)"

definition record_run_started_for_task_with_baseline ::
  "string \<Rightarrow> string \<Rightarrow> string \<Rightarrow> string \<Rightarrow> 32 word \<Rightarrow> string option \<Rightarrow> string \<Rightarrow> string option \<Rightarrow> json \<Rightarrow>
    db \<Rightarrow> unit res \<times> db" where
  "record_run_started_for_task_with_baseline ts rid role agent pid task_id workspace baseline_tree
      evaluation d =
    (let (tid, path) = run_task_identity task_id;
         d1 = ensure_task_exists tid path d;
         d2 = (case find_task tid d1 of
                 None \<Rightarrow> d1
               | Some t \<Rightarrow> upsert_run (started_run rid tid role agent ts pid workspace (t_view t)) d1)
     in case insert_event (Some rid) ''run_started''
          (JObj [(''role'', JStr role), (''agent'', JStr agent), (''pid'', JInt (uint pid)),
                 (''baseline_tree'', jopt baseline_tree), (''evaluation'', evaluation)]) d2 of
          Inl e \<Rightarrow> (Inl e, d2)
        | Inr d3 \<Rightarrow> (Inr (), d3))"

text \<open>The \<open>UPDATE runs SET task_id, \<dots> view columns = (SELECT \<dots> FROM tasks)\<close> of all attachments.\<close>

definition attach_row :: "string \<Rightarrow> task_row \<Rightarrow> run_row \<Rightarrow> run_row" where
  "attach_row ts t r = r \<lparr> r_task_id := t_id t, r_updated_at := ts, r_view := t_view t \<rparr>"

text \<open>\<open>ORDER BY started_at DESC, id DESC\<close>.\<close>

definition run_start_le :: "run_row \<Rightarrow> run_row \<Rightarrow> bool" where
  "run_start_le a b =
    (r_started_at b < r_started_at a \<or> (r_started_at a = r_started_at b \<and> r_id b \<le> r_id a))"

definition attach_running_run_to_task ::
  "string \<Rightarrow> string \<Rightarrow> string \<Rightarrow> string \<Rightarrow> db \<Rightarrow> string option res \<times> db" where
  "attach_running_run_to_task ts agent tid path d =
    (let d1 = ensure_task_exists tid path d in
     case limit_1 (order_by run_start_le
            (filter (\<lambda>r. r_agent r = agent \<and> active_run_status (r_status r)) (runs d1))) of
       None \<Rightarrow> (Inr None, d1)
     | Some r \<Rightarrow>
         let d2 = (case find_task tid d1 of None \<Rightarrow> d1 | Some t \<Rightarrow> update_run (r_id r) (attach_row ts t) d1)
         in case insert_event (Some (r_id r)) ''run_task_attached''
              (JObj [(''agent'', JStr agent), (''task_id'', JStr tid)]) d2 of
              Inl e \<Rightarrow> (Inl e, d2)
            | Inr d3 \<Rightarrow> (Inr (Some (r_id r)), d3))"

definition active_supervisor_of :: "string \<Rightarrow> run_row \<Rightarrow> bool" where
  "active_supervisor_of tid r =
    (r_task_id r = tid \<and> r_role r = ''supervisor'' \<and> active_run_status (r_status r))"

definition unattended_consultation :: "db \<Rightarrow> task_row \<Rightarrow> bool" where
  "unattended_consultation d t =
    (t_status t = as_str Consultation \<and> \<not> list_ex (active_supervisor_of (t_id t)) (runs d))"

text \<open>What both consultation attachments do with the selected task.\<close>

definition attach_consultation ::
  "string \<Rightarrow> string \<Rightarrow> string \<Rightarrow> task_row \<Rightarrow> db \<Rightarrow> (RuntimeTaskContext option \<times> db) res" where
  "attach_consultation ts agent rid t d =
    res_bind (repository_view_reference_from_database (t_view t)) (\<lambda>v.
      let context = (context_of_task t v)
            \<lparr> x_run_id := Some rid, x_run_role := Some ''supervisor'',
              x_repository_workspace_path := latest_executor_workspace_for_task (t_id t) d \<rparr>;
          matches = (\<lambda>r. r_id r = rid \<and>
            \<not> list_ex (\<lambda>a. active_supervisor_of (t_id t) a \<and> r_id a \<noteq> rid) (runs d)) in
      if count_by matches (runs d) = 0 then Inr (None, d)
      else res_bind (insert_event_in_transaction (Some rid) ''run_consultation_attached''
             (JObj [(''agent'', JStr agent), (''task_id'', JStr (t_id t))])
             (update_runs matches (attach_row ts t) d))
           (\<lambda>d1. Inr (Some context, d1)))"

definition attach_running_run_to_next_consultation ::
  "string \<Rightarrow> string \<Rightarrow> db \<Rightarrow> (RuntimeTaskContext option \<times> db) res" where
  "attach_running_run_to_next_consultation ts agent d =
    (case latest_active_run_for_agent agent d of
       None \<Rightarrow> Inr (None, d)
     | Some rid \<Rightarrow>
         res_bind (consultation_context_for_run rid d) (\<lambda>existing.
           case existing of
             Some context \<Rightarrow> Inr (Some context, d)
           | None \<Rightarrow>
               (case limit_1 (order_by task_id_le (filter (unattended_consultation d) (tasks d))) of
                  None \<Rightarrow> Inr (None, d)
                | Some t \<Rightarrow> attach_consultation ts agent rid t d)))"

definition attach_running_run_to_consultation ::
  "string \<Rightarrow> string \<Rightarrow> string \<Rightarrow> db \<Rightarrow> (RuntimeTaskContext option \<times> db) res" where
  "attach_running_run_to_consultation ts tid agent d =
    (case latest_active_run_for_agent agent d of
       None \<Rightarrow> Inr (None, d)
     | Some rid \<Rightarrow>
         res_bind (consultation_context_for_run rid d) (\<lambda>existing.
           case existing of
             Some context \<Rightarrow> Inr (if x_task_id context = tid then Some context else None, d)
           | None \<Rightarrow>
               (case find_task tid d of
                  None \<Rightarrow> Inr (None, d)
                | Some t \<Rightarrow> if unattended_consultation d t then attach_consultation ts agent rid t d
                           else Inr (None, d))))"

definition record_run_finished :: "string \<Rightarrow> string \<Rightarrow> int \<Rightarrow> db \<Rightarrow> unit res \<times> db" where
  "record_run_finished ts rid exit_code d =
    (let status = (if exit_code = 0 then ''completed'' else ''failed'');
         d1 = update_run rid (\<lambda>r. r \<lparr> r_status := status, r_updated_at := ts, r_pid := None \<rparr>) d
     in case insert_event (Some rid) ''run_finished''
          (JObj [(''exit_code'', JInt exit_code), (''status'', JStr status)]) d1 of
          Inl e \<Rightarrow> (Inl e, d1)
        | Inr d2 \<Rightarrow> (Inr (), d2))"


section \<open>Sample database\<close>

text \<open>A task in consultation and a running supervisor that is not attached to it yet.\<close>

definition consulting_task :: task_row where
  "consulting_task = leased_task \<lparr> t_status := as_str Consultation,
     t_paused_status := Some (as_str Executing) \<rparr>"

definition consulting_db :: db where
  "consulting_db = empty_db \<lparr>
     tasks := [new_task_row ''current'' ''.ferrus/TASK.md'' (as_str Unknown) None None, consulting_task],
     runs := [sample_run, sample_run \<lparr> r_id := ''r-9'', r_task_id := ''current'', r_role := ''supervisor'',
                r_agent := ''s'' \<rparr>] \<rparr>"


section \<open>Lemmas\<close>

lemma find_run_fk:
  "db_inv d \<Longrightarrow> find_run rid d = Some r \<Longrightarrow> r_task_id r \<in> t_id ` set (tasks d)"
  using find_run_in by (fastforce simp: db_inv_def keys_ok_def)

lemma run_fk: "db_inv d \<Longrightarrow> r \<in> set (runs d) \<Longrightarrow> r_task_id r \<in> t_id ` set (tasks d)"
  by (auto simp: db_inv_def keys_ok_def)

lemma ensure_task_present: "find_task tid (ensure_task_exists tid path d) \<noteq> None"
  by (simp add: ensure_task_find)

lemma db_inv_reserve:
  assumes "reserve_executor_session_at alive pid ts rid agent ws tid sh d = Inr (u, d')" "db_inv d"
  shows "db_inv d'"
  using assms
  by (auto simp: reserve_executor_session_at_def res_bind_Inr_iff Let_def reserved_run_def run_ok_def
      ensure_task_find intro!: inv_intros split: if_splits)

lemma db_inv_drop_reservation [inv_intros]: "db_inv d \<Longrightarrow> db_inv (drop_reservation ts rid b d)"
  by (auto simp: drop_reservation_def run_ok_def intro!: inv_intros dest: find_run_fk)

lemma db_inv_upsert_run:
  assumes "db_inv d" "find_task (r_task_id r) d \<noteq> None" "run_ok r"
  shows "db_inv (upsert_run r d)"
  using assms
  by (auto simp: upsert_run_def run_ok_def intro!: inv_intros dest: find_run_fk split: option.splits)

lemma db_inv_run_started:
  assumes "db_inv d"
  shows "db_inv (snd (record_run_started_for_task_with_baseline ts rid role agent pid tid ws bt ev d))"
proof -
  obtain k path where k: "run_task_identity tid = (k, path)" by (cases "run_task_identity tid")
  have inv: "db_inv (ensure_task_exists k path d)" using assms by (rule inv_intros)
  obtain t where t: "find_task k (ensure_task_exists k path d) = Some t"
    using ensure_task_present by blast
  have "db_inv (upsert_run (started_run rid k role agent ts pid ws (t_view t)) (ensure_task_exists k path d))"
    using inv t db_inv_task_ok [OF inv t]
    by (intro db_inv_upsert_run) (auto simp: started_run_def run_ok_def task_ok_def)
  then show ?thesis
    using k t db_inv_insert_event(2)
    by (fastforce simp: record_run_started_for_task_with_baseline_def Let_def split: sum.splits)
qed

lemma run_ok_attach: "task_ok t \<Longrightarrow> run_ok r \<Longrightarrow> run_ok (attach_row ts t r)"
  by (simp add: attach_row_def run_ok_def task_ok_def)

lemma attach_row_simps [simp]:
  "r_id (attach_row ts t r) = r_id r" "r_task_id (attach_row ts t r) = t_id t"
  "r_role (attach_row ts t r) = r_role r" "r_status (attach_row ts t r) = r_status r"
  "r_agent (attach_row ts t r) = r_agent r"
  by (simp_all add: attach_row_def)

lemma db_inv_attach_task:
  assumes "db_inv d"
  shows "db_inv (snd (attach_running_run_to_task ts agent tid path d))"
proof -
  let ?d1 = "ensure_task_exists tid path d"
  have inv: "db_inv ?d1" using assms by (rule inv_intros)
  obtain t where t: "find_task tid ?d1 = Some t" using ensure_task_present by blast
  have "db_inv (update_run rid (attach_row ts t) ?d1)" for rid
    using t db_inv_task_ok [OF inv t]
    by (intro db_inv_update_run [OF inv]) (auto intro: run_ok_attach dest: find_task_in)
  then show ?thesis
    using inv t db_inv_insert_event(2)
    by (fastforce simp: attach_running_run_to_task_def Let_def split: option.splits sum.splits)
qed

lemma db_inv_attach_consultation:
  assumes "attach_consultation ts agent rid t d = Inr (r, d')" "db_inv d" "t \<in> set (tasks d)"
  shows "db_inv d'"
proof -
  have "task_ok t" using assms(2,3) by (simp add: db_inv_def)
  then show ?thesis
    using assms
    by (auto simp: attach_consultation_def res_bind_Inr_iff Let_def split: if_splits
        intro!: inv_intros run_ok_attach dest!: db_inv_insert_event(1))
qed

text \<open>An attachment changes nothing, or attaches to an unattended consultation.\<close>

lemma attach_next_cases:
  assumes res: "attach_running_run_to_next_consultation ts agent d = Inr (c, d')"
  obtains (kept) "d' = d" | (attached) rid t where "attach_consultation ts agent rid t d = Inr (c, d')"
    "unattended_consultation d t" "t \<in> set (tasks d)"
proof (cases "latest_active_run_for_agent agent d")
  case None
  then show ?thesis using res kept by (simp add: attach_running_run_to_next_consultation_def)
next
  case rid: (Some rid)
  then obtain existing where ex: "consultation_context_for_run rid d = Inr existing"
    using res by (cases "consultation_context_for_run rid d")
      (simp_all add: attach_running_run_to_next_consultation_def)
  let ?next = "limit_1 (order_by task_id_le (filter (unattended_consultation d) (tasks d)))"
  show ?thesis
  proof (cases "existing = None \<and> ?next \<noteq> None")
    case True
    then obtain t where t: "?next = Some t" by blast
    show ?thesis
    proof (rule attached)
      show "attach_consultation ts agent rid t d = Inr (c, d')"
        using res rid ex t True by (simp add: attach_running_run_to_next_consultation_def)
    qed (use task_ids.limit_1_least(1) [OF t] in simp_all)
  next
    case False
    then show ?thesis
      using res rid ex kept
      by (cases existing)
         (simp_all add: attach_running_run_to_next_consultation_def order_by_def limit_1_def)
  qed
qed

lemma attach_by_id_cases:
  assumes res: "attach_running_run_to_consultation ts tid agent d = Inr (c, d')"
  obtains (kept) "d' = d" | (attached) rid t where "attach_consultation ts agent rid t d = Inr (c, d')"
    "unattended_consultation d t" "t \<in> set (tasks d)"
proof (cases "latest_active_run_for_agent agent d")
  case None
  then show ?thesis using res kept by (simp add: attach_running_run_to_consultation_def)
next
  case rid: (Some rid)
  then obtain existing where ex: "consultation_context_for_run rid d = Inr existing"
    using res by (cases "consultation_context_for_run rid d")
      (simp_all add: attach_running_run_to_consultation_def)
  show ?thesis
  proof (cases "existing = None \<and> (\<exists>t. find_task tid d = Some t \<and> unattended_consultation d t)")
    case True
    then obtain t where t: "find_task tid d = Some t" "unattended_consultation d t" by blast
    show ?thesis
      using res rid ex t True attached [of rid t] find_task_in [OF t(1)]
      by (simp add: attach_running_run_to_consultation_def)
  next
    case False
    then show ?thesis
      using res rid ex kept
      by (auto simp: attach_running_run_to_consultation_def split: option.splits if_splits)
  qed
qed

lemma db_inv_attach_next:
  assumes "attach_running_run_to_next_consultation ts agent d = Inr (r, d')" "db_inv d"
  shows "db_inv d'"
  using assms(1) by (rule attach_next_cases) (use assms(2) db_inv_attach_consultation in blast)+

lemma db_inv_attach_by_id:
  assumes "attach_running_run_to_consultation ts tid agent d = Inr (r, d')" "db_inv d"
  shows "db_inv d'"
  using assms(1) by (rule attach_by_id_cases) (use assms(2) db_inv_attach_consultation in blast)+

lemma db_inv_run_finished:
  assumes "db_inv d"
  shows "db_inv (snd (record_run_finished ts rid code d))"
proof -
  have "db_inv (update_run rid (\<lambda>r. r \<lparr> r_status := s, r_updated_at := ts, r_pid := None \<rparr>) d)" for s
    using assms by (intro inv_intros) (auto simp: run_ok_def dest: find_run_fk)
  then show ?thesis
    using db_inv_insert_event(2)
    by (fastforce simp: record_run_finished_def Let_def split: sum.splits)
qed


section \<open>Properties\<close>

lemma any_live_iff:
  "any_live alive pids = Inr b \<Longrightarrow> b = (\<exists>p. Some p \<in> set pids \<and> alive (as_u32 p))"
proof (induction pids arbitrary: b)
  case (Cons pid pids)
  then obtain q live where q: "pid_u32 pid = Inr q" "any_live alive pids = Inr live"
    "b = (live \<or> (case q of None \<Rightarrow> False | Some p \<Rightarrow> alive p))"
    by (auto simp: res_bind_Inr_iff)
  moreover have "(case q of None \<Rightarrow> False | Some p \<Rightarrow> alive p) =
      (\<exists>p. pid = Some p \<and> alive (as_u32 p))"
    using q(1) by (auto simp: pid_u32_def split: option.splits if_splits)
  moreover have "live = (\<exists>p. Some p \<in> set pids \<and> alive (as_u32 p))"
    using Cons.IH q(2) by blast
  ultimately show ?case by auto
qed simp

lemma any_live_ok:
  "(\<forall>pid\<in>set pids. case pid of None \<Rightarrow> True | Some p \<Rightarrow> u32_range p) \<Longrightarrow> \<exists>b. any_live alive pids = Inr b"
  by (induction alive pids rule: any_live.induct) (auto simp: pid_u32_def split: option.splits)

definition live_run :: "(32 word \<Rightarrow> bool) \<Rightarrow> run_row \<Rightarrow> bool" where
  "live_run alive r =
    (active_run_status (r_status r) \<and> (case r_pid r of None \<Rightarrow> False | Some p \<Rightarrow> alive (as_u32 p)))"

lemma live_run_iff:
  "live_run alive r \<longleftrightarrow>
    active_run_status (r_status r) \<and> (\<exists>p. Some p = r_pid r \<and> alive (as_u32 p))"
  by (auto simp: live_run_def split: option.splits)

text \<open>C14: a shared workspace is reserved by at most one live executor. On a well-formed database a
  reservation with a fresh run identity succeeds exactly when no executor run whose process is alive is
  active (for a direct session: none on the taskless bookkeeping row); it then adds the new run under the
  orchestrator's process, bound to its task, and leaves every other run alone; otherwise it is refused.\<close>

theorem reservation_excludes_live_executor:
  assumes "db_inv d" "find_run rid d = None"
  shows "case reserve_executor_session_at alive hq_pid ts rid agent workspace tid shared d of
      Inr (u, d') \<Rightarrow>
        (\<forall>r. r \<in> set (runs d) \<and> r_role r = ''executor'' \<and> (shared \<or> r_task_id r = ''current'') \<longrightarrow>
           \<not> live_run alive r) \<and>
        (\<exists>r. find_run rid d' = Some r \<and> r_task_id r = tid \<and> r_pid r = Some (uint hq_pid) \<and>
           active_run_status (r_status r)) \<and>
        (\<forall>k. k \<noteq> rid \<longrightarrow> find_run k d' = find_run k d)
    | Inl e \<Rightarrow>
        e = Bail (occupied_message shared) \<and>
        (\<exists>r. r \<in> set (runs d) \<and> r_role r = ''executor'' \<and> (shared \<or> r_task_id r = ''current'') \<and>
           live_run alive r)"
proof -
  obtain b where b: "any_live alive (map r_pid (executor_runs shared d)) = Inr b"
    using any_live_ok [of "map r_pid (executor_runs shared d)" alive] assms(1)
    by (auto simp: executor_runs_def db_inv_def run_ok_def)
  have live: "b \<longleftrightarrow> (\<exists>r. r \<in> set (runs d) \<and> r_role r = ''executor'' \<and>
      (shared \<or> r_task_id r = ''current'') \<and> live_run alive r)"
    unfolding any_live_iff [OF b] executor_runs_def live_run_iff set_map set_filter by blast
  have fresh: "find_run rid (ensure_task_exists tid (default_task_path_for_id tid) d) = None"
    using assms(2) by (simp add: find_run_def)
  have frame: "find_run k (ensure_task_exists tid (default_task_path_for_id tid) d) = find_run k d" for k
    by (simp add: find_run_def)
  show ?thesis
    using b live fresh
    by (auto simp: reserve_executor_session_at_def Let_def row_simps reserved_run_def
        active_run_status_def ensure_def frame split: option.splits)
qed

theorem reservation_excludes_live_executor_witness:
  "reserve_executor_session_at (\<lambda>p. p = 7) 1 ''s2'' ''r-2'' ''b'' ''/w'' ''t-001'' True working_db =
   Inl (Bail (occupied_message True))"
proof -
  have 1: "db_inv working_db" "find_run ''r-2'' working_db = None" by code_simp+
  have 2: "sample_run \<in> set (runs working_db)" "r_role sample_run = ''executor''"
    "live_run (\<lambda>p. p = 7) sample_run"
    by code_simp+
  show ?thesis
    using reservation_excludes_live_executor [OF 1, where alive = "\<lambda>p. p = 7" and hq_pid = 1 and
        ts = "''s2''" and agent = "''b''" and workspace = "''/w''" and tid = "''t-001''" and shared = True]
      2 by (auto split: sum.splits)
qed

text \<open>At most one active supervisor run per task that is in consultation.\<close>

definition one_supervisor :: "string \<Rightarrow> db \<Rightarrow> bool" where
  "one_supervisor tid d =
    (\<forall>r\<in>set (runs d). \<forall>s\<in>set (runs d).
       active_supervisor_of tid r \<and> active_supervisor_of tid s \<longrightarrow> r = s)"

lemma attach_consultation_supervisors:
  assumes res: "attach_consultation ts agent rid t d = Inr (c, d')" and keys: "keys_ok d"
    and un: "unattended_consultation d t"
  shows "one_supervisor (t_id t) d'"
    and "k \<noteq> t_id t \<Longrightarrow> one_supervisor k d \<Longrightarrow> one_supervisor k d'"
proof -
  let ?m = "\<lambda>r. r_id r = rid \<and> \<not> list_ex (\<lambda>a. active_supervisor_of (t_id t) a \<and> r_id a \<noteq> rid) (runs d)"
  have runs: "runs d' = runs d \<or> runs d' = update_by ?m (attach_row ts t) (runs d)"
    using res
    by (auto simp: attach_consultation_def res_bind_Inr_iff Let_def insert_event_frame update_runs_def
        split: if_splits)
  have none: "\<not> active_supervisor_of (t_id t) r" if "r \<in> set (runs d)" for r
    using un that by (auto simp: unattended_consultation_def list_ex_iff)
  have same: "r = s" if "r \<in> set (runs d)" "s \<in> set (runs d)" "r_id r = r_id s" for r s
    using keys that by (auto simp: keys_ok_def distinct_map inj_on_def)
  show "one_supervisor (t_id t) d'"
    using runs none by (auto simp: one_supervisor_def set_update_by) (metis same)
  show "one_supervisor k d'" if "k \<noteq> t_id t" "one_supervisor k d"
    using runs that by (auto simp: one_supervisor_def set_update_by active_supervisor_of_def)
qed

text \<open>C15: attaching never puts two supervisors on one consultation. Both ways of attaching a running
  supervisor to a consultation leave every task that had at most one active supervisor run with at most
  one, and the task that was attached has at most one afterwards.\<close>

theorem attach_keeps_one_supervisor:
  assumes "db_inv d" "one_supervisor k d"
  shows "(\<forall>c d'. attach_running_run_to_next_consultation ts agent d = Inr (c, d') \<longrightarrow> one_supervisor k d') \<and>
    (\<forall>c d'. attach_running_run_to_consultation ts tid agent d = Inr (c, d') \<longrightarrow> one_supervisor k d')"
proof -
  have att: "one_supervisor k d'"
    if "attach_consultation ts agent rid t d = Inr (c, d')" "unattended_consultation d t" for rid t c d'
    using attach_consultation_supervisors [OF that(1) db_inv_keys [OF assms(1)] that(2)] assms(2)
    by (cases "k = t_id t") auto
  show ?thesis
    by (intro conjI allI impI; erule attach_next_cases attach_by_id_cases)
       (use att assms(2) in blast)+
qed

theorem attach_keeps_one_supervisor_witness:
  "case attach_running_run_to_next_consultation ''s2'' ''s'' consulting_db of
     Inl e \<Rightarrow> False
   | Inr (c, d') \<Rightarrow> c \<noteq> None \<and> one_supervisor ''t-001'' d'"
proof -
  have 1: "db_inv consulting_db" "one_supervisor ''t-001'' consulting_db" by code_simp+
  have 2: "case attach_running_run_to_next_consultation ''s2'' ''s'' consulting_db of
     Inl e \<Rightarrow> False | Inr (c, d') \<Rightarrow> c \<noteq> None"
    by code_simp
  show ?thesis
    using attach_keeps_one_supervisor [OF 1, of "''s2''" "''s''"] 2 by (auto split: sum.splits)
qed

text \<open>A run and its task agree. After a run has been started for a task (with a run identity that is
  new) the run is bound to that task, active under the given process, and carries the task's repository
  view; starting again under the same identity keeps task, role and start time.\<close>

theorem started_run_inherits_view:
  assumes "normalized_metadata_value task_id = Some tid" "find_task tid d = Some t"
  shows "\<exists>d' r. record_run_started_for_task_with_baseline ts rid role agent pid task_id workspace bt ev d =
      (Inr (), d') \<and> find_run rid d' = Some r \<and> r_view r = t_view t \<and> r_status r = ''running'' \<and>
      r_pid r = Some (uint pid) \<and> r_workspace_path r = workspace \<and>
      (case find_run rid d of
         None \<Rightarrow> r_task_id r = tid \<and> r_role r = role \<and> r_agent r = agent \<and> r_started_at r = ts
       | Some r0 \<Rightarrow> r_task_id r = r_task_id r0 \<and> r_role r = r_role r0 \<and> r_started_at r = r_started_at r0) \<and>
      (\<forall>k. find_task k d' = find_task k d)"
proof -
  have e: "ensure_task_exists tid path d = d" for path
    using assms(2) by (simp add: ensure_task_exists_def)
  have "find_run rid d = Some r0 \<Longrightarrow> r_id r0 = rid" for r0 by (rule run_table.get_key)
  then show ?thesis
    using assms
    by (cases "find_run rid d")
       (auto simp: record_run_started_for_task_with_baseline_def run_task_identity_def e Let_def
          upsert_run_def started_run_def insert_event_def row_simps)
qed

theorem started_run_inherits_view_witness:
  "\<exists>d' r. record_run_started_for_task_with_baseline ''s2'' ''r-2'' ''executor'' ''b'' 9 (Some ''t-001'') ''/w''
     None JNull leased_db = (Inr (), d') \<and> find_run ''r-2'' d' = Some r \<and> r_view r = t_view leased_task"
proof -
  have "normalized_metadata_value (Some ''t-001'') = Some ''t-001''"
    "find_task ''t-001'' leased_db = Some leased_task"
    by code_simp+
  from started_run_inherits_view [OF this] show ?thesis by blast
qed

end
