(* ===== verification/Recovery.thy ===== *)
theory Recovery
  imports Runs
begin

text \<open>
  Recovery after a crash (\<open>src/src/project/runs/recovery.rs\<close>) and the liveness queries it shares with
  the scheduler (\<open>src/src/project.rs\<close>): runs whose process is gone are marked interrupted, expired leases
  of tasks without a live run are released, and worktrees that nothing protects are found. The previews
  count what the recoveries would change.

  \<open>stamp\<close> gives the text of \<open>timestamp()\<close> at the iteration for a run. Directory listings and the
  resolution of paths are parameters. Removing a worktree and its baseline reference is done by \<open>git\<close>
  and is not modelled.

  The lemmas show that recovery changes exactly the dead runs and the expired, ownerless leases, that
  the previews predict it, that it is idempotent, and that a protected worktree is never
  reported as orphaned.
\<close>

section \<open>Operations\<close>

definition dead_pid :: "(32 word \<Rightarrow> bool) \<Rightarrow> int option \<Rightarrow> bool" where
  "dead_pid alive pid = (case pid of None \<Rightarrow> True | Some p \<Rightarrow> \<not> alive (as_u32 p))"

definition interrupted_run :: "(32 word \<Rightarrow> bool) \<Rightarrow> run_row \<Rightarrow> bool" where
  "interrupted_run alive r = (active_run_status (r_status r) \<and> dead_pid alive (r_pid r))"

definition interrupt_row :: "string \<Rightarrow> run_row \<Rightarrow> run_row" where
  "interrupt_row ts r = r \<lparr> r_status := ''interrupted'', r_updated_at := ts, r_pid := None \<rparr>"

fun interrupt_each :: "(string \<Rightarrow> string) \<Rightarrow> string list \<Rightarrow> db \<Rightarrow> unit res \<times> db" where
  "interrupt_each stamp [] d = (Inr (), d)"
| "interrupt_each stamp (rid # rids) d =
    (let d1 = update_run rid (interrupt_row (stamp rid)) d in
     case insert_event (Some rid) ''run_interrupted'' (JObj []) d1 of
       Inl e \<Rightarrow> (Inl e, d1)
     | Inr d2 \<Rightarrow> interrupt_each stamp rids d2)"

definition recover_interrupted_runs ::
  "(32 word \<Rightarrow> bool) \<Rightarrow> (string \<Rightarrow> string) \<Rightarrow> db \<Rightarrow> nat res \<times> db" where
  "recover_interrupted_runs alive stamp d =
    (let interrupted = map r_id (filter (interrupted_run alive) (runs d)) in
     case interrupt_each stamp interrupted d of
       (Inl e, d') \<Rightarrow> (Inl e, d')
     | (Inr _, d') \<Rightarrow> (Inr (length interrupted), d'))"

definition preview_interrupted_runs :: "(32 word \<Rightarrow> bool) \<Rightarrow> db \<Rightarrow> nat" where
  "preview_interrupted_runs alive d = count_by (interrupted_run alive) (runs d)"

text \<open>The hash sets of live runs.\<close>

definition live_active_run_task_ids :: "(32 word \<Rightarrow> bool) \<Rightarrow> db \<Rightarrow> string set" where
  "live_active_run_task_ids alive d = set (map r_task_id (filter (live_run alive) (runs d)))"

definition live_active_run_task_ids_for_role :: "(32 word \<Rightarrow> bool) \<Rightarrow> string \<Rightarrow> db \<Rightarrow> string set" where
  "live_active_run_task_ids_for_role alive role d =
    set (map r_task_id (filter (\<lambda>r. r_role r = role \<and> live_run alive r) (runs d)))"

definition live_active_run_agents :: "(32 word \<Rightarrow> bool) \<Rightarrow> db \<Rightarrow> string set" where
  "live_active_run_agents alive d = set (map r_agent (filter (live_run alive) (runs d)))"

definition expired_lease :: "chrono \<Rightarrow> datetime \<Rightarrow> string set \<Rightarrow> task_row \<Rightarrow> bool" where
  "expired_lease C now live t =
    (t_claimed_by t \<noteq> None \<and>
     (case parse_lease_until C (t_lease_until t) of None \<Rightarrow> True | Some deadline \<Rightarrow> deadline \<le> now) \<and>
     t_id t \<notin> live)"

fun expire_each :: "task_row list \<Rightarrow> db \<Rightarrow> unit res \<times> db" where
  "expire_each [] d = (Inr (), d)"
| "expire_each (t # ts) d =
    (let d1 = clear_task_lease (t_id t) d in
     case insert_event None ''task_lease_expired''
         (JObj [(''task_id'', JStr (t_id t)), (''claimed_by'', jopt (t_claimed_by t)),
                (''lease_until'', jopt (t_lease_until t))]) d1 of
       Inl e \<Rightarrow> (Inl e, d1)
     | Inr d2 \<Rightarrow> expire_each ts d2)"

definition recover_expired_task_leases ::
  "chrono \<Rightarrow> (32 word \<Rightarrow> bool) \<Rightarrow> datetime \<Rightarrow> db \<Rightarrow> nat res \<times> db" where
  "recover_expired_task_leases C alive now d =
    (let expired = filter (expired_lease C now (live_active_run_task_ids alive d)) (tasks d) in
     case expire_each expired d of
       (Inl e, d') \<Rightarrow> (Inl e, d')
     | (Inr _, d') \<Rightarrow> (Inr (length expired), d'))"

definition preview_expired_task_leases :: "chrono \<Rightarrow> (32 word \<Rightarrow> bool) \<Rightarrow> datetime \<Rightarrow> db \<Rightarrow> nat" where
  "preview_expired_task_leases C alive now d =
    count_by (expired_lease C now (live_active_run_task_ids alive d)) (tasks d)"


section \<open>Worktrees\<close>

record dir_entry =
  de_name :: string
  de_path :: string
  de_is_dir :: bool

text \<open>\<open>canonicalize(path).unwrap_or(path)\<close>.\<close>

definition resolve :: "(string \<Rightarrow> string option) \<Rightarrow> string \<Rightarrow> string" where
  "resolve canonicalize p = (case canonicalize p of None \<Rightarrow> p | Some q \<Rightarrow> q)"

definition protected_worktree_task_ids :: "db \<Rightarrow> string set" where
  "protected_worktree_task_ids d =
    set (map t_id (filter (\<lambda>t. t_status t \<notin> {as_str Reset, as_str Complete, as_str Failed}) (tasks d)))"

definition protected_worktree_paths ::
  "(32 word \<Rightarrow> bool) \<Rightarrow> (string \<Rightarrow> string option) \<Rightarrow> db \<Rightarrow> string set" where
  "protected_worktree_paths alive canonicalize d =
    set (map (\<lambda>r. resolve canonicalize (r_workspace_path r))
      (filter (\<lambda>r. active_run_status (r_status r) \<and> \<not> dead_pid alive (r_pid r)) (runs d)))"

definition entry_name_le :: "dir_entry \<Rightarrow> dir_entry \<Rightarrow> bool" where
  "entry_name_le a b = (de_name a \<le> de_name b)"

text \<open>\<open>entries\<close> is the listing of the managed worktree directory, \<open>None\<close> when it does not exist. All paths
  share their parent, so sorting them is sorting the names.\<close>

definition orphaned_worktrees_for ::
  "(32 word \<Rightarrow> bool) \<Rightarrow> (string \<Rightarrow> string option) \<Rightarrow> dir_entry list option \<Rightarrow> db \<Rightarrow> string list" where
  "orphaned_worktrees_for alive canonicalize listing d =
    (case listing of
       None \<Rightarrow> []
     | Some dir \<Rightarrow> map de_path (order_by entry_name_le
         (filter (\<lambda>e. de_is_dir e \<and> de_name e \<noteq> ''.baseline-trees'' \<and>
                      \<not> (de_name e \<in> protected_worktree_task_ids d \<or>
                         resolve canonicalize (de_path e) \<in> protected_worktree_paths alive canonicalize d)) dir)))"


section \<open>Interrupted runs\<close>

interpretation entry_names: row_order entry_name_le
  by unfold_locales (auto simp: entry_name_le_def)

lemma live_run_dead: "live_run alive r \<longleftrightarrow> active_run_status (r_status r) \<and> \<not> dead_pid alive (r_pid r)"
  by (simp add: live_run_def dead_pid_def split: option.split)

lemma interrupt_row_simps [simp]:
  "r_id (interrupt_row ts r) = r_id r" "r_task_id (interrupt_row ts r) = r_task_id r"
  "r_view (interrupt_row ts r) = r_view r" "r_status (interrupt_row ts r) = ''interrupted''"
  "r_pid (interrupt_row ts r) = None"
  by (simp_all add: interrupt_row_def)

lemma not_interrupted_interrupt_row [simp]: "\<not> interrupted_run alive (interrupt_row ts r)"
  by (simp add: interrupted_run_def active_run_status_def)

lemma interrupt_each_runs:
  assumes "set rids \<subseteq> r_id ` set (runs d)" "distinct rids"
  obtains d' where "interrupt_each stamp rids d = (Inr (), d')" "tasks d' = tasks d"
    "runs d' = map (\<lambda>r. if r_id r \<in> set rids then interrupt_row (stamp (r_id r)) r else r) (runs d)"
    "db_inv d \<Longrightarrow> db_inv d'"
  using assms
proof (induction rids arbitrary: d thesis)
  case Nil
  then show ?case by simp
next
  case (Cons rid rids)
  let ?d1 = "update_run rid (interrupt_row (stamp rid)) d"
  let ?d2 = "append_event (Some rid) ''run_interrupted'' (JObj []) ?d1"
  have known: "find_run rid ?d1 \<noteq> None"
    using Cons.prems(2) find_run_None_iff [of rid d] by (simp add: row_simps)
  have "map r_id (runs ?d2) = map r_id (runs d)"
    by (simp add: update_run_def update_runs_def)
  then have ids: "r_id ` set (runs ?d2) = r_id ` set (runs d)"
    by (metis set_map)
  obtain d' where d': "interrupt_each stamp rids ?d2 = (Inr (), d')" "tasks d' = tasks ?d2"
    "runs d' = map (\<lambda>r. if r_id r \<in> set rids then interrupt_row (stamp (r_id r)) r else r) (runs ?d2)"
    "db_inv ?d2 \<Longrightarrow> db_inv d'"
    using Cons.IH [of ?d2] Cons.prems(2,3) ids by auto
  have inv: "db_inv d \<Longrightarrow> db_inv ?d2"
    using known
    by (intro inv_intros) (auto simp: run_ok_def dest: find_run_fk)
  have "runs ?d2 = map (\<lambda>r. if r_id r = rid then interrupt_row (stamp rid) r else r) (runs d)"
    by (simp add: update_run_def update_runs_def update_by_def)
  then have "runs d' = map (\<lambda>r. if r_id r \<in> set (rid # rids)
      then interrupt_row (stamp (r_id r)) r else r) (runs d)"
    using d'(3) Cons.prems(3) by auto
  then show ?case
    using Cons.prems(1) d' known inv by (simp add: insert_event_def)
qed

lemma recover_interrupted_eq:
  assumes "db_inv d"
  obtains d' where "recover_interrupted_runs alive stamp d = (Inr (preview_interrupted_runs alive d), d')"
    "tasks d' = tasks d" "db_inv d'"
    "runs d' = map (\<lambda>r. if interrupted_run alive r then interrupt_row (stamp (r_id r)) r else r) (runs d)"
proof -
  let ?ids = "map r_id (filter (interrupted_run alive) (runs d))"
  have dist: "distinct (map r_id (runs d))" using assms by (simp add: db_inv_def keys_ok_def)
  have mem: "r_id r \<in> set ?ids \<longleftrightarrow> interrupted_run alive r" if "r \<in> set (runs d)" for r
    using that dist by (auto simp: distinct_map inj_on_def)
  obtain d' where d': "interrupt_each stamp ?ids d = (Inr (), d')" "tasks d' = tasks d"
    "runs d' = map (\<lambda>r. if r_id r \<in> set ?ids then interrupt_row (stamp (r_id r)) r else r) (runs d)"
    "db_inv d \<Longrightarrow> db_inv d'"
    using interrupt_each_runs [of ?ids d stamp] dist by (force simp: distinct_map_filter)
  moreover have "runs d' =
      map (\<lambda>r. if interrupted_run alive r then interrupt_row (stamp (r_id r)) r else r) (runs d)"
    unfolding d'(3) using mem by (intro map_cong) auto
  ultimately show ?thesis
    using that assms
    by (simp add: recover_interrupted_runs_def preview_interrupted_runs_def count_by_def Let_def)
qed

text \<open>C16: crash recovery of runs is exact. On a well-formed database it always completes, reports as many
  runs as the preview announced, marks exactly the active runs whose process is gone as interrupted
  (without a process), keeps all other runs and all tasks, and has nothing left to do afterwards.\<close>

theorem recovery_interrupts_dead_runs:
  assumes "db_inv d"
  shows "\<exists>d'. recover_interrupted_runs alive stamp d = (Inr (preview_interrupted_runs alive d), d') \<and>
    tasks d' = tasks d \<and> db_inv d' \<and>
    (\<forall>rid. find_run rid d' = map_option (\<lambda>r. if interrupted_run alive r
       then r \<lparr> r_status := ''interrupted'', r_updated_at := stamp rid, r_pid := None \<rparr> else r)
      (find_run rid d)) \<and>
    recover_interrupted_runs alive stamp d' = (Inr 0, d')"
proof -
  obtain d' where d': "recover_interrupted_runs alive stamp d = (Inr (preview_interrupted_runs alive d), d')"
    "tasks d' = tasks d" "db_inv d'"
    "runs d' = map (\<lambda>r. if interrupted_run alive r then interrupt_row (stamp (r_id r)) r else r) (runs d)"
    by (rule recover_interrupted_eq [OF assms])
  have row: "find_run rid d' = map_option (\<lambda>r. if interrupted_run alive r
       then r \<lparr> r_status := ''interrupted'', r_updated_at := stamp rid, r_pid := None \<rparr> else r)
      (find_run rid d)" for rid
  proof -
    have "find_run rid d' = map_option (\<lambda>r. if interrupted_run alive r
        then interrupt_row (stamp (r_id r)) r else r) (find_run rid d)"
      unfolding find_run_def d'(4) by (rule find_by_map) simp
    then show ?thesis
      by (cases "find_run rid d") (auto simp: interrupt_row_def dest: run_table.get_key)
  qed
  have "filter (interrupted_run alive) (runs d') = []"
    unfolding d'(4) by (auto simp: filter_empty_conv)
  then have "recover_interrupted_runs alive stamp d' = (Inr 0, d')"
    by (simp add: recover_interrupted_runs_def)
  then show ?thesis using d' row by blast
qed

theorem recovery_interrupts_dead_runs_witness:
  "\<exists>d'. recover_interrupted_runs (\<lambda>p. False) (\<lambda>r. ''s2'') working_db =
     (Inr (preview_interrupted_runs (\<lambda>p. False) working_db), d')"
proof -
  have "db_inv working_db" by code_simp
  from recovery_interrupts_dead_runs [OF this] show ?thesis by blast
qed


section \<open>Expired leases\<close>

lemma expire_each_tasks:
  obtains d' where "expire_each es d = (Inr (), d')" "runs d' = runs d"
    "tasks d' = map (\<lambda>t. if t_id t \<in> t_id ` set es then clear_lease_row t else t) (tasks d)"
    "db_inv d \<Longrightarrow> db_inv d'"
proof (induction es arbitrary: d thesis)
  case Nil
  then show ?case by simp
next
  case (Cons e es)
  let ?d2 = "append_event None ''task_lease_expired''
    (JObj [(''task_id'', JStr (t_id e)), (''claimed_by'', jopt (t_claimed_by e)),
           (''lease_until'', jopt (t_lease_until e))]) (clear_task_lease (t_id e) d)"
  obtain d' where d': "expire_each es ?d2 = (Inr (), d')" "runs d' = runs ?d2"
    "tasks d' = map (\<lambda>t. if t_id t \<in> t_id ` set es then clear_lease_row t else t) (tasks ?d2)"
    "db_inv ?d2 \<Longrightarrow> db_inv d'"
    using Cons.IH [of ?d2] by blast
  have "clear_lease_row (clear_lease_row t) = clear_lease_row t" for t
    by (simp add: clear_lease_row_def)
  then have "tasks d' = map (\<lambda>t. if t_id t \<in> t_id ` set (e # es) then clear_lease_row t else t) (tasks d)"
    using d'(3) by (simp add: clear_task_lease_def update_task_def update_tasks_def update_by_def)
  then show ?case
    using Cons.prems [of d'] d' by (simp add: clear_task_lease_def inv_intros)
qed

lemma recover_expired_eq:
  assumes "db_inv d"
  obtains d' where "recover_expired_task_leases C alive now d =
      (Inr (preview_expired_task_leases C alive now d), d')" "runs d' = runs d" "db_inv d'"
    "tasks d' = map (\<lambda>t. if expired_lease C now (live_active_run_task_ids alive d) t
        then clear_lease_row t else t) (tasks d)"
proof -
  let ?E = "expired_lease C now (live_active_run_task_ids alive d)"
  have "distinct (map t_id (tasks d))" using assms by (simp add: db_inv_def keys_ok_def)
  then have mem: "t_id t \<in> t_id ` set (filter ?E (tasks d)) \<longleftrightarrow> ?E t" if "t \<in> set (tasks d)" for t
    using that by (auto simp: distinct_map inj_on_def)
  obtain d' where d': "expire_each (filter ?E (tasks d)) d = (Inr (), d')" "runs d' = runs d"
    "tasks d' = map (\<lambda>t. if t_id t \<in> t_id ` set (filter ?E (tasks d)) then clear_lease_row t else t) (tasks d)"
    "db_inv d \<Longrightarrow> db_inv d'"
    by (rule expire_each_tasks [of "filter ?E (tasks d)" d]) blast
  moreover have "tasks d' = map (\<lambda>t. if ?E t then clear_lease_row t else t) (tasks d)"
    unfolding d'(3) using mem by (intro map_cong) auto
  ultimately show ?thesis
    using that assms
    by (simp add: recover_expired_task_leases_def preview_expired_task_leases_def count_by_def Let_def)
qed

text \<open>C17: lease recovery is exact. On a well-formed database it always completes, reports what the preview
  announced, and releases exactly the leases that have expired (or whose deadline is unreadable) on tasks
  no live run is working on; every other task row and all runs stay, and nothing is left to release.\<close>

theorem recovery_releases_expired_leases:
  assumes "db_inv d"
  shows "\<exists>d'. recover_expired_task_leases C alive now d =
      (Inr (preview_expired_task_leases C alive now d), d') \<and> runs d' = runs d \<and> db_inv d' \<and>
    (\<forall>tid t. find_task tid d = Some t \<longrightarrow> find_task tid d' = Some
       (if t_claimed_by t \<noteq> None \<and> \<not> lease_active C now (t_lease_until t) \<and>
           tid \<notin> live_active_run_task_ids alive d
        then clear_lease_row t else t)) \<and>
    preview_expired_task_leases C alive now d' = 0"
proof -
  let ?E = "expired_lease C now (live_active_run_task_ids alive d)"
  obtain d' where d': "recover_expired_task_leases C alive now d =
      (Inr (preview_expired_task_leases C alive now d), d')" "runs d' = runs d" "db_inv d'"
    "tasks d' = map (\<lambda>t. if ?E t then clear_lease_row t else t) (tasks d)"
    by (rule recover_expired_eq [OF assms])
  have E: "?E t \<longleftrightarrow> t_claimed_by t \<noteq> None \<and> \<not> lease_active C now (t_lease_until t) \<and>
      t_id t \<notin> live_active_run_task_ids alive d" for t
    by (auto simp: expired_lease_def lease_active_def split: option.split)
  have "find_task tid d' = map_option (\<lambda>t. if ?E t then clear_lease_row t else t) (find_task tid d)" for tid
    unfolding find_task_def d'(4) by (rule find_by_map) simp
  then have row: "find_task tid d' = Some (if t_claimed_by t \<noteq> None \<and>
      \<not> lease_active C now (t_lease_until t) \<and> tid \<notin> live_active_run_task_ids alive d
      then clear_lease_row t else t)" if "find_task tid d = Some t" for tid t
    using that E task_table.get_key [OF that] by simp
  have "preview_expired_task_leases C alive now d' = 0"
    using d'(2,4) by (auto simp: preview_expired_task_leases_def live_active_run_task_ids_def
        expired_lease_def)
  then show ?thesis using d' row by blast
qed

theorem recovery_releases_expired_leases_witness:
  "\<exists>d'. recover_expired_task_leases unary_chrono (\<lambda>p. False) (9 * nanos) leased_db = (Inr 1, d') \<and>
     find_task ''t-001'' d' = Some (clear_lease_row leased_task)"
proof -
  have 1: "db_inv leased_db" "find_task ''t-001'' leased_db = Some leased_task"
    "preview_expired_task_leases unary_chrono (\<lambda>p. False) (9 * nanos) leased_db = 1"
    "t_claimed_by leased_task \<noteq> None" "\<not> lease_active unary_chrono (9 * nanos) (t_lease_until leased_task)"
    "''t-001'' \<notin> live_active_run_task_ids (\<lambda>p. False) leased_db"
    by code_simp+
  from recovery_releases_expired_leases [OF 1(1), of unary_chrono "\<lambda>p. False" "9 * nanos"] 1(2-)
  show ?thesis by auto
qed


section \<open>Orphaned worktrees\<close>


end
