(* ===== verification/Checkout.thy ===== *)
theory Checkout
  imports Prelude
begin

text \<open>
  The artifacts of a checkout, \<open>src/src/state/store.rs\<close>: resolution of project-local paths, and the
  files of a task's run directory (questions, answers, consultations, reviews, submissions, patches).

  A checkout is a map from resolved paths to contents, together with the two sources of the project
  root and the outcome the operating system gives to each operation. A write that fails may have
  written a prefix of the content (\<open>Torn\<close>), a recursive removal that fails may have removed some
  of the files (\<open>Removed\<close>); nothing else is assumed of failures. A read of an existing file fails when
  its outcome is not \<open>Done\<close> (permissions, or bytes that are not UTF-8).
\<close>

section \<open>The file store\<close>

datatype io_op =
    ReadOp string
  | WriteOp string
  | MkdirOp string
  | CreateNewOp string
  | SyncOp string
  | RenameOp string string
  | RemoveFileOp string
  | RemoveDirOp string

datatype io_outcome = Done | Refused | Torn nat | Removed "string list"

record checkout =
  env_root :: "string option"
  local_root :: "string option"
  files :: "string \<rightharpoonup> string"
  io :: "io_op \<Rightarrow> io_outcome"

definition set_file :: "string \<Rightarrow> string \<Rightarrow> checkout \<Rightarrow> checkout" where
  "set_file p content c = c \<lparr> files := (files c)(p \<mapsto> content) \<rparr>"

definition unset_file :: "string \<Rightarrow> checkout \<Rightarrow> checkout" where
  "unset_file p c = c \<lparr> files := (files c)(p := None) \<rparr>"

text \<open>\<open>fs::write\<close>: what is in the file afterwards, and whether the call succeeded.\<close>

definition fs_write :: "string \<Rightarrow> string \<Rightarrow> checkout \<Rightarrow> bool \<times> checkout" where
  "fs_write p content c =
    (case io c (WriteOp p) of
       Done \<Rightarrow> (True, set_file p content c)
     | Torn n \<Rightarrow> (False, set_file p (take n content) c)
     | _ \<Rightarrow> (False, c))"

text \<open>\<open>fs::remove_dir_all\<close> removes every file below the directory.\<close>

definition fs_remove_dir :: "string \<Rightarrow> checkout \<Rightarrow> bool \<times> checkout" where
  "fs_remove_dir p c =
    (let below = (\<lambda>f. has_prefix (p @ ''/'') f) in
     case io c (RemoveDirOp p) of
       Done \<Rightarrow> (True, c \<lparr> files := (\<lambda>f. if below f then None else files c f) \<rparr>)
     | Removed fs \<Rightarrow> (False, c \<lparr> files := (\<lambda>f. if below f \<and> f \<in> set fs then None else files c f) \<rparr>)
     | _ \<Rightarrow> (False, c))"


section \<open>Paths\<close>

definition starts_with_ferrus_dir :: "string \<Rightarrow> bool" where
  "starts_with_ferrus_dir p = (takeWhile (\<lambda>c. c \<noteq> CHR ''/'') p = ''.ferrus'')"

text \<open>\<open>Path\<close> equality compares components: repeated separators and interior dots do not count.\<close>

definition path_components :: "string \<Rightarrow> string list" where
  "path_components p = filter (\<lambda>w. w \<noteq> [] \<and> w \<noteq> ''.'') (split_on (CHR ''/'') p)"

definition project_root_from_env :: "checkout \<Rightarrow> string option" where
  "project_root_from_env c =
    (case env_root c of None \<Rightarrow> None | Some v \<Rightarrow> if trim v = [] then None else Some (trim v))"

definition resolve_project_path :: "string \<Rightarrow> checkout \<Rightarrow> string" where
  "resolve_project_path p c =
    (if is_absolute p \<or> \<not> starts_with_ferrus_dir p then p
     else if path_components p = [''.ferrus'', ''project.toml''] then p
     else case project_root_from_env c of
            Some root \<Rightarrow> path_join root p
          | None \<Rightarrow> (case local_root c of Some root \<Rightarrow> path_join root p | None \<Rightarrow> p))"

definition run_file :: "string \<Rightarrow> string \<Rightarrow> string" where
  "run_file run_dir filename = path_join run_dir filename"


section \<open>Reading, writing and removing\<close>

definition read_resolved :: "string \<Rightarrow> checkout \<Rightarrow> string \<Rightarrow> string res" where
  "read_resolved q c contents =
    (if io c (ReadOp q) = Done then Inr contents else Inl (Bail (''Failed to read '' @ q)))"

definition read_path :: "string \<Rightarrow> checkout \<Rightarrow> string res" where
  "read_path p c =
    (let q = resolve_project_path p c in
     case files c q of
       None \<Rightarrow> Inl (Bail (''Failed to read '' @ q))
     | Some contents \<Rightarrow> read_resolved q c contents)"

definition read_path_or_empty :: "string \<Rightarrow> checkout \<Rightarrow> string res" where
  "read_path_or_empty p c =
    (let q = resolve_project_path p c in
     case files c q of None \<Rightarrow> Inr [] | Some contents \<Rightarrow> read_resolved q c contents)"

definition create_parent :: "string \<Rightarrow> checkout \<Rightarrow> unit res" where
  "create_parent q c =
    ensure (io c (MkdirOp (path_parent q)) = Done) (Bail (''Failed to create '' @ path_parent q))"

definition write_path :: "string \<Rightarrow> string \<Rightarrow> checkout \<Rightarrow> unit res \<times> checkout" where
  "write_path p content c =
    (let q = resolve_project_path p c in
     case create_parent q c of
       Inl e \<Rightarrow> (Inl e, c)
     | Inr _ \<Rightarrow> (case fs_write q content c of
           (ok, c') \<Rightarrow> (ensure ok (Bail (''Failed to write '' @ q)), c')))"

text \<open>Writes to a staged file that exists nowhere else, synchronises it, renames it over the target and
  removes whatever is left of the stage. \<open>staged\<close> is the fresh name of the stage.\<close>

definition discard_stage :: "string \<Rightarrow> checkout \<Rightarrow> checkout" where
  "discard_stage staged c = (if io c (RemoveFileOp staged) = Done then unset_file staged c else c)"

definition publish_stage :: "string \<Rightarrow> string \<Rightarrow> string \<Rightarrow> checkout \<Rightarrow> bool \<times> checkout" where
  "publish_stage staged q content c =
    (case fs_write staged content c of
       (False, c1) \<Rightarrow> (False, c1)
     | (True, c1) \<Rightarrow>
         if io c1 (SyncOp staged) = Done \<and> io c1 (RenameOp staged q) = Done
         then (True, unset_file staged (set_file q content c1))
         else (False, c1))"

definition write_path_atomically :: "string \<Rightarrow> string \<Rightarrow> string \<Rightarrow> checkout \<Rightarrow> unit res \<times> checkout" where
  "write_path_atomically staged q content c =
    (case create_parent q c of
       Inl e \<Rightarrow> (Inl e, c)
     | Inr _ \<Rightarrow>
         if files c staged \<noteq> None \<or> io c (CreateNewOp staged) \<noteq> Done
         then (Inl (Bail (''Failed to stage '' @ q)), c)
         else (case publish_stage staged q content (set_file staged [] c) of
             (ok, c') \<Rightarrow> (ensure ok (Bail (''Failed to publish '' @ q)), discard_stage staged c')))"

definition remove_path_if_exists :: "string \<Rightarrow> checkout \<Rightarrow> unit res \<times> checkout" where
  "remove_path_if_exists p c =
    (let q = resolve_project_path p c in
     if io c (RemoveFileOp q) = Done then (Inr (), unset_file q c)
     else (Inl (Bail (''Failed to remove '' @ q)), c))"

definition remove_dir_if_exists :: "string \<Rightarrow> checkout \<Rightarrow> unit res \<times> checkout" where
  "remove_dir_if_exists p c =
    (let q = resolve_project_path p c in
     case fs_remove_dir q c of
       (ok, c') \<Rightarrow> (ensure ok (Bail (''Failed to remove '' @ q)), c'))"


section \<open>The artifacts of a task\<close>

definition read_task_template :: "checkout \<Rightarrow> string res" where
  "read_task_template c = read_path (path_join ''.ferrus'' ''TASK.md'') c"

definition read_task_at :: "string \<Rightarrow> checkout \<Rightarrow> string res" where
  "read_task_at task_path c = read_path task_path c"

definition read_review_for_run_dir :: "string \<Rightarrow> checkout \<Rightarrow> string res" where
  "read_review_for_run_dir run_dir c = read_path_or_empty (run_file run_dir ''REVIEW.md'') c"

definition write_review_for_run_dir :: "string \<Rightarrow> string \<Rightarrow> checkout \<Rightarrow> unit res \<times> checkout" where
  "write_review_for_run_dir run_dir content c = write_path (run_file run_dir ''REVIEW.md'') content c"

definition read_submission_for_run_dir :: "string \<Rightarrow> checkout \<Rightarrow> string res" where
  "read_submission_for_run_dir run_dir c = read_path_or_empty (run_file run_dir ''SUBMISSION.md'') c"

definition write_submission_for_run_dir :: "string \<Rightarrow> string \<Rightarrow> checkout \<Rightarrow> unit res \<times> checkout" where
  "write_submission_for_run_dir run_dir content c =
    write_path (run_file run_dir ''SUBMISSION.md'') content c"

definition read_patch_for_run_dir :: "string \<Rightarrow> checkout \<Rightarrow> string res" where
  "read_patch_for_run_dir run_dir c = read_path_or_empty (run_file run_dir ''PATCH.diff'') c"

definition write_patch_for_run_dir :: "string \<Rightarrow> string \<Rightarrow> checkout \<Rightarrow> unit res \<times> checkout" where
  "write_patch_for_run_dir run_dir content c = write_path (run_file run_dir ''PATCH.diff'') content c"

definition clear_patch_for_run_dir :: "string \<Rightarrow> checkout \<Rightarrow> unit res \<times> checkout" where
  "clear_patch_for_run_dir run_dir c = remove_path_if_exists (run_file run_dir ''PATCH.diff'') c"

definition read_integration_error_for_run_dir :: "string \<Rightarrow> checkout \<Rightarrow> string res" where
  "read_integration_error_for_run_dir run_dir c =
    read_path_or_empty (run_file run_dir ''INTEGRATION_ERROR.md'') c"

definition write_integration_error_for_run_dir ::
  "string \<Rightarrow> string \<Rightarrow> checkout \<Rightarrow> unit res \<times> checkout" where
  "write_integration_error_for_run_dir run_dir content c =
    write_path (run_file run_dir ''INTEGRATION_ERROR.md'') content c"

definition clear_integration_error_for_run_dir :: "string \<Rightarrow> checkout \<Rightarrow> unit res \<times> checkout" where
  "clear_integration_error_for_run_dir run_dir c =
    remove_path_if_exists (run_file run_dir ''INTEGRATION_ERROR.md'') c"

definition clear_scoped_task_artifacts :: "string \<Rightarrow> string \<Rightarrow> checkout \<Rightarrow> unit res \<times> checkout" where
  "clear_scoped_task_artifacts task_path run_dir c =
    (case remove_path_if_exists task_path c of
       (Inl e, c1) \<Rightarrow> (Inl e, c1)
     | (Inr _, c1) \<Rightarrow> remove_dir_if_exists run_dir c1)"

definition write_question_for_run_dir :: "string \<Rightarrow> string \<Rightarrow> checkout \<Rightarrow> unit res \<times> checkout" where
  "write_question_for_run_dir run_dir content c = write_path (run_file run_dir ''QUESTION.md'') content c"

definition read_question_for_run_dir :: "string \<Rightarrow> checkout \<Rightarrow> string res" where
  "read_question_for_run_dir run_dir c = read_path (run_file run_dir ''QUESTION.md'') c"

definition clear_question_for_run_dir :: "string \<Rightarrow> checkout \<Rightarrow> unit res \<times> checkout" where
  "clear_question_for_run_dir run_dir c = write_path (run_file run_dir ''QUESTION.md'') [] c"

definition read_answer_for_run_dir :: "string \<Rightarrow> checkout \<Rightarrow> string res" where
  "read_answer_for_run_dir run_dir c = read_path (run_file run_dir ''ANSWER.md'') c"

definition write_answer_for_run_dir :: "string \<Rightarrow> string \<Rightarrow> checkout \<Rightarrow> unit res \<times> checkout" where
  "write_answer_for_run_dir run_dir content c = write_path (run_file run_dir ''ANSWER.md'') content c"

definition clear_answer_for_run_dir :: "string \<Rightarrow> checkout \<Rightarrow> unit res \<times> checkout" where
  "clear_answer_for_run_dir run_dir c = write_path (run_file run_dir ''ANSWER.md'') [] c"

definition write_consult_request_for_run_dir ::
  "string \<Rightarrow> string \<Rightarrow> checkout \<Rightarrow> unit res \<times> checkout" where
  "write_consult_request_for_run_dir run_dir content c =
    write_path (run_file run_dir ''CONSULT_REQUEST.md'') content c"

definition read_consult_request_for_run_dir :: "string \<Rightarrow> checkout \<Rightarrow> string res" where
  "read_consult_request_for_run_dir run_dir c = read_path (run_file run_dir ''CONSULT_REQUEST.md'') c"

definition clear_consult_request_for_run_dir :: "string \<Rightarrow> checkout \<Rightarrow> unit res \<times> checkout" where
  "clear_consult_request_for_run_dir run_dir c =
    write_path (run_file run_dir ''CONSULT_REQUEST.md'') [] c"

definition read_consult_response_for_run_dir :: "string \<Rightarrow> checkout \<Rightarrow> string res" where
  "read_consult_response_for_run_dir run_dir c = read_path (run_file run_dir ''CONSULT_RESPONSE.md'') c"

definition write_consult_response_for_run_dir ::
  "string \<Rightarrow> string \<Rightarrow> string \<Rightarrow> checkout \<Rightarrow> unit res \<times> checkout" where
  "write_consult_response_for_run_dir staged run_dir content c =
    write_path_atomically staged (resolve_project_path (run_file run_dir ''CONSULT_RESPONSE.md'') c)
      content c"

definition clear_consult_response_for_run_dir :: "string \<Rightarrow> checkout \<Rightarrow> unit res \<times> checkout" where
  "clear_consult_response_for_run_dir run_dir c =
    write_path (run_file run_dir ''CONSULT_RESPONSE.md'') [] c"


section \<open>Check logs\<close>

text \<open>Characters are counted by their leading bytes: the continuation bytes of a multi-byte character
  belong to it.\<close>

definition continuation_byte :: "char \<Rightarrow> bool" where
  "continuation_byte ch = (128 \<le> byte_val ch \<and> byte_val ch < 192)"

definition log_char :: "char \<Rightarrow> bool" where
  "log_char ch =
    (is_digit ch \<or> (65 \<le> byte_val ch \<and> byte_val ch \<le> 90) \<or> (97 \<le> byte_val ch \<and> byte_val ch \<le> 122) \<or>
     ch = CHR ''-'' \<or> ch = CHR ''_'')"

definition sanitize_log_component :: "string \<Rightarrow> string" where
  "sanitize_log_component value =
    (let sanitized = map (\<lambda>ch. if log_char ch then ch else CHR ''_'')
           (filter (\<lambda>ch. \<not> continuation_byte ch) value)
     in if sanitized = [] then ''unknown'' else sanitized)"

definition check_log_name :: "32 word \<Rightarrow> string \<Rightarrow> 64 word \<Rightarrow> string" where
  "check_log_name attempt scope ts =
    ''check_'' @ show_u32 attempt @ ''_'' @ sanitize_log_component scope @ ''_'' @ show_nat (unat ts) @ ''.txt''"

definition write_check_log ::
  "32 word \<Rightarrow> 64 word \<Rightarrow> string \<Rightarrow> string \<Rightarrow> checkout \<Rightarrow> string res \<times> checkout" where
  "write_check_log attempt ts scope content c =
    (let logs_dir = resolve_project_path ''.ferrus/logs'' c;
         p = path_join logs_dir (check_log_name attempt scope ts)
     in if io c (MkdirOp logs_dir) \<noteq> Done then (Inl (Bail (''Failed to create '' @ logs_dir)), c)
        else (case fs_write p content c of
           (True, c') \<Rightarrow> (Inr p, c')
         | (False, c') \<Rightarrow> (Inl (Bail (''Failed to write '' @ p)), c')))"


section \<open>Frames\<close>

lemma set_file_simps [simp]:
  "files (set_file p content c) = (files c)(p \<mapsto> content)"
  "io (set_file p content c) = io c"
  "env_root (set_file p content c) = env_root c"
  "local_root (set_file p content c) = local_root c"
  by (simp_all add: set_file_def)

lemma unset_file_simps [simp]:
  "files (unset_file p c) = (files c)(p := None)"
  "io (unset_file p c) = io c"
  "env_root (unset_file p c) = env_root c"
  "local_root (unset_file p c) = local_root c"
  by (simp_all add: unset_file_def)

lemma fs_write_cases:
  assumes "fs_write p content c = (ok, c')"
  shows "io c' = io c" "env_root c' = env_root c" "local_root c' = local_root c"
    "f \<noteq> p \<Longrightarrow> files c' f = files c f" "ok \<Longrightarrow> c' = set_file p content c"
  using assms by (auto simp: fs_write_def split: io_outcome.splits)

lemma publish_stage_cases:
  assumes "publish_stage staged q content c = (ok, c')" "staged \<noteq> q"
  shows "io c' = io c" "files c' q = (if ok then Some content else files c q)"
    "f \<noteq> q \<Longrightarrow> f \<noteq> staged \<Longrightarrow> files c' f = files c f"
proof -
  obtain b c1 where w: "fs_write staged content c = (b, c1)" by fastforce
  note w' = fs_write_cases [OF w]
  have out: "io c' = io c \<and> files c' q = (if ok then Some content else files c q) \<and>
      (f \<noteq> q \<longrightarrow> f \<noteq> staged \<longrightarrow> files c' f = files c f)"
  proof (cases "b \<and> io c1 (SyncOp staged) = Done \<and> io c1 (RenameOp staged q) = Done")
    case True
    then have "ok" "c' = unset_file staged (set_file q content c1)"
      using assms(1) w by (auto simp: publish_stage_def)
    then show ?thesis using w' assms(2) by auto
  next
    case False
    then have "\<not> ok" "c' = c1"
      using assms(1) w by (auto simp: publish_stage_def split: bool.splits)
    then show ?thesis using w' assms(2) by auto
  qed
  then show "io c' = io c" "files c' q = (if ok then Some content else files c q)"
    "f \<noteq> q \<Longrightarrow> f \<noteq> staged \<Longrightarrow> files c' f = files c f" by blast+
qed

lemma resolve_project_path_frame:
  "env_root c' = env_root c \<Longrightarrow> local_root c' = local_root c \<Longrightarrow>
    resolve_project_path p c' = resolve_project_path p c"
  by (simp add: resolve_project_path_def project_root_from_env_def cong: option.case_cong)

lemma path_join_inj:
  assumes "path_join r p = path_join r q" "\<not> is_absolute p" "\<not> is_absolute q"
  shows "p = q"
  using assms by (auto simp: path_join_def split: if_splits)

text \<open>Files of run directories resolve injectively.\<close>

definition run_path :: "string \<Rightarrow> string \<Rightarrow> string" where
  "run_path tid f = ''.ferrus/runs/'' @ tid @ ''/'' @ f"

lemma run_file_run_path:
  assumes "tid \<noteq> []" "CHR ''/'' \<notin> set tid" "f \<noteq> []" "CHR ''/'' \<notin> set f"
  shows "run_file (''.ferrus/runs/'' @ tid) f = run_path tid f"
proof -
  have "last tid \<noteq> CHR ''/''" using assms by (metis last_in_set)
  moreover have "\<not> is_absolute f" using assms by (cases f) (auto simp: is_absolute_def)
  ultimately show ?thesis
    using assms by (simp add: run_file_def path_join_def run_path_def)
qed

lemma run_path_inj:
  assumes "run_path t1 f1 = run_path t2 f2" "CHR ''/'' \<notin> set t1" "CHR ''/'' \<notin> set t2"
  shows "t1 = t2 \<and> f1 = f2"
proof -
  have eq: "t1 @ ''/'' @ f1 = t2 @ ''/'' @ f2"
    using assms(1) by (simp add: run_path_def)
  have "takeWhile (\<lambda>c. c \<noteq> CHR ''/'') (t @ ''/'' @ f) = t" if "CHR ''/'' \<notin> set t" for t f
    using that by (subst takeWhile_append2) auto
  then have "t1 = t2" using eq assms(2,3) by metis
  then show ?thesis using eq by simp
qed

lemma split_on_run_path:
  "split_on (CHR ''/'') (run_path tid f) = ''.ferrus'' # ''runs'' # split_on (CHR ''/'') (tid @ ''/'' @ f)"
  by (simp add: run_path_def)

lemma resolve_run_path:
  "resolve_project_path (run_path tid f) c =
    (case project_root_from_env c of
       Some root \<Rightarrow> path_join root (run_path tid f)
     | None \<Rightarrow> (case local_root c of Some root \<Rightarrow> path_join root (run_path tid f) | None \<Rightarrow> run_path tid f))"
proof -
  have "\<not> is_absolute (run_path tid f)" "starts_with_ferrus_dir (run_path tid f)"
    by (simp_all add: run_path_def is_absolute_def starts_with_ferrus_dir_def)
  moreover have "path_components (run_path tid f) \<noteq> [''.ferrus'', ''project.toml'']"
    unfolding path_components_def split_on_run_path by simp
  ultimately show ?thesis unfolding resolve_project_path_def by simp
qed

lemma resolve_run_path_inj:
  assumes "resolve_project_path (run_path t1 f1) c = resolve_project_path (run_path t2 f2) c"
  shows "run_path t1 f1 = run_path t2 f2"
proof -
  have rel: "\<not> is_absolute (run_path t f)" for t f
    by (simp add: run_path_def is_absolute_def)
  show ?thesis
    using assms path_join_inj [OF _ rel rel]
    by (auto simp: resolve_run_path split: option.splits)
qed

lemma write_path_cases:
  assumes "write_path p content c = (r, c')"
  shows "io c' = io c" "env_root c' = env_root c" "local_root c' = local_root c"
    "f \<noteq> resolve_project_path p c \<Longrightarrow> files c' f = files c f"
    "r = Inr () \<Longrightarrow> c' = set_file (resolve_project_path p c) content c"
proof -
  obtain ok c1 where w: "fs_write (resolve_project_path p c) content c = (ok, c1)" by fastforce
  note w' = fs_write_cases [OF w]
  have "(r, c') = (case create_parent (resolve_project_path p c) c of
      Inl e \<Rightarrow> (Inl e, c) | Inr _ \<Rightarrow> (ensure ok (Bail (''Failed to write '' @ resolve_project_path p c)), c1))"
    using assms unfolding write_path_def Let_def w prod.case by (rule sym)
  then have "(c' = c \<and> r \<noteq> Inr ()) \<or> (c' = c1 \<and> (r = Inr () \<longleftrightarrow> ok))"
    by (cases "create_parent (resolve_project_path p c) c") simp_all
  then consider "c' = c" "r \<noteq> Inr ()" | "c' = c1" "r = Inr () \<longleftrightarrow> ok" by blast
  then show "io c' = io c" "env_root c' = env_root c" "local_root c' = local_root c"
    "f \<noteq> resolve_project_path p c \<Longrightarrow> files c' f = files c f"
    "r = Inr () \<Longrightarrow> c' = set_file (resolve_project_path p c) content c"
    using w' by (cases; simp)+
qed

lemma read_path_cong:
  assumes "io c' = io c" "env_root c' = env_root c" "local_root c' = local_root c"
    "files c' (resolve_project_path p c) = files c (resolve_project_path p c)"
  shows "read_path p c' = read_path p c"
  using assms resolve_project_path_frame [of c' c p]
  by (simp add: read_path_def Let_def read_resolved_def cong: option.case_cong)


section \<open>Publication of a consultation response\<close>

text \<open>C20: a consultation response is published atomically. Whatever the operating system refuses or
  interrupts, the response file afterwards holds the complete new response when the operation succeeded
  and exactly what it held before when it failed, never a prefix. No file other than the response and
  the private stage changes, and the stage is gone unless its removal itself is refused.\<close>

theorem consult_response_atomic:
  assumes "staged \<noteq> target" and "target = resolve_project_path (run_file run_dir ''CONSULT_RESPONSE.md'') c"
    and "write_consult_response_for_run_dir staged run_dir content c = (r, c')"
  shows "files c' target = (if r = Inr () then Some content else files c target) \<and>
    (\<forall>f. f \<noteq> target \<and> f \<noteq> staged \<longrightarrow> files c' f = files c f) \<and>
    (files c staged = None \<and> io c (RemoveFileOp staged) = Done \<longrightarrow> files c' staged = None)"
proof -
  obtain ok c1 where p: "publish_stage staged target content (set_file staged [] c) = (ok, c1)"
    by fastforce
  note p' = publish_stage_cases [OF p assms(1)]
  have w: "write_path_atomically staged target content c = (r, c')"
    using assms(2,3) by (simp add: write_consult_response_for_run_dir_def)
  show ?thesis
  proof (cases "is_ok (create_parent target c) \<and> files c staged = None \<and> io c (CreateNewOp staged) = Done")
    case True
    then have "r = ensure ok (Bail (''Failed to publish '' @ target))" "c' = discard_stage staged c1"
      using w p by (auto simp: write_path_atomically_def is_ok_iff)
    then show ?thesis
      using p' assms(1) by (auto simp: discard_stage_def ensure_def)
  next
    case False
    then have "r \<noteq> Inr ()" "c' = c"
      using w by (auto simp: write_path_atomically_def is_ok_iff split: sum.splits if_splits)
    then show ?thesis by simp
  qed
qed

text \<open>A checkout in which a write of five bytes is interrupted after two.\<close>

definition torn_checkout :: checkout where
  "torn_checkout =
    \<lparr> env_root = Some ''/p'', local_root = None,
      files = [''/p/.ferrus/runs/t-001/CONSULT_RESPONSE.md'' \<mapsto> ''old''],
      io = (\<lambda>op. if op = WriteOp ''/p/.ferrus/runs/t-001/.stage'' then Torn 2 else Done) \<rparr>"

theorem consult_response_atomic_witness:
  "files (snd (write_consult_response_for_run_dir ''/p/.ferrus/runs/t-001/.stage''
      ''.ferrus/runs/t-001'' ''fresh'' torn_checkout)) ''/p/.ferrus/runs/t-001/CONSULT_RESPONSE.md'' = Some ''old''"
proof -
  let ?s = "''/p/.ferrus/runs/t-001/.stage''" and ?t = "''/p/.ferrus/runs/t-001/CONSULT_RESPONSE.md''"
  obtain r c' where w: "write_consult_response_for_run_dir ?s ''.ferrus/runs/t-001'' ''fresh'' torn_checkout = (r, c')"
    by fastforce
  have t: "?t = resolve_project_path (run_file ''.ferrus/runs/t-001'' ''CONSULT_RESPONSE.md'') torn_checkout"
    and fails: "\<not> is_ok (fst (write_consult_response_for_run_dir ?s ''.ferrus/runs/t-001'' ''fresh'' torn_checkout))"
    and old: "files torn_checkout ?t = Some ''old''" and ne: "?s \<noteq> ?t"
    by code_simp+
  have "files c' ?t = (if r = Inr () then Some ''fresh'' else files torn_checkout ?t)"
    using consult_response_atomic [OF ne t w] by blast
  moreover have "r \<noteq> Inr ()" using fails unfolding w by auto
  ultimately show ?thesis unfolding w using old by simp
qed


section \<open>Isolation of run directories\<close>

text \<open>C21: the artifacts of different tasks, and different artifacts of one task, do not interfere. After a
  successful write of one artifact, reading it gives the written content whenever the file can be read at
  all, and every other artifact of every task reads as before, wherever the project root is.\<close>

theorem artifacts_isolated:
  assumes "write_path (run_file (''.ferrus/runs/'' @ t1) f1) content c = (Inr (), c')"
    and "t1 \<noteq> []" "CHR ''/'' \<notin> set t1" "f1 \<noteq> []" "CHR ''/'' \<notin> set f1"
    and "t2 \<noteq> []" "CHR ''/'' \<notin> set t2" "f2 \<noteq> []" "CHR ''/'' \<notin> set f2"
  shows "read_path (run_file (''.ferrus/runs/'' @ t2) f2) c' =
    (if (t1, f1) \<noteq> (t2, f2) then read_path (run_file (''.ferrus/runs/'' @ t2) f2) c
     else read_resolved (resolve_project_path (run_file (''.ferrus/runs/'' @ t1) f1) c) c content)"
proof -
  note e = run_file_run_path [OF assms(2-5)] run_file_run_path [OF assms(6-9)]
  note w = write_path_cases [OF assms(1)]
  show ?thesis
  proof (cases "(t1, f1) = (t2, f2)")
    case True
    then show ?thesis
      using w resolve_project_path_frame [of c' c "run_path t1 f1"] e
      by (simp add: read_path_def read_resolved_def)
  next
    case False
    then have "resolve_project_path (run_path t2 f2) c \<noteq> resolve_project_path (run_path t1 f1) c"
      using resolve_run_path_inj run_path_inj assms(3,7) by blast
    then have "files c' (resolve_project_path (run_path t2 f2) c) = files c (resolve_project_path (run_path t2 f2) c)"
      using w(4) e by metis
    then show ?thesis
      using False e read_path_cong [OF w(1-3)] by auto
  qed
qed

theorem artifacts_isolated_witness:
  "read_path (run_file ''.ferrus/runs/t-002'' ''ANSWER.md'')
     (snd (write_path (run_file ''.ferrus/runs/t-001'' ''ANSWER.md'') ''yes'' torn_checkout)) =
   read_path (run_file ''.ferrus/runs/t-002'' ''ANSWER.md'') torn_checkout"
proof -
  obtain c' where w: "write_path (run_file (''.ferrus/runs/'' @ ''t-001'') ''ANSWER.md'') ''yes'' torn_checkout = (Inr (), c')"
  proof -
    have "fst (write_path (run_file (''.ferrus/runs/'' @ ''t-001'') ''ANSWER.md'') ''yes'' torn_checkout) = Inr ()"
      by code_simp
    then show ?thesis using that by (metis prod.collapse)
  qed
  show ?thesis
    using artifacts_isolated [OF w, of "''t-002''" "''ANSWER.md''"] w by simp
qed


section \<open>Check logs stay in the log directory\<close>

lemma log_char_not_slash: "log_char ch \<Longrightarrow> ch \<noteq> CHR ''/''"
  by (auto simp: log_char_def is_digit_def byte_val_def)

lemma digits_log_chars: "list_all is_digit s \<Longrightarrow> list_all log_char s"
  by (auto simp: list_all_iff log_char_def)

lemma sanitize_log_chars: "list_all log_char (sanitize_log_component scope)"
proof -
  have "log_char (CHR ''_'')" "list_all log_char ''unknown''" by code_simp+
  then show ?thesis
    by (auto simp: sanitize_log_component_def Let_def list_all_iff)
qed

lemma check_log_name_chars: "CHR ''/'' \<notin> set (check_log_name attempt scope ts)"
proof -
  have "list_all log_char (show_nat n)" for n
    using show_nat_digits digits_log_chars by blast
  then show ?thesis
    using sanitize_log_chars [of scope] log_char_not_slash
    by (auto simp: check_log_name_def show_u32_def list_all_iff)
qed

text \<open>Whatever scope a check log is written for (a task id, an agent name, text with path separators), the
  log lands directly in the log directory: its file name has no separator and is longer than the two
  directory names, and no other file changes.\<close>

theorem check_log_stays_in_logs_dir:
  assumes "write_check_log attempt ts scope content c = (Inr p, c')"
  shows "p = path_join (resolve_project_path ''.ferrus/logs'' c) (check_log_name attempt scope ts) \<and>
    CHR ''/'' \<notin> set (check_log_name attempt scope ts) \<and> 2 < length (check_log_name attempt scope ts) \<and>
    files c' = (files c)(p \<mapsto> content)"
proof -
  let ?p = "path_join (resolve_project_path ''.ferrus/logs'' c) (check_log_name attempt scope ts)"
  obtain ok c1 where w: "fs_write ?p content c = (ok, c1)" by fastforce
  have "ok \<and> p = ?p \<and> c' = c1"
    using assms w by (auto simp: write_check_log_def Let_def split: if_splits bool.splits)
  moreover have "2 < length (check_log_name attempt scope ts)"
    by (simp add: check_log_name_def)
  ultimately show ?thesis
    using fs_write_cases(5) [OF w] check_log_name_chars by simp
qed

theorem check_log_stays_in_logs_dir_witness:
  "files (snd (write_check_log 1 7 ''../../x'' ''log'' torn_checkout))
     ''/p/.ferrus/logs/check_1_______x_7.txt'' = Some ''log''"
proof -
  have "is_ok (fst (write_check_log 1 7 ''../../x'' ''log'' torn_checkout))" by code_simp
  then obtain p c' where w: "write_check_log 1 7 ''../../x'' ''log'' torn_checkout = (Inr p, c')"
    by (metis is_ok_iff prod.collapse)
  have "path_join (resolve_project_path ''.ferrus/logs'' torn_checkout) (check_log_name 1 ''../../x'' 7) =
      ''/p/.ferrus/logs/check_1_______x_7.txt''" by code_simp
  then show ?thesis using check_log_stays_in_logs_dir [OF w] w by simp
qed

end
