(* ===== verification/Registry.thy ===== *)
theory Registry
  imports Recovery Checkout
begin

text \<open>
  Task records and artifacts, \<open>src/src/project/registry.rs\<close> and
  \<open>src/src/project/registry/artifacts.rs\<close>: listings of tasks, runs and human questions, recovery of
  recorded answers, reservation of a task identity with its artifact and its finalisation as a pending
  task, and the migration of the legacy task state (with its helpers in \<open>src/src/project.rs\<close>).

  Operations on files and database rows together take and return a checkout and a database. The
  artifact paths of this component are used as they are, without project-root resolution.
\<close>

section \<open>Records\<close>

record TaskArtifact =
  ta_id :: string
  ta_path :: string
  ta_run_dir :: string

record TaskRecord =
  tr_id :: string
  tr_path :: string
  tr_spec_path :: "string option"
  tr_milestone_id :: "string option"
  tr_status :: string
  tr_paused_status :: "string option"
  tr_claimed_by :: "string option"
  tr_lease_until :: "string option"
  tr_last_heartbeat :: "string option"
  tr_check_retries :: "32 word"
  tr_review_cycles :: "32 word"
  tr_failure_reason :: "string option"

record RunRecord =
  rr_id :: string
  rr_task_id :: string
  rr_role :: string
  rr_agent :: string
  rr_status :: string
  rr_started_at :: string
  rr_updated_at :: string
  rr_pid :: "32 word option"
  rr_workspace_path :: string

record HumanQuestion =
  hq_task_id :: string
  hq_task_path :: string
  hq_run_dir :: string
  hq_question :: string

record AnsweredHumanWaiter =
  aw_task_id :: string
  aw_awaiting_human_by :: string

record RuntimeRecovery =
  rec_interrupted_runs :: nat
  rec_expired_task_leases :: nat

definition task_record_from_row :: "task_row \<Rightarrow> TaskRecord" where
  "task_record_from_row t =
    \<lparr> tr_id = t_id t, tr_path = t_path t, tr_spec_path = t_spec_path t,
      tr_milestone_id = t_milestone_id t, tr_status = t_status t,
      tr_paused_status = t_paused_status t, tr_claimed_by = t_claimed_by t,
      tr_lease_until = t_lease_until t, tr_last_heartbeat = t_last_heartbeat t,
      tr_check_retries = as_u32 (t_check_retries t), tr_review_cycles = as_u32 (t_review_cycles t),
      tr_failure_reason = t_failure_reason t \<rparr>"

definition run_record_from_row :: "run_row \<Rightarrow> RunRecord" where
  "run_record_from_row r =
    \<lparr> rr_id = r_id r, rr_task_id = r_task_id r, rr_role = r_role r, rr_agent = r_agent r,
      rr_status = r_status r, rr_started_at = r_started_at r, rr_updated_at = r_updated_at r,
      rr_pid = map_option as_u32 (r_pid r), rr_workspace_path = r_workspace_path r \<rparr>"


section \<open>Listings\<close>

text \<open>The legacy task \<open>current\<close> first, then by identity.\<close>

definition current_first_le :: "task_row \<Rightarrow> task_row \<Rightarrow> bool" where
  "current_first_le a b =
    (let k = (\<lambda>t. if t_id t = ''current'' then 0 else 1 :: nat) in
     k a < k b \<or> (k a = k b \<and> t_id a \<le> t_id b))"

definition list_tasks :: "db \<Rightarrow> TaskRecord list" where
  "list_tasks d = map task_record_from_row (order_by current_first_le (tasks d))"

definition list_tasks_for_spec :: "string \<Rightarrow> db \<Rightarrow> TaskRecord list" where
  "list_tasks_for_spec spec_path d =
    map task_record_from_row (order_by task_id_le (filter (\<lambda>t. t_spec_path t = Some spec_path) (tasks d)))"

definition open_status :: "string \<Rightarrow> bool" where
  "open_status s = (s \<notin> {as_str Reset, as_str Complete, as_str Failed})"

definition find_non_terminal_task_by_origin :: "string \<Rightarrow> string \<Rightarrow> db \<Rightarrow> TaskRecord option" where
  "find_non_terminal_task_by_origin spec_path milestone_id d =
    map_option task_record_from_row (limit_1 (order_by task_id_le
      (filter (\<lambda>t. t_spec_path t = Some spec_path \<and> t_milestone_id t = Some milestone_id \<and>
         open_status (t_status t)) (tasks d))))"

text \<open>Questions in the order in which they were asked; rows of older databases, which have no order,
  come first.\<close>

definition question_order_le :: "task_row \<Rightarrow> task_row \<Rightarrow> bool" where
  "question_order_le a b =
    (let qa = t_human_question_order a; qb = t_human_question_order b in
     (null_first_le qa qb \<and> \<not> null_first_le qb qa) \<or>
     (null_first_le qa qb \<and> null_first_le qb qa \<and> t_id a \<le> t_id b))"

definition unanswered :: "task_row \<Rightarrow> bool" where
  "unanswered t = (t_status t = as_str AwaitingHuman \<and> \<not> t_human_answer_recorded t)"

definition unwrap_or_default :: "string res \<Rightarrow> string" where
  "unwrap_or_default r = (case r of Inl _ \<Rightarrow> [] | Inr s \<Rightarrow> s)"

definition human_question :: "checkout \<Rightarrow> task_row \<Rightarrow> HumanQuestion" where
  "human_question c t =
    (let run_dir = run_dir_for_task (t_id t) in
     \<lparr> hq_task_id = t_id t, hq_task_path = t_path t, hq_run_dir = run_dir,
       hq_question = trim (unwrap_or_default (read_question_for_run_dir run_dir c)) \<rparr>)"

definition list_human_questions :: "checkout \<Rightarrow> db \<Rightarrow> HumanQuestion list" where
  "list_human_questions c d =
    map (human_question c) (order_by question_order_le (filter unanswered (tasks d)))"

definition list_answered_human_waiters :: "db \<Rightarrow> AnsweredHumanWaiter list" where
  "list_answered_human_waiters d =
    List.map_filter
      (\<lambda>t. map_option (\<lambda>b. \<lparr> aw_task_id = t_id t, aw_awaiting_human_by = b \<rparr>) (t_awaiting_human_by t))
      (order_by question_order_le
        (filter (\<lambda>t. t_status t = as_str AwaitingHuman \<and> t_human_answer_recorded t \<and>
           t_awaiting_human_by t \<noteq> None) (tasks d)))"

text \<open>\<open>LIMIT\<close> takes \<open>limit as i64\<close>; a negative limit means no limit.\<close>

definition sql_limit :: "64 word \<Rightarrow> 'a list \<Rightarrow> 'a list" where
  "sql_limit limit rows = (if sint limit < 0 then rows else take (nat (sint limit)) rows)"

definition latest_run_for_agent_role :: "string \<Rightarrow> string \<Rightarrow> db \<Rightarrow> RunRecord option" where
  "latest_run_for_agent_role agent role d =
    map_option run_record_from_row (limit_1 (order_by run_recency_le
      (filter (\<lambda>r. r_agent r = agent \<and> r_role r = role) (runs d))))"

definition list_runs :: "64 word \<Rightarrow> db \<Rightarrow> RunRecord list" where
  "list_runs limit d = map run_record_from_row (sql_limit limit (order_by run_recency_le (runs d)))"

definition event_id_desc_le :: "event_row \<Rightarrow> event_row \<Rightarrow> bool" where
  "event_id_desc_le a b = (e_id b \<le> e_id a)"

definition list_events :: "64 word \<Rightarrow> string option \<Rightarrow> db \<Rightarrow> event_row list" where
  "list_events limit run_id d =
    (case run_id of
       Some rid \<Rightarrow> sql_limit limit (order_by event_id_desc_le
                    (filter (\<lambda>e. e_run_id e = Some rid) (events d)))
     | None \<Rightarrow> sql_limit limit (order_by event_id_desc_le (events d)))"


section \<open>Recovery of recorded answers\<close>

text \<open>The questions are listed once; the loop then marks those whose answer file has content.\<close>

fun record_answers :: "checkout \<Rightarrow> HumanQuestion list \<Rightarrow> nat \<Rightarrow> db \<Rightarrow> nat res \<times> db" where
  "record_answers c [] recovered d = (Inr recovered, d)"
| "record_answers c (q # qs) recovered d =
    (if trim (unwrap_or_default (read_answer_for_run_dir (hq_run_dir q) c)) = []
     then record_answers c qs recovered d
     else (case record_task_human_answer (hq_task_id q) d of
         (Inl e, d1) \<Rightarrow> (Inl e, d1)
       | (Inr _, d1) \<Rightarrow> record_answers c qs (recovered + 1) d1))"

definition recover_recorded_human_answers :: "checkout \<Rightarrow> db \<Rightarrow> nat res \<times> db" where
  "recover_recorded_human_answers c d = record_answers c (list_human_questions c d) 0 d"

text \<open>\<open>alive\<close> answers whether a process exists, \<open>ts\<close> stamps each interrupted run.\<close>

definition recover_runtime_state ::
  "chrono \<Rightarrow> (32 word \<Rightarrow> bool) \<Rightarrow> (string \<Rightarrow> string) \<Rightarrow> datetime \<Rightarrow> checkout \<Rightarrow> db \<Rightarrow>
    RuntimeRecovery res \<times> db" where
  "recover_runtime_state C alive ts now c d =
    (case recover_interrupted_runs alive ts d of
       (Inl e, d1) \<Rightarrow> (Inl e, d1)
     | (Inr interrupted, d1) \<Rightarrow>
         (case recover_expired_task_leases C alive now d1 of
            (Inl e, d2) \<Rightarrow> (Inl e, d2)
          | (Inr expired, d2) \<Rightarrow>
              (case recover_recorded_human_answers c d2 of
                 (Inl e, d3) \<Rightarrow> (Inl e, d3)
               | (Inr _, d3) \<Rightarrow>
                   (Inr \<lparr> rec_interrupted_runs = interrupted, rec_expired_task_leases = expired \<rparr>, d3))))"


section \<open>Reservation of a task artifact\<close>

definition task_id_text :: "nat \<Rightarrow> string" where
  "task_id_text number = ''t-'' @ pad3 (show_nat number)"

definition task_artifact :: "nat \<Rightarrow> TaskArtifact" where
  "task_artifact number =
    (let tid = task_id_text number in
     \<lparr> ta_id = tid, ta_path = ''.ferrus/tasks/'' @ tid @ ''.md'', ta_run_dir = ''.ferrus/runs/'' @ tid \<rparr>)"

definition exhausted :: err where
  "exhausted = Bail ''Cannot allocate another task id: numeric range exhausted''"

text \<open>The numbers are \<open>u32\<close> and are advanced by \<open>checked_add(1)\<close>, so the search ends at the latest when
  the range is exhausted.\<close>

function reserve_from :: "nat \<Rightarrow> db \<Rightarrow> (TaskArtifact \<times> db) res" where
  "reserve_from number d =
    (let a = task_artifact number in
     if find_task (ta_id a) d = None
     then Inr (a, insert_task (new_task_row (ta_id a) (ta_path a) (as_str Unknown) None None) d)
     else if number + 1 < 2 ^ 32 then reserve_from (number + 1) d else Inl exhausted)"
  by pat_completeness auto

termination by (relation "measure (\<lambda>(number, d). 2 ^ 32 - number)") auto

declare reserve_from.simps [simp del]

text \<open>\<open>names\<close> is the listing of \<open>.ferrus/tasks\<close>, or the error of reading it.\<close>

definition reserve_task_artifact :: "string list res \<Rightarrow> checkout \<Rightarrow> db \<Rightarrow> TaskArtifact res \<times> db" where
  "reserve_task_artifact names c d =
    (if io c (MkdirOp ''.ferrus/tasks'') \<noteq> Done then (Inl (Bail ''Failed to create .ferrus/tasks''), d)
     else if io c (MkdirOp ''.ferrus/runs'') \<noteq> Done then (Inl (Bail ''Failed to create .ferrus/runs''), d)
     else case names of
         Inl e \<Rightarrow> (Inl e, d)
       | Inr ns \<Rightarrow> run_tx (\<lambda>d.
           let max_number = max (max_task_number_from_files ns) (max_task_number_in_database d) in
           if max_number + 1 < 2 ^ 32 then reserve_from (max_number + 1) d else Inl exhausted) d)"

definition duplicate_message :: "string \<Rightarrow> string \<Rightarrow> string \<Rightarrow> string" where
  "duplicate_message milestone_id spec_path duplicate =
    ''Cannot enqueue task: milestone '' @ milestone_id @ '' from '' @ spec_path @
      '' already has task '' @ duplicate @ ''.''"

definition origin_duplicate :: "string \<Rightarrow> string option \<Rightarrow> string option \<Rightarrow> db \<Rightarrow> unit res" where
  "origin_duplicate tid spec_path milestone_id d =
    (case (spec_path, milestone_id) of
       (Some s, Some m) \<Rightarrow>
         (case limit_1 (order_by task_id_le (filter (\<lambda>t. t_spec_path t = Some s \<and>
                 t_milestone_id t = Some m \<and> t_id t \<noteq> tid \<and> open_status (t_status t)) (tasks d))) of
            Some t \<Rightarrow> Inl (Bail (duplicate_message m s (t_id t)))
          | None \<Rightarrow> Inr ())
     | _ \<Rightarrow> Inr ())"

definition finalize_tx ::
  "TaskArtifact \<Rightarrow> string option \<Rightarrow> string option \<Rightarrow> db \<Rightarrow> (unit \<times> db) res" where
  "finalize_tx a spec_path milestone_id d =
    res_bind (origin_duplicate (ta_id a) spec_path milestone_id d) (\<lambda>_.
      let reserved = (\<lambda>t. t_id t = ta_id a \<and> t_status t = as_str Unknown) in
      if count_by reserved (tasks d) \<noteq> 1
      then Inl (Bail (''Task reservation '' @ ta_id a @ '' is no longer available''))
      else res_bind (insert_event_in_transaction None ''task_status_changed''
             (JObj [(''task_id'', JStr (ta_id a)), (''status'', JStr (as_str Pending))])
             (update_tasks reserved (\<lambda>t. t \<lparr> t_status := as_str Pending, t_spec_path := spec_path,
                t_milestone_id := milestone_id \<rparr>) d))
           (\<lambda>d1. Inr ((), d1)))"

definition finalize_task_artifact_reservation ::
  "TaskArtifact \<Rightarrow> string option \<Rightarrow> string option \<Rightarrow> db \<Rightarrow> unit res \<times> db" where
  "finalize_task_artifact_reservation a spec_path milestone_id d =
    run_tx (finalize_tx a spec_path milestone_id) d"

definition remove_artifact_path :: "string \<Rightarrow> bool \<Rightarrow> checkout \<Rightarrow> unit res \<times> checkout" where
  "remove_artifact_path p directory c =
    (case (if directory then fs_remove_dir p c
           else if io c (RemoveFileOp p) = Done then (True, unset_file p c) else (False, c)) of
       (ok, c') \<Rightarrow> (ensure ok (Bail (''Failed to remove '' @ p)), c'))"

text \<open>\<open>DELETE FROM tasks\<close> is refused while a run refers to a deleted row.\<close>

definition delete_tasks :: "(task_row \<Rightarrow> bool) \<Rightarrow> db \<Rightarrow> db res" where
  "delete_tasks P d =
    (if \<exists>r\<in>set (runs d). r_task_id r \<in> t_id ` set (filter P (tasks d))
     then Inl (SqlError ''FOREIGN KEY constraint failed'')
     else Inr (d \<lparr> tasks := filter (\<lambda>t. \<not> P t) (tasks d) \<rparr>))"

definition discard_task_artifact_reservation ::
  "TaskArtifact \<Rightarrow> checkout \<Rightarrow> db \<Rightarrow> unit res \<times> checkout \<times> db" where
  "discard_task_artifact_reservation a c d =
    (case remove_artifact_path (ta_path a) False c of
       (Inl e, c1) \<Rightarrow> (Inl e, c1, d)
     | (Inr _, c1) \<Rightarrow>
         (case remove_artifact_path (ta_run_dir a) True c1 of
            (Inl e, c2) \<Rightarrow> (Inl e, c2, d)
          | (Inr _, c2) \<Rightarrow>
              (case delete_tasks (\<lambda>t. t_id t = ta_id a \<and> t_status t = as_str Unknown) d of
                 Inl e \<Rightarrow> (Inl e, c2, d)
               | Inr d' \<Rightarrow> (Inr (), c2, d'))))"

text \<open>The work between reservation and success: write the description, create the run directory,
  finalise the row.\<close>

definition fill_artifact ::
  "TaskArtifact \<Rightarrow> string \<Rightarrow> string option \<Rightarrow> string option \<Rightarrow> checkout \<Rightarrow> db \<Rightarrow> unit res \<times> checkout \<times> db" where
  "fill_artifact a description spec_path milestone_id c d =
    (case fs_write (ta_path a) description c of
       (False, c1) \<Rightarrow> (Inl (Bail (''Failed to write '' @ ta_path a)), c1, d)
     | (True, c1) \<Rightarrow>
         if io c1 (MkdirOp (ta_run_dir a)) \<noteq> Done
         then (Inl (Bail (''Failed to create '' @ ta_run_dir a)), c1, d)
         else (case finalize_task_artifact_reservation a spec_path milestone_id d of (r, d1) \<Rightarrow> (r, c1, d1)))"

fun err_text :: "err \<Rightarrow> string" where
  "err_text (Bail s) = s"
| "err_text (SqlError s) = s"
| "err_text (Panic s) = s"
| "err_text (EffectUnknown e rollback) = err_text e @
    ''\<newline>\<newline>Approval rollback failed; manual reconciliation is required: '' @ err_text rollback"

definition discard_message :: "err \<Rightarrow> string \<Rightarrow> err \<Rightarrow> string" where
  "discard_message e tid cleanup =
    err_text e @ ''; also failed to discard task reservation '' @ tid @ '': '' @ err_text cleanup"

definition create_pending_task_artifact ::
  "string list res \<Rightarrow> string \<Rightarrow> string option \<Rightarrow> string option \<Rightarrow> checkout \<Rightarrow> db \<Rightarrow>
    TaskArtifact res \<times> checkout \<times> db" where
  "create_pending_task_artifact names description spec_path milestone_id c d =
    (case reserve_task_artifact names c d of
       (Inl e, d1) \<Rightarrow> (Inl e, c, d1)
     | (Inr a, d1) \<Rightarrow>
         (case fill_artifact a description spec_path milestone_id c d1 of
            (Inr _, c2, d2) \<Rightarrow> (Inr a, c2, d2)
          | (Inl e, c2, d2) \<Rightarrow>
              (case discard_task_artifact_reservation a c2 d2 of
                 (Inl ce, c3, d3) \<Rightarrow> (Inl (Bail (discard_message e (ta_id a) ce)), c3, d3)
               | (Inr _, c3, d3) \<Rightarrow> (Inl e, c3, d3))))"


section \<open>Migration of the legacy state\<close>

text \<open>The match on the legacy status: \<open>(paused_status, awaiting_human_status, awaiting_human_by)\<close>.\<close>

definition legacy_paused_text :: "LegacyStateData \<Rightarrow> string option" where
  "legacy_paused_text state =
    map_option (\<lambda>s. as_str (task_status_for_legacy_state s)) (legacy_paused_state state)"

definition legacy_pauses :: "LegacyStateData \<Rightarrow> string option \<times> string option \<times> string option" where
  "legacy_pauses state =
    (case legacy_state state of
       LegacyConsultation \<Rightarrow> (legacy_paused_text state, None, None)
     | LegacyAwaitingHuman \<Rightarrow> (None, legacy_paused_text state, legacy_awaiting_human_by state)
     | _ \<Rightarrow> (None, None, None))"

definition legacy_fields :: "LegacyStateData \<Rightarrow> task_row \<Rightarrow> task_row" where
  "legacy_fields state t =
    (case legacy_pauses state of (paused_status, awaiting_human_status, awaiting_human_by) \<Rightarrow>
       t \<lparr> t_paused_status := paused_status,
           t_check_retries := uint (legacy_check_retries state),
           t_review_cycles := uint (legacy_review_cycles state),
           t_failure_reason := legacy_failure_reason state, t_awaiting_human_by := awaiting_human_by,
           t_awaiting_human_status := awaiting_human_status \<rparr>)"

definition legacy_payload :: "LegacyStateData \<Rightarrow> json" where
  "legacy_payload state =
    (case legacy_pauses state of (paused_status, awaiting_human_status, _) \<Rightarrow>
       JObj [(''task_id'', JStr ''t-001''),
             (''status'', JStr (as_str (task_status_for_legacy_state (legacy_state state)))),
             (''paused_status'', jopt paused_status), (''awaiting_human_status'', jopt awaiting_human_status),
             (''check_retries'', JInt (uint (legacy_check_retries state))),
             (''review_cycles'', JInt (uint (legacy_review_cycles state)))])"

definition migrate_legacy_active_task :: "LegacyStateData \<Rightarrow> db \<Rightarrow> unit res \<times> db" where
  "migrate_legacy_active_task state d =
    run_tx (\<lambda>d.
      let d1 = upsert_task ''t-001'' ''.ferrus/tasks/t-001.md'' (task_status_for_legacy_state (legacy_state state))
                 (legacy_task_spec state) (legacy_task_milestone state) d;
          d2 = update_task ''t-001'' (legacy_fields state) d1
      in res_bind (insert_event_in_transaction None ''task_migrated_from_legacy_state'' (legacy_payload state) d2)
           (\<lambda>d3. Inr ((), d3))) d"

definition write_project_selection :: "string option \<Rightarrow> db \<Rightarrow> db res" where
  "write_project_selection selected_spec d =
    insert_event None ''project_selection_changed'' (JObj [(''selected_spec'', jopt selected_spec)])
      (write_project_selection_to_database selected_spec d)"

definition migrate_legacy_project_selection :: "LegacyStateData \<Rightarrow> db \<Rightarrow> db res" where
  "migrate_legacy_project_selection state d =
    (case normalized_metadata_value (legacy_selected_spec state) of
       Some selected_spec \<Rightarrow> write_project_selection (Some selected_spec) d
     | None \<Rightarrow> Inr d)"

definition legacy_task_row :: "task_row \<Rightarrow> task_row" where
  "legacy_task_row t =
    (new_task_row ''t-001'' ''.ferrus/tasks/t-001.md'' (t_status t) (t_spec_path t) (t_milestone_id t))
      \<lparr> t_paused_status := t_paused_status t, t_check_retries := t_check_retries t,
        t_review_cycles := t_review_cycles t, t_failure_reason := t_failure_reason t,
        t_awaiting_human_by := t_awaiting_human_by t,
        t_awaiting_human_status := t_awaiting_human_status t \<rparr>"

definition retired_row :: "task_row \<Rightarrow> task_row" where
  "retired_row t =
    t \<lparr> t_status := as_str Reset, t_paused_status := None, t_claimed_by := None, t_lease_until := None,
        t_last_heartbeat := None, t_failure_reason := None, t_awaiting_human_by := None,
        t_awaiting_human_status := None \<rparr>"

definition retire_legacy_current_task_row :: "string \<Rightarrow> db \<Rightarrow> db" where
  "retire_legacy_current_task_row ts d =
    (case find_task ''current'' d of
       None \<Rightarrow> d
     | Some t \<Rightarrow>
         let parsed = (case from_str (t_status t) of Inl _ \<Rightarrow> Unknown | Inr s \<Rightarrow> s);
             d1 = (if parsed \<in> {Unknown, Reset} then d
                   else update_runs (\<lambda>r. r_task_id r = ''current'')
                          (\<lambda>r. r \<lparr> r_task_id := ''t-001'', r_updated_at := ts \<rparr>)
                          (if find_task ''t-001'' d = None then insert_task (legacy_task_row t) d else d))
         in update_task ''current'' retired_row d1)"

text \<open>The copies of legacy artifacts.\<close>

definition copy_if_nonempty :: "string \<Rightarrow> string \<Rightarrow> checkout \<Rightarrow> unit res \<times> checkout" where
  "copy_if_nonempty from to c =
    (if files c to \<noteq> None then (Inr (), c)
     else case files c from of
         None \<Rightarrow> (Inr (), c)
       | Some contents \<Rightarrow>
           if io c (ReadOp from) \<noteq> Done \<or> trim contents = [] then (Inr (), c)
           else (case fs_write to contents c of
               (ok, c') \<Rightarrow> (ensure ok (Bail (''Failed to write '' @ to)), c')))"

fun copy_each :: "(string \<times> string) list \<Rightarrow> checkout \<Rightarrow> unit res \<times> checkout" where
  "copy_each [] c = (Inr (), c)"
| "copy_each ((from, to) # ps) c =
    (case copy_if_nonempty from to c of
       (Inl e, c1) \<Rightarrow> (Inl e, c1)
     | (Inr _, c1) \<Rightarrow> copy_each ps c1)"

definition legacy_copies :: "(string \<times> string) list" where
  "legacy_copies =
    map (\<lambda>f. (''.ferrus/'' @ f, ''.ferrus/runs/t-001/'' @ f))
      [''REVIEW.md'', ''SUBMISSION.md'', ''QUESTION.md'', ''ANSWER.md'', ''CONSULT_REQUEST.md'',
       ''CONSULT_RESPONSE.md'']"

text \<open>\<open>template\<close> is the text of \<open>templates::TASK_TEMPLATE\<close>.\<close>

definition restore_template :: "string \<Rightarrow> checkout \<Rightarrow> unit res \<times> checkout" where
  "restore_template template c =
    (case fs_write ''.ferrus/TASK.md'' template c of
       (ok, c') \<Rightarrow> (ensure ok (Bail ''Failed to restore .ferrus/TASK.md template''), c'))"

definition copy_legacy_artifacts :: "string \<Rightarrow> bool \<Rightarrow> checkout \<Rightarrow> unit res \<times> checkout" where
  "copy_legacy_artifacts template copy_task c =
    (case (if copy_task then copy_if_nonempty ''.ferrus/TASK.md'' ''.ferrus/tasks/t-001.md'' c
           else (Inr (), c)) of
       (Inl e, c1) \<Rightarrow> (Inl e, c1)
     | (Inr _, c1) \<Rightarrow>
         (case restore_template template c1 of
            (Inl e, c2) \<Rightarrow> (Inl e, c2)
          | (Inr _, c2) \<Rightarrow>
              if \<not> copy_task then (Inr (), c2)
              else if io c2 (MkdirOp ''.ferrus/runs/t-001'') \<noteq> Done
              then (Inl (Bail ''Failed to create .ferrus/runs/t-001''), c2)
              else copy_each legacy_copies c2))"


fun remove_files :: "string list \<Rightarrow> checkout \<Rightarrow> unit res \<times> checkout" where
  "remove_files [] c = (Inr (), c)"
| "remove_files (p # ps) c =
    (case remove_artifact_path p False c of
       (Inl e, c1) \<Rightarrow> (Inl e, c1)
     | (Inr _, c1) \<Rightarrow> remove_files ps c1)"

definition remove_legacy_state_files :: "checkout \<Rightarrow> unit res \<times> checkout" where
  "remove_legacy_state_files c = remove_files [''.ferrus/STATE.json'', ''.ferrus/STATE.lock''] c"

text \<open>The step that depends on the decoded legacy state; \<open>legacy\<close> is the result of reading it.\<close>

definition migrate_legacy_state ::
  "string \<Rightarrow> LegacyStateData res \<Rightarrow> checkout \<Rightarrow> db \<Rightarrow> unit res \<times> checkout \<times> db" where
  "migrate_legacy_state template legacy c d =
    (case legacy of
       Inl _ \<Rightarrow> (case copy_legacy_artifacts template False c of (r, c1) \<Rightarrow> (r, c1, d))
     | Inr state \<Rightarrow>
         (case migrate_legacy_project_selection state d of
            Inl e \<Rightarrow> (Inl e, c, d)
          | Inr d1 \<Rightarrow>
              if legacy_state state \<noteq> LegacyIdle
              then (case copy_legacy_artifacts template True c of
                  (Inl e, c1) \<Rightarrow> (Inl e, c1, d1)
                | (Inr _, c1) \<Rightarrow> (case migrate_legacy_active_task state d1 of (r, d2) \<Rightarrow> (r, c1, d2)))
              else (case copy_legacy_artifacts template False c of (r, c1) \<Rightarrow> (r, c1, d1))))"

definition migrate_current_project ::
  "string \<Rightarrow> string \<Rightarrow> LegacyStateData res \<Rightarrow> checkout \<Rightarrow> db \<Rightarrow> unit res \<times> checkout \<times> db" where
  "migrate_current_project ts template legacy c d =
    (if io c (MkdirOp ''.ferrus/tasks'') \<noteq> Done then (Inl (Bail ''Failed to create .ferrus/tasks''), c, d)
     else if io c (MkdirOp ''.ferrus/runs'') \<noteq> Done then (Inl (Bail ''Failed to create .ferrus/runs''), c, d)
     else case migrate_legacy_state template legacy c d of
         (Inl e, c1, d1) \<Rightarrow> (Inl e, c1, d1)
       | (Inr _, c1, d1) \<Rightarrow>
           (case remove_legacy_state_files c1 of
              (r, c2) \<Rightarrow> (r, c2, retire_legacy_current_task_row ts d1)))"


section \<open>Task numbers\<close>

lemma max_task_number_step:
  "foldl (\<lambda>m i. case parse_task_number i of None \<Rightarrow> m | Some n \<Rightarrow> max m n) k ids =
    max k (max_task_number ids)"
proof (induction ids arbitrary: k)
  case Nil
  show ?case by (simp add: max_task_number_def)
next
  case (Cons i ids)
  show ?case
  proof (cases "parse_task_number i")
    case None
    then show ?thesis using Cons [of k] by (simp add: max_task_number_def)
  next
    case (Some n)
    have "max_task_number (i # ids) = max n (max_task_number ids)"
      using Some Cons [of "max 0 n"] by (simp add: max_task_number_def)
    then show ?thesis using Some Cons [of "max k n"] by (simp add: max.assoc)
  qed
qed

lemma max_task_number_upper:
  "i \<in> set ids \<Longrightarrow> parse_task_number i = Some n \<Longrightarrow> n \<le> max_task_number ids"
proof (induction ids)
  case (Cons j ids)
  have "max_task_number (j # ids) =
      max (case parse_task_number j of None \<Rightarrow> 0 | Some m \<Rightarrow> m) (max_task_number ids)"
    using max_task_number_step [of "case parse_task_number j of None \<Rightarrow> 0 | Some m \<Rightarrow> m" ids]
    by (auto simp: max_task_number_def split: option.splits)
  then show ?case using Cons by auto
qed simp

lemma parse_task_id_text: "n < 2 ^ 32 \<Longrightarrow> parse_task_number (task_id_text n) = Some n"
  by (simp add: parse_task_number_def task_id_text_def strip_prefix_def parse_show_u32)

lemma task_id_text_fresh:
  assumes "max_task_number_in_database d < n" "n < 2 ^ 32"
  shows "find_task (task_id_text n) d = None"
proof -
  have "like_task_id (task_id_text n)" by (simp add: like_task_id_def task_id_text_def)
  then have "n \<le> max_task_number_in_database d" if "task_id_text n \<in> t_id ` set (tasks d)"
    unfolding max_task_number_in_database_def
    using that by (intro max_task_number_upper [OF _ parse_task_id_text [OF assms(2)]]) simp
  then have "task_id_text n \<notin> t_id ` set (tasks d)"
    using assms(1) by auto
  then show ?thesis by (simp add: find_task_None_iff)
qed

lemma strip_suffix_md_append: "strip_suffix_md (f @ ''.md'') = f"
  by (simp add: strip_suffix_md_def)

lemma file_name_fresh:
  assumes "max_task_number_from_files ns < n" "n < 2 ^ 32"
  shows "task_id_text n @ ''.md'' \<notin> set ns"
proof
  assume "task_id_text n @ ''.md'' \<in> set ns"
  then have "task_id_text n \<in> set (map strip_suffix_md ns)"
    by (force simp: strip_suffix_md_append image_iff)
  then have "n \<le> max_task_number_from_files ns"
    unfolding max_task_number_from_files_def
    by (rule max_task_number_upper [OF _ parse_task_id_text [OF assms(2)]])
  then show False using assms(1) by simp
qed

text \<open>The first number the search tries is already free.\<close>

lemma reserve_from_fresh:
  assumes "max_task_number_in_database d < n" "n < 2 ^ 32"
  shows "reserve_from n d = Inr (task_artifact n,
    insert_task (new_task_row (task_id_text n) (''.ferrus/tasks/'' @ task_id_text n @ ''.md'') (as_str Unknown) None None) d)"
  using task_id_text_fresh [OF assms]
  by (subst reserve_from.simps) (simp add: task_artifact_def Let_def)

lemma reserve_task_artifact_eq:
  assumes "io c (MkdirOp ''.ferrus/tasks'') = Done" "io c (MkdirOp ''.ferrus/runs'') = Done"
    and "n = max (max_task_number_from_files ns) (max_task_number_in_database d) + 1"
  shows "reserve_task_artifact (Inr ns) c d =
    (if n < 2 ^ 32
     then (Inr (task_artifact n), insert_task (new_task_row (task_id_text n)
             (''.ferrus/tasks/'' @ task_id_text n @ ''.md'') (as_str Unknown) None None) d)
     else (Inl exhausted, d))"
proof -
  have res: "reserve_task_artifact (Inr ns) c d =
      (case (if n < 2 ^ 32 then reserve_from n d else Inl exhausted) of
         Inl e \<Rightarrow> (Inl e, d) | Inr (a, d') \<Rightarrow> (Inr a, d'))"
    using assms(1,2) unfolding reserve_task_artifact_def run_tx_def Let_def assms(3) by simp
  have "max_task_number_in_database d < n" using assms(3) by auto
  then show ?thesis unfolding res using reserve_from_fresh by simp
qed

text \<open>C19: reserving a task identity always gives a new one. When the two directories can be created, the
  reservation takes the number after the greatest one used by a task row or a task file; no row has that
  identity and no file that name, exactly one reservation row is added, and it fails only when the
  number would not fit 32 bits, leaving the database as it was.\<close>

theorem reservation_is_fresh:
  assumes "io c (MkdirOp ''.ferrus/tasks'') = Done" "io c (MkdirOp ''.ferrus/runs'') = Done"
    and "n = max (max_task_number_from_files ns) (max_task_number_in_database d) + 1"
  shows "if n < 2 ^ 32
    then reserve_task_artifact (Inr ns) c d = (Inr (task_artifact n),
           insert_task (new_task_row (task_id_text n) (''.ferrus/tasks/'' @ task_id_text n @ ''.md'')
             (as_str Unknown) None None) d) \<and>
         parse_task_number (task_id_text n) = Some n \<and>
         find_task (task_id_text n) d = None \<and> task_id_text n @ ''.md'' \<notin> set ns
    else reserve_task_artifact (Inr ns) c d = (Inl exhausted, d)"
proof -
  have "max_task_number_from_files ns < n" "max_task_number_in_database d < n"
    using assms(3) by auto
  then show ?thesis
    using reserve_task_artifact_eq [OF assms] task_id_text_fresh file_name_fresh parse_task_id_text by simp
qed

theorem reservation_is_fresh_witness:
  "fst (reserve_task_artifact (Inr [''t-007.md'', ''notes.md'']) torn_checkout leased_db) =
     Inr \<lparr> ta_id = ''t-008'', ta_path = ''.ferrus/tasks/t-008.md'', ta_run_dir = ''.ferrus/runs/t-008'' \<rparr>"
proof -
  have strip: "map strip_suffix_md [''t-007.md'', ''notes.md''] = [''t-007'', ''notes'']"
    and ids: "filter like_task_id (map t_id (tasks leased_db)) = [''t-001'']"
    and io: "io torn_checkout (MkdirOp ''.ferrus/tasks'') = Done" "io torn_checkout (MkdirOp ''.ferrus/runs'') = Done"
    by code_simp+
  have "parse_task_number ''t-007'' = Some 7" "parse_task_number ''t-001'' = Some 1"
    "parse_task_number ''notes'' = None"
    by (simp_all add: parse_task_number_def strip_prefix_def parse_u32_def is_digit_def digits_val_def byte_val_def)
  then have files: "max_task_number_from_files [''t-007.md'', ''notes.md''] = 7"
    and rows: "max_task_number_in_database leased_db = 1"
    unfolding max_task_number_from_files_def max_task_number_in_database_def strip ids max_task_number_def
    by simp_all
  have a: "task_artifact 8 = \<lparr> ta_id = ''t-008'', ta_path = ''.ferrus/tasks/t-008.md'',
      ta_run_dir = ''.ferrus/runs/t-008'' \<rparr>"
    by code_simp
  have n: "8 = max (max_task_number_from_files [''t-007.md'', ''notes.md''])
      (max_task_number_in_database leased_db) + 1"
    unfolding files rows by simp
  have "(8 :: nat) < 2 ^ 32" by simp
  then have "reserve_task_artifact (Inr [''t-007.md'', ''notes.md'']) torn_checkout leased_db =
      (Inr (task_artifact 8), insert_task (new_task_row (task_id_text 8)
         (''.ferrus/tasks/'' @ task_id_text 8 @ ''.md'') (as_str Unknown) None None) leased_db)"
    using reservation_is_fresh [OF io n] by argo
  then show ?thesis unfolding a by simp
qed


section \<open>Creation of a pending task\<close>

lemma reserve_task_artifact_ok:
  assumes "reserve_task_artifact names c d = (Inr a, d1)"
  obtains n where "a = task_artifact n" "find_task (ta_id a) d = None"
    "d1 = insert_task (new_task_row (ta_id a) (ta_path a) (as_str Unknown) None None) d"
proof -
  obtain ns where ns: "names = Inr ns"
    and io: "io c (MkdirOp ''.ferrus/tasks'') = Done" "io c (MkdirOp ''.ferrus/runs'') = Done"
    using assms by (auto simp: reserve_task_artifact_def split: if_splits sum.splits)
  define n where "n = max (max_task_number_from_files ns) (max_task_number_in_database d) + 1"
  note eq = reserve_task_artifact_eq [OF io n_def]
  have n: "n < 2 ^ 32" using assms unfolding ns eq by (auto split: if_splits)
  have a: "a = task_artifact n"
    and d1: "d1 = insert_task (new_task_row (ta_id a) (ta_path a) (as_str Unknown) None None) d"
    using assms n unfolding ns eq task_artifact_def Let_def by auto
  have "max_task_number_in_database d < n" by (simp add: n_def)
  then have "find_task (ta_id a) d = None"
    using task_id_text_fresh [OF _ n] unfolding a by (simp add: task_artifact_def Let_def)
  then show thesis using that a d1 by blast
qed

lemma reserve_task_artifact_err: "reserve_task_artifact names c d = (Inl e, d1) \<Longrightarrow> d1 = d"
  by (auto simp: reserve_task_artifact_def run_tx_def Let_def split: if_splits sum.splits)

lemma finalize_err:
  "finalize_task_artifact_reservation a s m d = (Inl e, d') \<Longrightarrow> d' = d"
  by (auto simp: finalize_task_artifact_reservation_def run_tx_def split: sum.splits)

lemma finalize_ok:
  assumes "finalize_task_artifact_reservation a s m d = (Inr u, d')"
  shows "origin_duplicate (ta_id a) s m d = Inr ()"
    and "d' = append_event None ''task_status_changed''
      (JObj [(''task_id'', JStr (ta_id a)), (''status'', JStr (as_str Pending))])
      (update_tasks (\<lambda>t. t_id t = ta_id a \<and> t_status t = as_str Unknown)
        (\<lambda>t. t \<lparr> t_status := as_str Pending, t_spec_path := s, t_milestone_id := m \<rparr>) d)"
  using assms
  by (auto simp: finalize_task_artifact_reservation_def finalize_tx_def run_tx_def res_bind_Inr_iff Let_def
      split: sum.splits if_splits)

lemma fill_artifact_err:
  assumes "fill_artifact a description s m c d = (Inl e, c', d')"
  shows "d' = d" and "io c' = io c"
proof -
  obtain ok c1 where w: "fs_write (ta_path a) description c = (ok, c1)" by fastforce
  obtain r d1 where f: "finalize_task_artifact_reservation a s m d = (r, d1)" by fastforce
  note io1 = fs_write_cases(1) [OF w]
  have "(d' = d \<or> (d' = d1 \<and> r = Inl e)) \<and> c' = c1"
    using assms unfolding fill_artifact_def w f by (auto split: bool.splits if_splits)
  then show "d' = d" and "io c' = io c"
    using io1 finalize_err f by blast+
qed

lemma fill_artifact_ok:
  assumes "fill_artifact a description s m c d = (Inr u, c', d')"
  shows "finalize_task_artifact_reservation a s m d = (Inr u, d')"
    and "c' = set_file (ta_path a) description c"
proof -
  obtain ok c1 where w: "fs_write (ta_path a) description c = (ok, c1)" by fastforce
  obtain r d1 where f: "finalize_task_artifact_reservation a s m d = (r, d1)" by fastforce
  have "ok \<and> c' = c1 \<and> (r, d1) = (Inr u, d')"
    using assms unfolding fill_artifact_def w f by (auto split: bool.splits if_splits)
  then show "finalize_task_artifact_reservation a s m d = (Inr u, d')"
    and "c' = set_file (ta_path a) description c"
    using f fs_write_cases(5) [OF w] by auto
qed

lemma find_task_NoneD: "find_task k d = None \<Longrightarrow> t \<in> set (tasks d) \<Longrightarrow> t_id t \<noteq> k"
  unfolding find_task_None_iff by (metis image_eqI)

lemma discard_reservation:
  assumes "keys_ok d" "find_task (ta_id a) d = None"
    and "io c (RemoveFileOp (ta_path a)) = Done" "io c (RemoveDirOp (ta_run_dir a)) = Done"
  shows "\<exists>c'. discard_task_artifact_reservation a c
    (insert_task (new_task_row (ta_id a) p (as_str Unknown) None None) d) = (Inr (), c', d)"
proof -
  let ?P = "\<lambda>t. t_id t = ta_id a \<and> t_status t = as_str Unknown"
  let ?row = "new_task_row (ta_id a) p (as_str Unknown) None None"
  have no: "\<forall>t\<in>set (tasks d). t_id t \<noteq> ta_id a"
    using find_task_NoneD [OF assms(2)] by blast
  then have "filter (\<lambda>t. \<not> ?P t) (tasks (insert_task ?row d)) = tasks d"
    by (auto simp: insert_task_def new_task_row_def filter_id_conv)
  moreover have "\<not> (\<exists>r\<in>set (runs d). r_task_id r \<in> t_id ` set (filter ?P (tasks (insert_task ?row d))))"
  proof -
    have "r_task_id ` set (runs d) \<subseteq> t_id ` set (tasks d)"
      using assms(1) by (simp add: keys_ok_def)
    moreover have "ta_id a \<notin> t_id ` set (tasks d)"
      using assms(2) by (simp add: find_task_None_iff)
    ultimately have not_run: "ta_id a \<notin> r_task_id ` set (runs d)" by blast
    have sub: "t_id ` set (filter ?P (tasks (insert_task ?row d))) \<subseteq> {ta_id a}" by auto
    show ?thesis
    proof (rule notI, elim bexE)
      fix r assume r: "r \<in> set (runs d)" "r_task_id r \<in> t_id ` set (filter ?P (tasks (insert_task ?row d)))"
      have "r_task_id r = ta_id a" by (rule singletonD [OF subsetD [OF sub r(2)]])
      then show False using not_run imageI [OF r(1), of r_task_id] by argo
    qed
  qed
  ultimately have "delete_tasks ?P (insert_task ?row d) = Inr d"
    by (simp add: delete_tasks_def insert_task_def)
  then show ?thesis
    using assms(3,4) by (simp add: discard_task_artifact_reservation_def remove_artifact_path_def
        fs_remove_dir_def Let_def)
qed

lemma finalize_row:
  assumes "find_task (ta_id a) d = None"
    and "finalize_task_artifact_reservation a s m
      (insert_task (new_task_row (ta_id a) p (as_str Unknown) None None) d) = (Inr u, d')"
  shows "tasks d' = tasks d @ [new_task_row (ta_id a) p (as_str Pending) s m]"
proof -
  have "update_by (\<lambda>t. t_id t = ta_id a \<and> t_status t = as_str Unknown) f (tasks d) = tasks d" for f
    using find_task_NoneD [OF assms(1)] by (intro update_by_id) blast
  then show ?thesis
    using finalize_ok(2) [OF assms(2)]
    by (simp add: update_tasks_def insert_task_def update_by_def new_task_row_def)
qed


lemma create_pending_ok:
  assumes "create_pending_task_artifact names description s m c d = (Inr a, c', d')"
  shows "find_task (ta_id a) d = None" and "c' = set_file (ta_path a) description c"
    and "finalize_task_artifact_reservation a s m
      (insert_task (new_task_row (ta_id a) (ta_path a) (as_str Unknown) None None) d) = (Inr (), d')"
proof -
  obtain r d1 where res: "reserve_task_artifact names c d = (r, d1)" by fastforce
  obtain a1 where a1: "r = Inr a1"
    using assms res by (cases r) (auto simp: create_pending_task_artifact_def)
  obtain r2 c2 d2 where fill: "fill_artifact a1 description s m c d1 = (r2, c2, d2)" by (metis prod_cases3)
  obtain r3 c3 d3 where disc: "discard_task_artifact_reservation a1 c2 d2 = (r3, c3, d3)" by (metis prod_cases3)
  have out: "r2 = Inr ()" "a = a1" "c' = c2" "d' = d2"
    using assms unfolding create_pending_task_artifact_def res a1
    by (cases r2; cases r3; simp add: fill disc)+
  show "find_task (ta_id a) d = None"
    using reserve_task_artifact_ok [OF res [unfolded a1]] out(2) by metis
  show "c' = set_file (ta_path a) description c"
    using fill_artifact_ok(2) [OF fill [unfolded out(1)]] out by simp
  show "finalize_task_artifact_reservation a s m
      (insert_task (new_task_row (ta_id a) (ta_path a) (as_str Unknown) None None) d) = (Inr (), d')"
    using fill_artifact_ok(1) [OF fill [unfolded out(1)]] reserve_task_artifact_ok [OF res [unfolded a1]] out
    by metis
qed




section \<open>One open task per milestone\<close>

definition open_for :: "string \<Rightarrow> string \<Rightarrow> task_row \<Rightarrow> bool" where
  "open_for s m t = (t_spec_path t = Some s \<and> t_milestone_id t = Some m \<and> open_status (t_status t))"

definition origins_unique :: "db \<Rightarrow> bool" where
  "origins_unique d =
    (\<forall>t\<in>set (tasks d). \<forall>u\<in>set (tasks d). \<forall>s m. open_for s m t \<and> open_for s m u \<longrightarrow> t_id t = t_id u)"

lemma find_by_origin_None:
  "find_non_terminal_task_by_origin s m d = None \<longleftrightarrow> (\<forall>t\<in>set (tasks d). \<not> open_for s m t)"
  by (auto simp: find_non_terminal_task_by_origin_def open_for_def filter_empty_conv)

lemma no_row_ok: "(case limit_1 rows of None \<Rightarrow> Inr () | Some t \<Rightarrow> Inl (f t)) = Inr () \<longleftrightarrow> rows = []"
  by (cases rows) (auto simp: limit_1_def)

lemma origin_duplicate_ok:
  "origin_duplicate tid (Some s) (Some m) d = Inr () \<longleftrightarrow>
    (\<forall>t\<in>set (tasks d). t_id t \<noteq> tid \<longrightarrow> \<not> open_for s m t)"
proof -
  let ?P = "\<lambda>t. t_spec_path t = Some s \<and> t_milestone_id t = Some m \<and> t_id t \<noteq> tid \<and> open_status (t_status t)"
  have "origin_duplicate tid (Some s) (Some m) d = Inr () \<longleftrightarrow> filter ?P (tasks d) = []"
    unfolding origin_duplicate_def prod.case option.case no_row_ok order_by_Nil_iff ..
  then show ?thesis by (auto simp: open_for_def filter_empty_conv)
qed

text \<open>C23: a milestone never gets a second open task. Creating a task for a milestone succeeds only when no
  task of that milestone is open, afterwards the new task is the one found for the milestone, and if
  every milestone had at most one open task before, the same holds after.\<close>

theorem one_open_task_per_milestone:
  assumes "db_inv d"
    and "create_pending_task_artifact names description (Some s) (Some m) c d = (Inr a, c', d')"
  shows "find_non_terminal_task_by_origin s m d = None \<and>
    map_option tr_id (find_non_terminal_task_by_origin s m d') = Some (ta_id a) \<and>
    (origins_unique d \<longrightarrow> origins_unique d')"
proof -
  note ok = create_pending_ok [OF assms(2)]
  let ?new = "new_task_row (ta_id a) (ta_path a) (as_str Pending) (Some s) (Some m)"
  have rows: "tasks d' = tasks d @ [?new]" by (rule finalize_row [OF ok(1,3)])
  have "\<forall>t\<in>set (tasks d). t_id t \<noteq> ta_id a \<longrightarrow> \<not> open_for s m t"
    using finalize_ok(1) [OF ok(3)] unfolding origin_duplicate_ok by (simp add: insert_task_def)
  then have none: "\<forall>t\<in>set (tasks d). \<not> open_for s m t"
    using find_task_NoneD [OF ok(1)] by blast
  have new: "open_for s m ?new"
    by (simp add: open_for_def new_task_row_def open_status_def as_str.simps)
  have only: "filter (\<lambda>t. t_spec_path t = Some s \<and> t_milestone_id t = Some m \<and> open_status (t_status t)) (tasks d') = [?new]"
    using none new unfolding rows open_for_def by (simp add: filter_empty_conv)
  have found: "map_option tr_id (find_non_terminal_task_by_origin s m d') = Some (ta_id a)"
    unfolding find_non_terminal_task_by_origin_def only
    by (simp add: order_by_def limit_1_def task_record_from_row_def)
  have "open_for s' m' ?new \<longleftrightarrow> s' = s \<and> m' = m" for s' m'
    using new by (auto simp: open_for_def new_task_row_def)
  then have "origins_unique d \<longrightarrow> origins_unique d'"
    using none unfolding origins_unique_def rows by auto
  then show ?thesis using none found by (simp add: find_by_origin_None)
qed


lemma sample_reservation:
  "reserve_task_artifact (Inr []) torn_checkout empty_db =
    (Inr (task_artifact 1), insert_task (new_task_row ''t-001'' ''.ferrus/tasks/t-001.md'' (as_str Unknown) None None) empty_db)"
proof -
  have io: "io torn_checkout (MkdirOp ''.ferrus/tasks'') = Done" "io torn_checkout (MkdirOp ''.ferrus/runs'') = Done"
    and n: "1 = max (max_task_number_from_files []) (max_task_number_in_database empty_db) + 1"
    and t: "task_id_text 1 = ''t-001''"
    by code_simp+
  show ?thesis using reserve_task_artifact_eq [OF io n] unfolding t by simp
qed

theorem one_open_task_per_milestone_witness:
  "\<exists>c' d'. create_pending_task_artifact (Inr []) ''work'' (Some ''a.md'') (Some ''m1'') torn_checkout empty_db =
      (Inr (task_artifact 1), c', d') \<and>
    map_option tr_id (find_non_terminal_task_by_origin ''a.md'' ''m1'' d') = Some ''t-001''"
proof -
  let ?fill = "fill_artifact (task_artifact 1) ''work'' (Some ''a.md'') (Some ''m1'') torn_checkout
      (insert_task (new_task_row ''t-001'' ''.ferrus/tasks/t-001.md'' (as_str Unknown) None None) empty_db)"
  have ok: "is_ok (fst ?fill)" and t: "ta_id (task_artifact 1) = ''t-001''"
    by code_simp+
  obtain r c' d' where fill: "?fill = (r, c', d')" by (metis prod_cases3)
  then have r: "r = Inr ()" using ok by (cases r) auto
  have create: "create_pending_task_artifact (Inr []) ''work'' (Some ''a.md'') (Some ''m1'') torn_checkout empty_db =
      (Inr (task_artifact 1), c', d')"
    unfolding create_pending_task_artifact_def sample_reservation prod.case sum.case fill r ..
  then show ?thesis
    using one_open_task_per_milestone [OF db_inv_empty create] t by simp
qed


section \<open>Order of the listings\<close>

lemma question_order_iff:
  "question_order_le a b \<longleftrightarrow>
    (case (t_human_question_order a, t_human_question_order b) of
       (None, None) \<Rightarrow> t_id a \<le> t_id b
     | (None, Some _) \<Rightarrow> True
     | (Some _, None) \<Rightarrow> False
     | (Some x, Some y) \<Rightarrow> x < y \<or> (x = y \<and> t_id a \<le> t_id b))"
  by (auto simp: question_order_le_def Let_def split: option.splits)

interpretation question_order: row_order question_order_le
proof
  show "question_order_le x y \<or> question_order_le y x" for x y
    by (auto simp: question_order_iff split: option.splits)
  show "question_order_le x z" if "question_order_le x y" "question_order_le y z" for x y z
    using that by (auto simp: question_order_iff split: option.splits)
qed

interpretation current_first: row_order current_first_le
proof
  show "current_first_le x y \<or> current_first_le y x" for x y
    by (auto simp: current_first_le_def Let_def)
  show "current_first_le x z" if "current_first_le x y" "current_first_le y z" for x y z
    using that by (auto simp: current_first_le_def Let_def split: if_splits)
qed

interpretation newest_event: row_order event_id_desc_le
  by unfold_locales (auto simp: event_id_desc_le_def)

lemma length_filter_insert_by:
  "length (filter P (insert_by le x ys)) = length (filter P (x # ys))"
  by (induction ys) auto

lemma length_filter_order_by: "length (filter P (order_by le rows)) = length (filter P rows)"
  unfolding order_by_def by (induction rows) (simp_all add: length_filter_insert_by)


section \<open>Recovery of recorded answers\<close>

definition has_answer :: "checkout \<Rightarrow> string \<Rightarrow> bool" where
  "has_answer c tid = (trim (unwrap_or_default (read_answer_for_run_dir (run_dir_for_task tid) c)) \<noteq> [])"

definition recorded_row :: "task_row \<Rightarrow> task_row" where
  "recorded_row t = t \<lparr> t_human_answer_recorded := True \<rparr>"

lemma record_task_human_answer_row:
  assumes "db_inv d" "find_task tid d = Some t" "t_status t = as_str AwaitingHuman"
  obtains d' where "record_task_human_answer tid d = (Inr (), d')" "db_inv d'" "runs d' = runs d"
    "\<And>k. find_task k d' = map_option (\<lambda>t. if k = tid then recorded_row t else t) (find_task k d)"
proof -
  let ?W = "\<lambda>t. t_id t = tid \<and> t_status t = as_str AwaitingHuman"
  let ?d = "append_event None ''task_human_answer_recorded'' (JObj [(''task_id'', JStr tid)])
      (update_tasks ?W (\<lambda>t. t \<lparr> t_human_answer_recorded := True \<rparr>) d)"
  have "\<exists>t\<in>set (tasks d). ?W t"
    using find_task_in [OF assms(2)] task_table.get_key [OF assms(2)] assms(3) by blast
  then have run: "record_task_human_answer tid d = (Inr (), ?d)"
    by (simp add: record_task_human_answer_def record_task_human_answer_tx_def run_tx_def Let_def)
  have rows: "find_task k ?d = map_option (\<lambda>t. if k = tid then recorded_row t else t) (find_task k d)" for k
  proof (cases "find_task k d")
    case (Some u)
    then show ?thesis
      using task_table.get_key [OF Some] assms(2,3)
      by (auto simp: find_task_update_tasks recorded_row_def)
  qed (simp add: find_task_update_tasks)
  have "db_inv ?d"
    by (intro inv_intros) (auto simp: assms(1) task_ok_def)
  then show thesis using that [OF run] rows by simp
qed

lemma record_answers_rows:
  assumes "db_inv d" "\<forall>t\<in>set ts. \<exists>u. find_task (t_id t) d = Some u \<and> t_status u = as_str AwaitingHuman"
  shows "\<exists>d'. record_answers c (map (human_question c) ts) n d =
      (Inr (n + length (filter (\<lambda>t. has_answer c (t_id t)) ts)), d') \<and> db_inv d' \<and> runs d' = runs d \<and>
    (\<forall>k. find_task k d' = map_option
      (\<lambda>t. if k \<in> t_id ` set (filter (\<lambda>t. has_answer c (t_id t)) ts) then recorded_row t else t) (find_task k d))"
  using assms
proof (induction ts arbitrary: n d)
  case Nil
  then show ?case by (simp add: option.map_ident)
next
  case (Cons t ts)
  have q: "hq_run_dir (human_question c t) = run_dir_for_task (t_id t)" "hq_task_id (human_question c t) = t_id t"
    by (simp_all add: human_question_def Let_def)
  show ?case
  proof (cases "has_answer c (t_id t)")
    case False
    then have "record_answers c (map (human_question c) (t # ts)) n d = record_answers c (map (human_question c) ts) n d"
      by (simp add: q has_answer_def)
    then show ?thesis using Cons False by simp
  next
    case True
    obtain u where u: "find_task (t_id t) d = Some u" "t_status u = as_str AwaitingHuman" using Cons.prems by auto
    obtain d1 where d1: "record_task_human_answer (t_id t) d = (Inr (), d1)" "db_inv d1" "runs d1 = runs d"
      and rows: "\<And>k. find_task k d1 = map_option (\<lambda>t'. if k = t_id t then recorded_row t' else t') (find_task k d)"
      by (rule record_task_human_answer_row [OF Cons.prems(1) u]) blast
    have step: "record_answers c (map (human_question c) (t # ts)) n d =
        record_answers c (map (human_question c) ts) (n + 1) d1"
      using True d1(1) by (simp add: q has_answer_def)
    have "\<forall>t\<in>set ts. \<exists>u. find_task (t_id t) d1 = Some u \<and> t_status u = as_str AwaitingHuman"
    proof
      fix t' assume "t' \<in> set ts"
      then obtain v where "find_task (t_id t') d = Some v" "t_status v = as_str AwaitingHuman"
        using Cons.prems(2) by auto
      then show "\<exists>u. find_task (t_id t') d1 = Some u \<and> t_status u = as_str AwaitingHuman"
        by (simp add: rows recorded_row_def)
    qed
    from Cons.IH [OF d1(2) this, of "n + 1"] obtain d2
      where d2: "record_answers c (map (human_question c) ts) (n + 1) d1 =
          (Inr (n + 1 + length (filter (\<lambda>t. has_answer c (t_id t)) ts)), d2)" "db_inv d2" "runs d2 = runs d1"
        and rows2: "\<And>k. find_task k d2 = map_option (\<lambda>t. if k \<in> t_id ` set (filter (\<lambda>t. has_answer c (t_id t)) ts)
          then recorded_row t else t) (find_task k d1)" by blast
    have "find_task k d2 = map_option (\<lambda>t'. if k \<in> t_id ` set (filter (\<lambda>t. has_answer c (t_id t)) (t # ts))
        then recorded_row t' else t') (find_task k d)" for k
      using True by (cases "find_task k d") (auto simp: rows2 rows recorded_row_def)
    then show ?thesis unfolding step using True d1(3) d2 by simp
  qed
qed

lemma recover_answers_rows:
  assumes "db_inv d"
  obtains d' where "recover_recorded_human_answers c d =
      (Inr (count_by (\<lambda>t. unanswered t \<and> has_answer c (t_id t)) (tasks d)), d')"
    "db_inv d'" "runs d' = runs d"
    "\<And>k. find_task k d' = map_option
       (\<lambda>t. if unanswered t \<and> has_answer c k then recorded_row t else t) (find_task k d)"
proof -
  let ?A = "\<lambda>t. has_answer c (t_id t)"
  let ?ts = "order_by question_order_le (filter unanswered (tasks d))"
  note keys = db_inv_keys [OF assms]
  have wait: "\<forall>t\<in>set ?ts. \<exists>u. find_task (t_id t) d = Some u \<and> t_status u = as_str AwaitingHuman"
    using find_task_iff [OF keys] by (auto simp: unanswered_def)
  obtain d' where d': "recover_recorded_human_answers c d = (Inr (length (filter ?A ?ts)), d')"
      "db_inv d'" "runs d' = runs d"
    and rows: "\<And>k. find_task k d' =
      map_option (\<lambda>t. if k \<in> t_id ` set (filter ?A ?ts) then recorded_row t else t) (find_task k d)"
    using record_answers_rows [OF assms wait, of c 0]
    by (auto simp: recover_recorded_human_answers_def list_human_questions_def)
  have mem: "k \<in> t_id ` set (filter ?A ?ts) \<longleftrightarrow> unanswered t \<and> has_answer c k" if "find_task k d = Some t" for k t
  proof
    assume "k \<in> t_id ` set (filter ?A ?ts)"
    then obtain u where u: "u \<in> set (tasks d)" "t_id u = k" "unanswered u" "has_answer c k" by auto
    then have "find_task k d = Some u" using find_task_iff [OF keys] by blast
    then show "unanswered t \<and> has_answer c k" using that u by simp
  next
    assume "unanswered t \<and> has_answer c k"
    then show "k \<in> t_id ` set (filter ?A ?ts)"
      using find_task_in [OF that] task_table.get_key [OF that] by (intro image_eqI [of _ _ t]) auto
  qed
  have "find_task k d' = map_option (\<lambda>t. if unanswered t \<and> has_answer c k then recorded_row t else t)
      (find_task k d)" for k
    using rows mem by (cases "find_task k d") auto
  moreover have "length (filter ?A ?ts) = count_by (\<lambda>t. unanswered t \<and> ?A t) (tasks d)"
    by (simp add: length_filter_order_by count_by_def conj_commute)
  ultimately show thesis using that d' by simp
qed

lemma no_question_answered:
  assumes "db_inv d'" "\<And>k. find_task k d' = map_option
      (\<lambda>t. if unanswered t \<and> has_answer c k then recorded_row t else t) (find_task k d)"
    and "q \<in> set (list_human_questions c d')"
  shows "\<not> has_answer c (hq_task_id q)"
proof
  assume a: "has_answer c (hq_task_id q)"
  obtain t where t: "t \<in> set (tasks d')" "unanswered t" and q: "hq_task_id q = t_id t"
    using assms(3) by (auto simp: list_human_questions_def human_question_def Let_def)
  have row: "find_task (t_id t) d' = Some t"
    using t(1) find_task_iff [OF db_inv_keys [OF assms(1)]] by blast
  then obtain v where "find_task (t_id t) d = Some v"
    using assms(2) [of "t_id t"] by (cases "find_task (t_id t) d") simp_all
  then have "t = (if unanswered v then recorded_row v else v)"
    using row assms(2) [of "t_id t"] a q by simp
  then show False using t(2) by (auto simp: recorded_row_def unanswered_def split: if_splits)
qed

text \<open>C24: recovery of human answers completes: it always succeeds and marks as answered exactly the
  waiting tasks whose answer file has text, reports their number, changes no other row and no run, and
  leaves no unanswered question with a written answer.\<close>

theorem recorded_answers_recovered:
  assumes "db_inv d"
  shows "\<exists>d'. recover_recorded_human_answers c d =
      (Inr (count_by (\<lambda>t. unanswered t \<and> has_answer c (t_id t)) (tasks d)), d') \<and>
    db_inv d' \<and> runs d' = runs d \<and>
    (\<forall>k. find_task k d' = map_option
       (\<lambda>t. if unanswered t \<and> has_answer c k then recorded_row t else t) (find_task k d)) \<and>
    (\<forall>q\<in>set (list_human_questions c d'). \<not> has_answer c (hq_task_id q))"
  by (rule recover_answers_rows [OF assms, of c]) (use no_question_answered in blast)

definition answered_checkout :: checkout where
  "answered_checkout = \<lparr> env_root = None, local_root = None,
     files = [''.ferrus/runs/t-001/ANSWER.md'' \<mapsto> ''yes''], io = (\<lambda>op. Done) \<rparr>"

theorem recorded_answers_recovered_witness:
  "\<exists>d'. recover_recorded_human_answers answered_checkout waiting_db = (Inr 1, d') \<and>
     find_task ''t-001'' d' = Some (recorded_row waiting_task)"
proof -
  have 1: "db_inv waiting_db" "find_task ''t-001'' waiting_db = Some waiting_task"
    "count_by (\<lambda>t. unanswered t \<and> has_answer answered_checkout (t_id t)) (tasks waiting_db) = 1"
    "unanswered waiting_task" "has_answer answered_checkout ''t-001''"
    by code_simp+
  from recorded_answers_recovered [OF 1(1), of answered_checkout] 1(2-) show ?thesis by auto
qed


section \<open>Start-up recovery\<close>

lemma live_ids_after_interrupt:
  assumes "runs d1 = map (\<lambda>r. if interrupted_run alive r then interrupt_row (ts (r_id r)) r else r) (runs d)"
  shows "live_active_run_task_ids alive d1 = live_active_run_task_ids alive d"
proof -
  have "interrupted_run alive r \<Longrightarrow> \<not> live_run alive r" "\<not> live_run alive (interrupt_row t r)" for r t
    by (auto simp: live_run_dead interrupted_run_def interrupt_row_def active_run_status_def)
  then have "live_run alive (if interrupted_run alive r then interrupt_row (ts (r_id r)) r else r) \<longleftrightarrow> live_run alive r"
    "live_run alive r \<Longrightarrow> r_task_id (if interrupted_run alive r then interrupt_row (ts (r_id r)) r else r) = r_task_id r" for r
    by auto
  then show ?thesis
    unfolding live_active_run_task_ids_def assms by (auto simp: filter_map comp_def image_image)
qed

lemma no_lease_left:
  assumes "db_inv d3" "tasks d2 = map (\<lambda>t. if expired_lease C now live t then clear_lease_row t else t) ts"
    and rows: "\<And>k. find_task k d3 = map_option
       (\<lambda>t. if unanswered t \<and> has_answer c k then recorded_row t else t) (find_task k d2)"
    and "t \<in> set (tasks d3)"
  shows "\<not> expired_lease C now live t"
proof -
  have none: "\<forall>u\<in>set (tasks d2). \<not> expired_lease C now live u"
    unfolding assms(2) by (auto simp: expired_lease_def)
  have "find_task (t_id t) d3 = Some t"
    using assms(4) find_task_iff [OF db_inv_keys [OF assms(1)]] by blast
  then obtain u where u: "find_task (t_id t) d2 = Some u" "t = u \<or> t = recorded_row u"
    using rows [of "t_id t"] by (cases "find_task (t_id t) d2") (auto split: if_splits)
  have "\<not> expired_lease C now live u" using none find_task_in [OF u(1)] by blast
  then show ?thesis using u(2) by (auto simp: expired_lease_def recorded_row_def)
qed

text \<open>C25: start-up recovery completes and leaves nothing to recover. On a well-formed database it always
  succeeds and reports the numbers the previews announced; afterwards no active run has a dead process,
  no lease is both expired and unused, no unanswered question has a written answer, and the database is
  well formed.\<close>

theorem runtime_recovery_completes:
  assumes "db_inv d"
  shows "\<exists>d'. recover_runtime_state C alive ts now c d =
      (Inr \<lparr> rec_interrupted_runs = preview_interrupted_runs alive d,
             rec_expired_task_leases = preview_expired_task_leases C alive now d \<rparr>, d') \<and>
    db_inv d' \<and> preview_interrupted_runs alive d' = 0 \<and> preview_expired_task_leases C alive now d' = 0 \<and>
    (\<forall>q\<in>set (list_human_questions c d'). \<not> has_answer c (hq_task_id q))"
proof -
  obtain d1 where d1: "recover_interrupted_runs alive ts d = (Inr (preview_interrupted_runs alive d), d1)"
      "tasks d1 = tasks d" "db_inv d1"
      "runs d1 = map (\<lambda>r. if interrupted_run alive r then interrupt_row (ts (r_id r)) r else r) (runs d)"
    by (rule recover_interrupted_eq [OF assms])
  note live1 = live_ids_after_interrupt [OF d1(4)]
  obtain d2 where d2: "recover_expired_task_leases C alive now d1 = (Inr (preview_expired_task_leases C alive now d1), d2)"
      "runs d2 = runs d1" "db_inv d2"
      "tasks d2 = map (\<lambda>t. if expired_lease C now (live_active_run_task_ids alive d1) t then clear_lease_row t else t) (tasks d1)"
    by (rule recover_expired_eq [OF d1(3)])
  obtain d3 where d3: "recover_recorded_human_answers c d2 =
      (Inr (count_by (\<lambda>t. unanswered t \<and> has_answer c (t_id t)) (tasks d2)), d3)" "db_inv d3" "runs d3 = runs d2"
    and rows: "\<And>k. find_task k d3 = map_option
       (\<lambda>t. if unanswered t \<and> has_answer c k then recorded_row t else t) (find_task k d2)"
    by (rule recover_answers_rows [OF d2(3)]) blast
  have "preview_interrupted_runs alive d3 = 0"
    unfolding preview_interrupted_runs_def d3(3) d2(2) d1(4) by auto
  moreover have "live_active_run_task_ids alive d3 = live_active_run_task_ids alive d1"
    using d3(3) d2(2) by (simp add: live_active_run_task_ids_def)
  then have "preview_expired_task_leases C alive now d3 = 0"
    using no_lease_left [OF d3(2) d2(4) rows] by (simp add: preview_expired_task_leases_def)
  moreover have "recover_runtime_state C alive ts now c d =
      (Inr \<lparr> rec_interrupted_runs = preview_interrupted_runs alive d,
             rec_expired_task_leases = preview_expired_task_leases C alive now d \<rparr>, d3)"
    using d1(2) live1 by (simp add: recover_runtime_state_def d1(1) d2(1) d3(1) preview_expired_task_leases_def)
  ultimately show ?thesis
    using d3(2) no_question_answered [OF d3(2) rows] by blast
qed

theorem runtime_recovery_completes_witness:
  "\<exists>d'. recover_runtime_state unary_chrono (\<lambda>p. False) (\<lambda>r. ''s2'') (9 * nanos) answered_checkout waiting_db =
      (Inr \<lparr> rec_interrupted_runs = 0, rec_expired_task_leases = 1 \<rparr>, d') \<and>
    preview_expired_task_leases unary_chrono (\<lambda>p. False) (9 * nanos) d' = 0"
proof -
  have "db_inv waiting_db" "preview_interrupted_runs (\<lambda>p. False) waiting_db = 0"
    "preview_expired_task_leases unary_chrono (\<lambda>p. False) (9 * nanos) waiting_db = 1"
    by code_simp+
  then show ?thesis
    using runtime_recovery_completes [of waiting_db unary_chrono "\<lambda>p. False" "\<lambda>r. ''s2''" "9 * nanos" answered_checkout]
    by auto
qed


section \<open>Preservation of the invariant\<close>

lemma db_inv_reserve_artifact: "reserve_task_artifact names c d = (r, d') \<Longrightarrow> db_inv d \<Longrightarrow> db_inv d'"
proof (cases r)
  case (Inr a)
  assume res: "reserve_task_artifact names c d = (r, d')" and inv: "db_inv d"
  obtain n where "find_task (ta_id a) d = None"
    "d' = insert_task (new_task_row (ta_id a) (ta_path a) (as_str Unknown) None None) d"
    using reserve_task_artifact_ok [OF res [unfolded Inr]] by metis
  then show ?thesis using inv by (auto intro!: inv_intros)
qed (auto dest: reserve_task_artifact_err)

lemma db_inv_finalize:
  assumes "finalize_task_artifact_reservation a s m d = (r, d')" "db_inv d"
  shows "db_inv d'"
proof (cases r)
  case (Inl e)
  then show ?thesis using assms finalize_err by blast
next
  case (Inr u)
  show ?thesis
    unfolding finalize_ok(2) [OF assms(1) [unfolded Inr]]
    using assms(2) by (intro db_inv_append_taskless db_inv_update_tasks) (auto simp: task_ok_def)
qed

lemma db_inv_delete_tasks:
  assumes "delete_tasks P d = Inr d'" "db_inv d"
  shows "db_inv d'"
proof -
  have d': "d' = d \<lparr> tasks := filter (\<lambda>t. \<not> P t) (tasks d) \<rparr>"
    and free: "\<And>r. r \<in> set (runs d) \<Longrightarrow> r_task_id r \<notin> t_id ` set (filter P (tasks d))"
    using assms(1) by (auto simp: delete_tasks_def split: if_splits)
  have "r_task_id ` set (runs d) \<subseteq> t_id ` set (tasks d)"
    using assms(2) by (simp add: db_inv_def keys_ok_def)
  then have "r_task_id r \<in> t_id ` set (filter (\<lambda>t. \<not> P t) (tasks d))" if "r \<in> set (runs d)" for r
    using free [OF that] that by auto
  then have "r_task_id ` set (runs d) \<subseteq> t_id ` set (filter (\<lambda>t. \<not> P t) (tasks d))" by blast
  then show ?thesis
    using assms(2) unfolding d' by (simp add: db_inv_def keys_ok_def events_ok_def distinct_map_filter)
qed

lemma db_inv_discard:
  assumes "discard_task_artifact_reservation a c d = (r, c', d')" "db_inv d"
  shows "db_inv d'"
proof -
  have "d' = d \<or> delete_tasks (\<lambda>t. t_id t = ta_id a \<and> t_status t = as_str Unknown) d = Inr d'"
    using assms(1) by (auto simp: discard_task_artifact_reservation_def split: prod.splits sum.splits)
  then show ?thesis using assms(2) db_inv_delete_tasks by blast
qed

lemma db_inv_create_pending:
  assumes "create_pending_task_artifact names description s m c d = (r, c', d')" "db_inv d"
  shows "db_inv d'"
proof -
  obtain q d1 where res: "reserve_task_artifact names c d = (q, d1)" by fastforce
  note inv1 = db_inv_reserve_artifact [OF res assms(2)]
  show ?thesis
  proof (cases q)
    case (Inl e)
    then show ?thesis using assms(1) inv1 unfolding create_pending_task_artifact_def res by simp
  next
    case (Inr a)
    obtain r2 c2 d2 where fill: "fill_artifact a description s m c d1 = (r2, c2, d2)" by (metis prod_cases3)
    obtain r3 c3 d3 where disc: "discard_task_artifact_reservation a c2 d2 = (r3, c3, d3)" by (metis prod_cases3)
    have inv2: "db_inv d2"
    proof (cases r2)
      case (Inl e)
      then show ?thesis using fill_artifact_err(1) fill inv1 by metis
    next
      case (Inr u)
      then show ?thesis using fill_artifact_ok(1) [OF fill [unfolded Inr]] db_inv_finalize inv1 by blast
    qed
    have "d' = d2 \<or> d' = d3"
      using assms(1) unfolding create_pending_task_artifact_def res Inr prod.case sum.case fill
      by (cases r2; cases r3; simp add: disc)
    then show ?thesis using inv2 db_inv_discard [OF disc inv2] by blast
  qed
qed


section \<open>Migration of the legacy task\<close>

definition resumed :: "LegacyStateData \<Rightarrow> string" where
  "resumed state =
    (case legacy_paused_state state of Some s \<Rightarrow> as_str (task_status_for_legacy_state s) | None \<Rightarrow> as_str Executing)"

lemma legacy_fields_simps [simp]:
  "t_id (legacy_fields state t) = t_id t"
  "t_status (legacy_fields state t) = t_status t"
  "t_check_retries (legacy_fields state t) = uint (legacy_check_retries state)"
  "t_review_cycles (legacy_fields state t) = uint (legacy_review_cycles state)"
  "t_failure_reason (legacy_fields state t) = legacy_failure_reason state"
  "t_paused_status (legacy_fields state t) = fst (legacy_pauses state)"
  "t_awaiting_human_status (legacy_fields state t) = fst (snd (legacy_pauses state))"
  by (simp_all add: legacy_fields_def split: prod.split)

lemma legacy_pauses_simps:
  "legacy_state state = LegacyConsultation \<Longrightarrow> legacy_pauses state = (legacy_paused_text state, None, None)"
  "legacy_state state = LegacyAwaitingHuman \<Longrightarrow>
    legacy_pauses state = (None, legacy_paused_text state, legacy_awaiting_human_by state)"
  by (simp_all add: legacy_pauses_def)

lemma task_ok_legacy_fields: "task_ok t \<Longrightarrow> task_ok (legacy_fields state t)"
proof -
  assume "task_ok t"
  moreover have "opt_status_text (fst (legacy_pauses state))" "opt_status_text (fst (snd (legacy_pauses state)))"
    by (auto simp: legacy_pauses_def legacy_paused_text_def opt_status_text_def
        split: LegacyTaskState.split option.split)
  moreover have "lease_ok (legacy_fields state t) = lease_ok t" "t_view (legacy_fields state t) = t_view t"
    "t_executor_dispatches (legacy_fields state t) = t_executor_dispatches t"
    by (simp_all add: legacy_fields_def split: prod.split)
  ultimately show ?thesis by (simp add: task_ok_def)
qed

abbreviation legacy_upsert :: "LegacyStateData \<Rightarrow> db \<Rightarrow> db" where
  "legacy_upsert state d \<equiv>
    upsert_task ''t-001'' ''.ferrus/tasks/t-001.md'' (task_status_for_legacy_state (legacy_state state))
      (legacy_task_spec state) (legacy_task_milestone state) d"

lemma migrate_legacy_active_task_eq:
  "migrate_legacy_active_task state d = (Inr (), append_event None ''task_migrated_from_legacy_state''
    (legacy_payload state) (update_task ''t-001'' (legacy_fields state) (legacy_upsert state d)))"
  by (simp add: migrate_legacy_active_task_def run_tx_def Let_def)

lemma db_inv_migrate_legacy: "migrate_legacy_active_task state d = (r, d') \<Longrightarrow> db_inv d \<Longrightarrow> db_inv d'"
  unfolding migrate_legacy_active_task_eq
  by (auto intro!: db_inv_append_taskless db_inv_update_task db_inv_upsert_task task_ok_legacy_fields)

lemma legacy_upsert_row:
  "\<exists>t. find_task ''t-001'' (legacy_upsert state d) = Some t \<and>
    t_status t = as_str (task_status_for_legacy_state (legacy_state state))"
  by (simp add: upsert_task_find new_task_row_def split: option.split)

text \<open>A task paused under the legacy state file resumes after the migration. The migrated task carries the
  legacy retry counters and failure reason; when it was in consultation, the restore of a consultation puts it
  back to the status it was paused from, and when it was waiting for a human, the restore of an answer
  does; no other task is touched.\<close>

theorem migrated_pause_resumes:
  assumes "migrate_legacy_active_task state d = (Inr (), d')"
  shows "(\<exists>t. find_task ''t-001'' d' = Some t \<and>
      t_status t = as_str (task_status_for_legacy_state (legacy_state state)) \<and>
      as_u32 (t_check_retries t) = legacy_check_retries state \<and>
      as_u32 (t_review_cycles t) = legacy_review_cycles state \<and> t_failure_reason t = legacy_failure_reason state) \<and>
    (legacy_state state = LegacyConsultation \<longrightarrow>
      (\<exists>d''. task_restore_consultation_in_transaction ''t-001'' d' = Inr (ConsultRestored (resumed state), d''))) \<and>
    (legacy_state state = LegacyAwaitingHuman \<longrightarrow>
      (\<exists>d''. task_restore_human_in_transaction ''t-001'' d' = Inr (HumanRestored (resumed state), d''))) \<and>
    (\<forall>k. k \<noteq> ''t-001'' \<longrightarrow> find_task k d' = find_task k d)"
proof -
  obtain t0 where t0: "find_task ''t-001'' (legacy_upsert state d) = Some t0"
    "t_status t0 = as_str (task_status_for_legacy_state (legacy_state state))"
    using legacy_upsert_row by blast
  let ?t = "legacy_fields state t0"
  have d': "d' = append_event None ''task_migrated_from_legacy_state'' (legacy_payload state)
      (update_task ''t-001'' (legacy_fields state) (legacy_upsert state d))"
    using assms unfolding migrate_legacy_active_task_eq by simp
  have row: "find_task ''t-001'' d' = Some ?t"
    unfolding d' using t0(1) by (simp add: row_simps)
  have others: "find_task k d' = find_task k d" if "k \<noteq> ''t-001''" for k
    unfolding d' using that by (simp add: row_simps upsert_task_find)
  have "\<exists>d''. task_restore_consultation_in_transaction ''t-001'' d' = Inr (ConsultRestored (resumed state), d'')"
    if "legacy_state state = LegacyConsultation"
    using row t0(2) that
    by (simp add: task_restore_consultation_in_transaction_def Let_def resumed_def legacy_pauses_simps
        legacy_paused_text_def split: option.split)
  moreover have "\<exists>d''. task_restore_human_in_transaction ''t-001'' d' = Inr (HumanRestored (resumed state), d'')"
    if a: "legacy_state state = LegacyAwaitingHuman"
  proof -
    have "human_resume_status ?t = resumed state"
      using a by (simp add: human_resume_status_def resumed_def legacy_pauses_simps legacy_paused_text_def
          split: option.split)
    then show ?thesis using human_restore_row [OF row] t0(2) a by auto
  qed
  ultimately show ?thesis
    using row t0(2) others by simp
qed

definition legacy_consulting :: LegacyStateData where
  "legacy_consulting =
    \<lparr> legacy_state_field = Some LegacyConsultation, legacy_check_retries = 2, legacy_review_cycles = 1,
      legacy_failure_reason = None, legacy_paused_state = Some LegacyAddressing,
      legacy_awaiting_human_by = None, legacy_task_spec = None, legacy_task_milestone = None,
      legacy_selected_spec = None, legacy_selected_milestone = None, legacy_updated_at = None \<rparr>"

theorem migrated_pause_resumes_witness:
  "\<exists>d' d''. migrate_legacy_active_task legacy_consulting empty_db = (Inr (), d') \<and>
     task_restore_consultation_in_transaction ''t-001'' d' = Inr (ConsultRestored ''addressing'', d'')"
proof -
  have 1: "legacy_state legacy_consulting = LegacyConsultation" "resumed legacy_consulting = ''addressing''"
    by code_simp+
  obtain d' where m: "migrate_legacy_active_task legacy_consulting empty_db = (Inr (), d')"
    unfolding migrate_legacy_active_task_eq by blast
  from migrated_pause_resumes [OF m] 1 m show ?thesis by auto
qed

text \<open>Retiring the legacy row.\<close>

lemma retired_row_id [simp]: "t_id (retired_row t) = t_id t"
  by (simp add: retired_row_def)

lemma legacy_task_row_id [simp]: "t_id (legacy_task_row t) = ''t-001''"
  by (simp add: legacy_task_row_def)

lemma task_ok_legacy: "task_ok t \<Longrightarrow> task_ok (legacy_task_row t)"
proof -
  assume "task_ok t"
  moreover have "lease_ok (legacy_task_row t)" by (simp add: legacy_task_row_def)
  ultimately show ?thesis
    by (simp add: task_ok_def) (simp add: legacy_task_row_def new_task_row_def)
qed

lemma task_ok_retired: "task_ok t \<Longrightarrow> task_ok (retired_row t)"
  by (simp add: task_ok_def retired_row_def opt_status_text_def lease_ok_def)

lemma db_inv_retire:
  assumes "db_inv d"
  shows "db_inv (retire_legacy_current_task_row ts d)"
proof (cases "find_task ''current'' d")
  case None
  then show ?thesis using assms by (simp add: retire_legacy_current_task_row_def)
next
  case (Some t)
  let ?d1 = "if find_task ''t-001'' d = None then insert_task (legacy_task_row t) d else d"
  have inv1: "db_inv ?d1"
    using assms db_inv_task_ok [OF assms Some] by (auto intro!: db_inv_insert_task task_ok_legacy)
  have "find_task ''t-001'' ?d1 \<noteq> None"
    by (auto simp: find_task_insert_task)
  then have "db_inv (update_runs (\<lambda>r. r_task_id r = ''current'')
      (\<lambda>r. r \<lparr> r_task_id := ''t-001'', r_updated_at := ts \<rparr>) ?d1)"
    using inv1 by (intro db_inv_update_runs) (auto simp: run_ok_def find_task_None_iff)
  then show ?thesis
    using assms Some
    by (auto simp: retire_legacy_current_task_row_def Let_def intro!: db_inv_update_task task_ok_retired)
qed

end
