(* ===== verification/Canonical_Graph.thy ===== *)
theory Canonical_Graph
  imports Registry
begin

text \<open>
  Graph references in the runtime database, \<open>src/src/project/graph.rs\<close>: the canonical graph state
  with its invalidations and guarded refreshes, the repository views recorded on tasks and runs, and the
  identities that garbage collection of the graph sidecar must keep.

  A refresh of the canonical graph takes long and runs outside any transaction. The refresh guard, read
  before it starts, is the pair of the latest invalidation and refresh events; recording the refresh is a
  compare-and-swap on that pair.
\<close>

section \<open>Types\<close>

datatype CanonicalGraphStatus = CanonicalUnknown | CanonicalStale | CanonicalFresh

definition canonical_status_from_database :: "string \<Rightarrow> CanonicalGraphStatus res" where
  "canonical_status_from_database value =
    (if value = ''unknown'' then Inr CanonicalUnknown
     else if value = ''stale'' then Inr CanonicalStale
     else if value = ''fresh'' then Inr CanonicalFresh
     else Inl (Bail (''Unknown canonical graph status in ferrus.db: '' @ value)))"

record CanonicalSourceIdentity =
  source_revision_id :: string
  manifest_digest :: Digest

record CanonicalGraphReference =
  cg_source :: "CanonicalSourceIdentity option"
  cg_snapshot_id :: "string option"
  cg_status :: CanonicalGraphStatus

record CanonicalGraphRefreshGuard =
  invalidation_event_id :: int
  refresh_event_id :: int

datatype CanonicalGraphRefreshOutcome = RefreshRecorded | RefreshSuperseded

datatype CanonicalInvalidationReason =
    ApprovedIntegration
  | PartialMutation
  | SourceComparisonUnavailable

fun invalidation_reason_as_str :: "CanonicalInvalidationReason \<Rightarrow> string" where
  "invalidation_reason_as_str ApprovedIntegration = ''approved_integration''"
| "invalidation_reason_as_str PartialMutation = ''partial_mutation''"
| "invalidation_reason_as_str SourceComparisonUnavailable = ''source_comparison_unavailable''"

record RepositoryGraphRetentionReferences =
  retained_snapshot_ids :: "string set"
  retained_view_names :: "string set"


section \<open>The canonical graph\<close>

text \<open>\<open>SELECT COALESCE(MAX(id), 0) FROM events WHERE type = ...\<close>.\<close>

definition latest_event_id :: "string \<Rightarrow> db \<Rightarrow> int" where
  "latest_event_id event_type d =
    foldl max 0 (map e_id (filter (\<lambda>e. e_type e = event_type) (events d)))"

definition latest_canonical_graph_invalidation_event_id :: "db \<Rightarrow> int" where
  "latest_canonical_graph_invalidation_event_id d = latest_event_id ''canonical_graph_invalidated'' d"

definition latest_canonical_graph_refresh_event_id :: "db \<Rightarrow> int" where
  "latest_canonical_graph_refresh_event_id d = latest_event_id ''canonical_graph_refreshed'' d"

definition canonical_graph_refresh_guard :: "db \<Rightarrow> CanonicalGraphRefreshGuard" where
  "canonical_graph_refresh_guard d =
    \<lparr> invalidation_event_id = latest_canonical_graph_invalidation_event_id d,
      refresh_event_id = latest_canonical_graph_refresh_event_id d \<rparr>"

fun canonical_source_from_database ::
  "string option \<Rightarrow> string option \<Rightarrow> string option \<Rightarrow> CanonicalSourceIdentity option res" where
  "canonical_source_from_database (Some revision) (Some algorithm) (Some value) =
    res_bind (opaque_id_new ''source revision id'' revision) (\<lambda>r.
    res_bind (Digest_new algorithm value) (\<lambda>m.
      Inr (Some \<lparr> source_revision_id = r, manifest_digest = m \<rparr>)))"
| "canonical_source_from_database None None None = Inr None"
| "canonical_source_from_database _ _ _ = Inl (Bail ''Incomplete canonical source identity in ferrus.db'')"

definition canonical_graph_reference_from_database :: "project_row \<Rightarrow> CanonicalGraphReference res" where
  "canonical_graph_reference_from_database p =
    res_bind (canonical_source_from_database (p_canonical_source_revision_id p)
                (p_canonical_manifest_algorithm p) (p_canonical_manifest_digest p)) (\<lambda>source.
    res_bind (opt_res (opaque_id_new ''snapshot id'') (p_canonical_graph_snapshot_id p)) (\<lambda>snapshot.
    res_bind (canonical_status_from_database (p_canonical_graph_status p)) (\<lambda>status.
      Inr \<lparr> cg_source = source, cg_snapshot_id = snapshot, cg_status = status \<rparr>)))"

definition canonical_graph_reference :: "db \<Rightarrow> CanonicalGraphReference res" where
  "canonical_graph_reference d =
    (case project_state d of
       None \<Rightarrow> Inl (SqlError ''Query returned no rows'')
     | Some p \<Rightarrow> canonical_graph_reference_from_database p)"

definition set_canonical_source :: "CanonicalSourceIdentity option \<Rightarrow> project_row \<Rightarrow> project_row" where
  "set_canonical_source source p =
    p \<lparr> p_canonical_source_revision_id := map_option source_revision_id source,
        p_canonical_manifest_algorithm := map_option (\<lambda>s. digest_algorithm (manifest_digest s)) source,
        p_canonical_manifest_digest := map_option (\<lambda>s. digest_value (manifest_digest s)) source \<rparr>"

definition invalidation_payload ::
  "string \<Rightarrow> CanonicalSourceIdentity option \<Rightarrow> CanonicalInvalidationReason \<Rightarrow> json" where
  "invalidation_payload task_id source reason =
    JObj [(''task_id'', JStr task_id), (''reason'', JStr (invalidation_reason_as_str reason)),
          (''source_revision_id'', jopt (map_option source_revision_id source)),
          (''manifest_digest'', jopt (map_option (\<lambda>s. digest_value (manifest_digest s)) source))]"

definition record_canonical_graph_invalidation_at ::
  "string \<Rightarrow> string option \<Rightarrow> CanonicalSourceIdentity option \<Rightarrow> CanonicalInvalidationReason \<Rightarrow> db \<Rightarrow>
    unit res \<times> db" where
  "record_canonical_graph_invalidation_at task_id run_id source reason d =
    run_tx (\<lambda>d.
      let d1 = update_project_state
                 (\<lambda>p. (set_canonical_source source p) \<lparr> p_canonical_graph_status := ''stale'' \<rparr>)
                 (ensure_project_runtime_state_row d)
      in res_bind (insert_event_in_transaction run_id ''canonical_graph_invalidated''
             (invalidation_payload task_id source reason) d1) (\<lambda>d2. Inr ((), d2))) d"

definition guard_holds :: "CanonicalGraphRefreshGuard \<Rightarrow> db \<Rightarrow> bool" where
  "guard_holds guard d =
    (latest_canonical_graph_invalidation_event_id d = invalidation_event_id guard \<and>
     latest_canonical_graph_refresh_event_id d = refresh_event_id guard)"

text \<open>\<open>UPDATE project_runtime_state ... WHERE row_id = 1 AND <guard>\<close>.\<close>

definition guarded_update ::
  "CanonicalGraphRefreshGuard \<Rightarrow> (project_row \<Rightarrow> project_row) \<Rightarrow> db \<Rightarrow> bool \<times> db" where
  "guarded_update guard f d =
    (if project_state d \<noteq> None \<and> guard_holds guard d then (True, update_project_state f d) else (False, d))"

definition refresh_payload ::
  "string option \<Rightarrow> CanonicalSourceIdentity \<Rightarrow> string \<Rightarrow> string \<Rightarrow> json" where
  "refresh_payload task_id source snapshot_id build_id =
    JObj [(''task_id'', jopt task_id), (''source_revision_id'', JStr (source_revision_id source)),
          (''snapshot_id'', JStr snapshot_id), (''build_id'', JStr build_id)]"

definition record_canonical_graph_refresh ::
  "string option \<Rightarrow> string option \<Rightarrow> CanonicalGraphRefreshGuard \<Rightarrow> CanonicalSourceIdentity \<Rightarrow>
    string \<Rightarrow> string \<Rightarrow> db \<Rightarrow> CanonicalGraphRefreshOutcome res \<times> db" where
  "record_canonical_graph_refresh task_id run_id guard source snapshot_id build_id d =
    run_tx (\<lambda>d.
      case guarded_update guard
             (\<lambda>p. (set_canonical_source (Some source) p) \<lparr> p_canonical_graph_snapshot_id := Some snapshot_id,
                    p_canonical_graph_status := ''fresh'' \<rparr>)
             (ensure_project_runtime_state_row d) of
        (False, d1) \<Rightarrow> Inr (RefreshSuperseded, d1)
      | (True, d1) \<Rightarrow> res_bind (insert_event_in_transaction run_id ''canonical_graph_refreshed''
             (refresh_payload task_id source snapshot_id build_id) d1) (\<lambda>d2. Inr (RefreshRecorded, d2))) d"

text \<open>The failure of a refresh is recorded on a best-effort basis: an error is only logged.\<close>

definition record_canonical_graph_refresh_failed_best_effort ::
  "string \<Rightarrow> string option \<Rightarrow> CanonicalGraphRefreshGuard \<Rightarrow> db \<Rightarrow> db" where
  "record_canonical_graph_refresh_failed_best_effort task_id run_id guard d =
    snd (run_tx (\<lambda>d.
      case guarded_update guard (\<lambda>p. p \<lparr> p_canonical_graph_status := ''stale'' \<rparr>)
             (ensure_project_runtime_state_row d) of
        (updated, d1) \<Rightarrow> res_bind (insert_event_in_transaction run_id ''canonical_graph_refresh_failed''
             (JObj [(''task_id'', JStr task_id), (''failure_code'', JStr ''canonical_refresh_failed''),
                    (''state_updated'', JBool updated)]) d1) (\<lambda>d2. Inr ((), d2))) d)"


section \<open>Repository views of tasks and runs\<close>

definition owner_repository_view_at ::
  "owner_table \<Rightarrow> string \<Rightarrow> db \<Rightarrow> RepositoryViewReference option res" where
  "owner_repository_view_at owner owner_id d =
    opt_res repository_view_reference_from_database
      (case owner of
         Tasks \<Rightarrow> map_option t_view (find_task owner_id d)
       | Runs \<Rightarrow> map_option r_view (find_run owner_id d))"

text \<open>A view recorded on a task is also given to the task's runs that never had a baseline.\<close>

definition without_baseline :: "string \<Rightarrow> run_row \<Rightarrow> bool" where
  "without_baseline tid r =
    (r_task_id r = tid \<and> baseline_snapshot_id (r_view r) = None \<and>
     repository_view_status (r_view r) \<in> {''not_built'', ''unavailable'', ''failed''})"

definition record_repository_view_in_transaction ::
  "owner_table \<Rightarrow> string \<Rightarrow> RepositoryViewReference \<Rightarrow> db \<Rightarrow> db res" where
  "record_repository_view_in_transaction owner owner_id view d =
    (case owner of
       Tasks \<Rightarrow>
         if find_task owner_id d = None
         then Inl (Bail ''Cannot record repository view: tasks row does not exist'')
         else Inr (update_runs (without_baseline owner_id) (\<lambda>r. r \<lparr> r_view := view_columns view \<rparr>)
                (update_task owner_id (\<lambda>t. t \<lparr> t_view := view_columns view \<rparr>) d))
     | Runs \<Rightarrow>
         if find_run owner_id d = None
         then Inl (Bail ''Cannot record repository view: runs row does not exist'')
         else Inr (update_run owner_id (\<lambda>r. r \<lparr> r_view := view_columns view \<rparr>) d))"

definition record_repository_view_at ::
  "owner_table \<Rightarrow> string \<Rightarrow> RepositoryViewReference \<Rightarrow> db \<Rightarrow> unit res \<times> db" where
  "record_repository_view_at owner owner_id view d =
    (case validate_view view of
       Inl e \<Rightarrow> (Inl e, d)
     | Inr _ \<Rightarrow> run_tx (\<lambda>d. res_bind (record_repository_view_in_transaction owner owner_id view d)
                  (\<lambda>d1. Inr ((), d1))) d)"

definition compare_and_record_task_repository_view_at ::
  "string \<Rightarrow> RepositoryViewReference \<Rightarrow> RepositoryViewReference \<Rightarrow> db \<Rightarrow> bool res \<times> db" where
  "compare_and_record_task_repository_view_at task_id expected view d =
    (case res_bind (validate_view expected) (\<lambda>_. validate_view view) of
       Inl e \<Rightarrow> (Inl e, d)
     | Inr _ \<Rightarrow> run_tx (\<lambda>d.
         case find_task task_id d of
           None \<Rightarrow> Inl (Bail ''Cannot record repository view: tasks row does not exist'')
         | Some t \<Rightarrow>
             res_bind (repository_view_reference_from_database (t_view t)) (\<lambda>current.
               if current \<noteq> expected then Inr (False, d)
               else res_bind (record_repository_view_in_transaction Tasks task_id view d)
                      (\<lambda>d1. Inr (True, d1)))) d)"


section \<open>Retention\<close>

definition finished_run :: "run_row \<Rightarrow> bool" where
  "finished_run r = (r_status r \<in> {''completed'', ''failed'', ''interrupted''})"

text \<open>The rows of the left join: a task with each of its runs, or alone when it has none. In SQL the
  status of a missing run is \<open>NULL\<close> and satisfies no condition.\<close>

definition retention_rows :: "db \<Rightarrow> (task_row \<times> run_row option) list" where
  "retention_rows d =
    concat (map (\<lambda>t.
      let rs = filter (\<lambda>r. r_task_id r = t_id t) (runs d) in
      filter (\<lambda>(t, ro). open_status (t_status t) \<or> (case ro of None \<Rightarrow> False | Some r \<Rightarrow> \<not> finished_run r))
        (if rs = [] then [(t, None)] else map (\<lambda>r. (t, Some r)) rs)) (tasks d))"

definition row_snapshots :: "task_row \<times> run_row option \<Rightarrow> string option list" where
  "row_snapshots row =
    (case row of (t, ro) \<Rightarrow>
       [baseline_snapshot_id (t_view t), repository_view_snapshot_id (t_view t)] @
       (case ro of None \<Rightarrow> [None, None]
        | Some r \<Rightarrow> [baseline_snapshot_id (r_view r), repository_view_snapshot_id (r_view r)]))"

fun snapshot_ids :: "string option list \<Rightarrow> string list res" where
  "snapshot_ids [] = Inr []"
| "snapshot_ids (None # ss) = snapshot_ids ss"
| "snapshot_ids (Some s # ss) =
    res_bind (opaque_id_new ''snapshot id'' s) (\<lambda>i. res_bind (snapshot_ids ss) (\<lambda>is. Inr (i # is)))"

definition repository_graph_retention_references_at :: "db \<Rightarrow> RepositoryGraphRetentionReferences res" where
  "repository_graph_retention_references_at d =
    (let rows = retention_rows d;
         canonical = (case project_state d of None \<Rightarrow> None | Some p \<Rightarrow> p_canonical_graph_snapshot_id p)
     in res_bind (snapshot_ids (concat (map row_snapshots rows) @ [canonical])) (\<lambda>ids.
          Inr \<lparr> retained_snapshot_ids = set ids,
                retained_view_names =
                  set (concat (map (\<lambda>(t, _). [''task-baseline:'' @ t_id t, ''task-overlay:'' @ t_id t]) rows)) \<rparr>))"


section \<open>Event counters\<close>

lemma foldl_max_le: "(0 :: int) \<le> b \<Longrightarrow> \<forall>x\<in>set xs. x \<le> b \<Longrightarrow> foldl max 0 xs \<le> b"
  by (induction xs rule: rev_induct) auto

lemma latest_event_le: "events_ok d \<Longrightarrow> latest_event_id ty d \<le> event_seq d"
  unfolding latest_event_id_def by (rule foldl_max_le) (auto simp: events_ok_def)

lemma latest_append_event:
  "latest_event_id ty (append_event run ty' p d) =
    (if ty = ty' then max (latest_event_id ty d) (event_seq d + 1) else latest_event_id ty d)"
  by (auto simp: latest_event_id_def append_event_def)

lemma latest_frame [simp]:
  "latest_event_id ty (update_project_state f d) = latest_event_id ty d"
  "latest_event_id ty (ensure_project_runtime_state_row d) = latest_event_id ty d"
  by (simp_all add: latest_event_id_def update_project_state_def ensure_project_runtime_state_row_def
      split: option.split)

lemma events_ok_frame [simp]:
  "events_ok (update_project_state f d) = events_ok d"
  "events_ok (ensure_project_runtime_state_row d) = events_ok d"
  by (simp_all add: events_ok_def update_project_state_def ensure_project_runtime_state_row_def
      split: option.split)

lemma events_ok_append: "events_ok d \<Longrightarrow> events_ok (append_event run ty p d)"
  by (auto simp: events_ok_def append_event_def sorted_wrt_append)

lemma insert_event_append:
  "insert_event_in_transaction run ty p d = Inr d' \<Longrightarrow> d' = append_event run ty p d"
  by (auto simp: insert_event_in_transaction_def split: option.splits if_splits)

lemma project_state_frame [simp]:
  "project_state (update_project_state f d) = map_option f (project_state d)"
  "project_state (ensure_project_runtime_state_row d) =
    Some (case project_state d of None \<Rightarrow> default_project_row | Some p \<Rightarrow> p)"
  by (simp_all add: update_project_state_def ensure_project_runtime_state_row_def split: option.split)

lemma guard_frame [simp]:
  "guard_holds g (ensure_project_runtime_state_row d) = guard_holds g d"
  by (simp add: guard_holds_def latest_canonical_graph_invalidation_event_id_def
      latest_canonical_graph_refresh_event_id_def)

lemma latest_graph_le:
  "events_ok d \<Longrightarrow> latest_canonical_graph_invalidation_event_id d \<le> event_seq d"
  "events_ok d \<Longrightarrow> latest_canonical_graph_refresh_event_id d \<le> event_seq d"
  by (simp_all add: latest_canonical_graph_invalidation_event_id_def
      latest_canonical_graph_refresh_event_id_def latest_event_le)

lemma latest_invalidation_append:
  "events_ok d \<Longrightarrow> latest_canonical_graph_invalidation_event_id (append_event run ty p d) =
    (if ty = ''canonical_graph_invalidated'' then event_seq d + 1 else latest_canonical_graph_invalidation_event_id d)"
  using latest_event_le [of d "''canonical_graph_invalidated''"]
  by (auto simp: latest_canonical_graph_invalidation_event_id_def latest_append_event)

lemma latest_refresh_append:
  "events_ok d \<Longrightarrow> latest_canonical_graph_refresh_event_id (append_event run ty p d) =
    (if ty = ''canonical_graph_refreshed'' then event_seq d + 1 else latest_canonical_graph_refresh_event_id d)"
  using latest_event_le [of d "''canonical_graph_refreshed''"]
  by (auto simp: latest_canonical_graph_refresh_event_id_def latest_append_event)

lemma latest_graph_frame [simp]:
  "latest_canonical_graph_invalidation_event_id (update_project_state f d) = latest_canonical_graph_invalidation_event_id d"
  "latest_canonical_graph_invalidation_event_id (ensure_project_runtime_state_row d) = latest_canonical_graph_invalidation_event_id d"
  "latest_canonical_graph_refresh_event_id (update_project_state f d) = latest_canonical_graph_refresh_event_id d"
  "latest_canonical_graph_refresh_event_id (ensure_project_runtime_state_row d) = latest_canonical_graph_refresh_event_id d"
  by (simp_all add: latest_canonical_graph_invalidation_event_id_def latest_canonical_graph_refresh_event_id_def)

lemma event_seq_project [simp]:
  "event_seq (update_project_state f d) = event_seq d"
  "event_seq (ensure_project_runtime_state_row d) = event_seq d"
  by (simp_all add: update_project_state_def ensure_project_runtime_state_row_def split: option.split)


section \<open>Steps of the canonical graph\<close>

text \<open>The operations on the canonical graph, interleaved with whatever else happens to the database: other
  events, and changes of tables that the canonical graph does not use.\<close>

inductive canon_step :: "db \<Rightarrow> db \<Rightarrow> bool" where
  invalidate: "record_canonical_graph_invalidation_at task_id run_id source reason d = (r, d') \<Longrightarrow> canon_step d d'"
| refresh: "record_canonical_graph_refresh task run_id guard src snapshot build d = (r', d') \<Longrightarrow> canon_step d d'"
| refresh_failed: "canon_step d (record_canonical_graph_refresh_failed_best_effort task_id run_id guard d)"
| other_event: "ty \<notin> {''canonical_graph_invalidated'', ''canonical_graph_refreshed''} \<Longrightarrow>
    canon_step d (append_event run_id ty payload d)"
| other_tables: "events d' = events d \<Longrightarrow> event_seq d' = event_seq d \<Longrightarrow> project_state d' = project_state d \<Longrightarrow>
    canon_step d d'"

text \<open>What each operation does to the database.\<close>

lemma invalidation_cases:
  assumes "record_canonical_graph_invalidation_at task_id run_id source reason d = (r, d')"
  shows "(\<not> is_ok r \<and> d' = d) \<or>
    (r = Inr () \<and> d' = append_event run_id ''canonical_graph_invalidated'' (invalidation_payload task_id source reason)
       (update_project_state (\<lambda>p. (set_canonical_source source p) \<lparr> p_canonical_graph_status := ''stale'' \<rparr>)
          (ensure_project_runtime_state_row d)))"
  using assms
  by (auto simp: record_canonical_graph_invalidation_at_def run_tx_def Let_def res_bind_Inr_iff
      dest: insert_event_append split: sum.splits)

lemma refresh_cases:
  assumes "record_canonical_graph_refresh task run_id guard src snapshot build d = (r, d')"
  shows "(\<not> is_ok r \<and> d' = d) \<or>
    (r = Inr RefreshSuperseded \<and> \<not> guard_holds guard d \<and> d' = ensure_project_runtime_state_row d) \<or>
    (r = Inr RefreshRecorded \<and> guard_holds guard d \<and>
     d' = append_event run_id ''canonical_graph_refreshed'' (refresh_payload task src snapshot build)
       (update_project_state (\<lambda>p. (set_canonical_source (Some src) p)
            \<lparr> p_canonical_graph_snapshot_id := Some snapshot, p_canonical_graph_status := ''fresh'' \<rparr>)
          (ensure_project_runtime_state_row d)))"
  using assms
  by (auto simp: record_canonical_graph_refresh_def run_tx_def guarded_update_def res_bind_Inr_iff
      dest: insert_event_append split: sum.splits if_splits)

lemma refresh_superseded:
  "\<not> guard_holds guard d \<Longrightarrow>
    record_canonical_graph_refresh task run_id guard src snapshot build d =
      (Inr RefreshSuperseded, ensure_project_runtime_state_row d)"
  by (simp add: record_canonical_graph_refresh_def run_tx_def guarded_update_def)

lemma refresh_failed_cases:
  "record_canonical_graph_refresh_failed_best_effort task_id run_id guard d = d \<or>
   (\<exists>f p. record_canonical_graph_refresh_failed_best_effort task_id run_id guard d =
      append_event run_id ''canonical_graph_refresh_failed'' p
        (update_project_state f (ensure_project_runtime_state_row d)) \<and>
      (f = id \<or> f = (\<lambda>p. p \<lparr> p_canonical_graph_status := ''stale'' \<rparr>)))"
proof -
  let ?s = "\<lambda>p. p \<lparr> p_canonical_graph_status := ''stale'' \<rparr>"
  let ?e = "ensure_project_runtime_state_row d"
  have id: "update_project_state id x = x" for x
    by (simp add: update_project_state_def option.map_id)
  have g: "guarded_update guard ?s ?e =
      (guard_holds guard d, update_project_state (if guard_holds guard d then ?s else id) ?e)"
    by (simp add: guarded_update_def id)
  show ?thesis
    unfolding record_canonical_graph_refresh_failed_best_effort_def run_tx_def g prod.case
    by (cases "guard_holds guard d") (auto simp: res_bind_Inr_iff dest!: insert_event_append split: sum.splits)
qed

lemma refresh_failed_status:
  assumes "project_state (record_canonical_graph_refresh_failed_best_effort task_id run_id guard d) = Some p"
    and "p_canonical_graph_status p = ''fresh''"
  shows "\<exists>q. project_state d = Some q \<and> p_canonical_graph_status q = ''fresh''"
  using refresh_failed_cases [of task_id run_id guard d] assms
  by (auto simp: default_project_row_def split: option.splits)


section \<open>Invalidations are never lost\<close>

interpretation invalidations: step_counter canon_step events_ok latest_canonical_graph_invalidation_event_id
proof
  fix d d' assume inv: "events_ok d" and step: "canon_step d d'"
  from step have "events_ok d' \<and>
      latest_canonical_graph_invalidation_event_id d \<le> latest_canonical_graph_invalidation_event_id d'"
  proof cases
    case (invalidate task_id run_id source reason r)
    from invalidation_cases [OF this] inv show ?thesis
      using latest_graph_le(1) [OF inv] by (auto simp: events_ok_append latest_invalidation_append)
  next
    case (refresh task run_id guard src snapshot build r')
    from refresh_cases [OF this] inv show ?thesis
      by (auto simp: events_ok_append latest_invalidation_append)
  next
    case (refresh_failed task_id run_id guard)
    then show ?thesis
      using refresh_failed_cases [of task_id run_id guard d] inv
      by (auto simp: events_ok_append latest_invalidation_append)
  next
    case (other_event ty run_id payload)
    then show ?thesis using inv by (auto simp: events_ok_append latest_invalidation_append)
  next
    case other_tables
    then show ?thesis
      using inv by (simp add: events_ok_def latest_canonical_graph_invalidation_event_id_def latest_event_id_def)
  qed
  then show "events_ok d'"
    and "latest_canonical_graph_invalidation_event_id d \<le> latest_canonical_graph_invalidation_event_id d'"
    by blast+
qed

lemma invalidation_counts:
  assumes "events_ok d" "record_canonical_graph_invalidation_at task_id run_id source reason d = (Inr (), d')"
  shows "latest_canonical_graph_invalidation_event_id d < latest_canonical_graph_invalidation_event_id d'"
  using invalidation_cases [OF assms(2)] assms(1) latest_graph_le(1) [OF assms(1)]
  by (auto simp: latest_invalidation_append)

text \<open>C26: a slow refresh never hides an invalidation. Take a refresh guard, let any sequence of operations run
  in which some invalidation is recorded (with other invalidations, refreshes, failures and unrelated changes
  before and after it), then record the refresh with the old guard: the refresh is superseded, and the
  canonical state stays exactly what the other operations left.\<close>

theorem invalidation_supersedes_refresh:
  assumes "db_inv d" and "guard = canonical_graph_refresh_guard d"
    and "canon_step\<^sup>*\<^sup>* d d1"
    and "record_canonical_graph_invalidation_at task_id run_id source reason d1 = (Inr (), d2)"
    and "canon_step\<^sup>*\<^sup>* d2 d3"
  shows "record_canonical_graph_refresh task run guard src snapshot build d3 =
    (Inr RefreshSuperseded, ensure_project_runtime_state_row d3)"
proof -
  have ok: "events_ok d" using assms(1) by (simp add: db_inv_def)
  have "latest_canonical_graph_invalidation_event_id d1 < latest_canonical_graph_invalidation_event_id d2"
    using invalidation_counts [OF invalidations.steps [OF assms(3) ok] assms(4)] .
  then have "latest_canonical_graph_invalidation_event_id d < latest_canonical_graph_invalidation_event_id d3"
    using invalidations.steps_through [OF assms(3) canon_step.invalidate [OF assms(4)] _ assms(5) ok] by blast
  then have "\<not> guard_holds guard d3"
    using assms(2) by (simp add: guard_holds_def canonical_graph_refresh_guard_def)
  then show ?thesis by (rule refresh_superseded)
qed


theorem invalidation_supersedes_refresh_witness:
  "record_canonical_graph_refresh None None (canonical_graph_refresh_guard empty_db)
     \<lparr> source_revision_id = ''r1'', manifest_digest = \<lparr> digest_algorithm = ''sha1'', digest_value = ''ab'' \<rparr> \<rparr>
     ''s1'' ''b1'' (snd (record_canonical_graph_invalidation_at ''t-001'' None None ApprovedIntegration empty_db)) =
   (Inr RefreshSuperseded, ensure_project_runtime_state_row
     (snd (record_canonical_graph_invalidation_at ''t-001'' None None ApprovedIntegration empty_db)))"
proof -
  obtain d2 where d2: "record_canonical_graph_invalidation_at ''t-001'' None None ApprovedIntegration empty_db = (Inr (), d2)"
    by (simp add: record_canonical_graph_invalidation_at_def run_tx_def Let_def)
  show ?thesis
    using invalidation_supersedes_refresh [OF db_inv_empty refl rtranclp.rtrancl_refl d2 rtranclp.rtrancl_refl]
    unfolding d2 by simp
qed


section \<open>Freshness\<close>

definition canon_fresh :: "db \<Rightarrow> bool" where
  "canon_fresh d = (\<exists>p. project_state d = Some p \<and> p_canonical_graph_status p = ''fresh'')"

definition canon_inv :: "db \<Rightarrow> bool" where
  "canon_inv d = (events_ok d \<and> (canon_fresh d \<longrightarrow>
     latest_canonical_graph_invalidation_event_id d < latest_canonical_graph_refresh_event_id d))"

lemma canon_fresh_simps [simp]:
  "canon_fresh (append_event run ty p d) = canon_fresh d"
  "canon_fresh (ensure_project_runtime_state_row d) = canon_fresh d"
  "\<not> canon_fresh (update_project_state (\<lambda>p. (h p) \<lparr> p_canonical_graph_status := ''stale'' \<rparr>) d)"
  by (auto simp: canon_fresh_def default_project_row_def split: option.splits)

interpretation freshness: step_invariant canon_step canon_inv
proof
  fix d d' assume inv: "canon_inv d" and step: "canon_step d d'"
  then have ok: "events_ok d" "events_ok d'" using invalidations.preserved by (auto simp: canon_inv_def)
  from step have "canon_fresh d' \<longrightarrow>
      latest_canonical_graph_invalidation_event_id d' < latest_canonical_graph_refresh_event_id d'"
  proof cases
    case (invalidate task_id run_id source reason r)
    from invalidation_cases [OF this] inv show ?thesis by (auto simp: canon_inv_def)
  next
    case (refresh task run_id guard src snapshot build r')
    from refresh_cases [OF this] inv show ?thesis
      using latest_graph_le(1) [OF ok(1)]
      by (auto simp: canon_inv_def latest_invalidation_append latest_refresh_append)
  next
    case (refresh_failed task_id run_id guard)
    have "canon_fresh d' \<Longrightarrow> canon_fresh d"
      using refresh_failed_status unfolding refresh_failed canon_fresh_def by blast
    moreover have "latest_canonical_graph_invalidation_event_id d' = latest_canonical_graph_invalidation_event_id d"
      "latest_canonical_graph_refresh_event_id d' = latest_canonical_graph_refresh_event_id d"
      using refresh_failed_cases [of task_id run_id guard d] ok(1) unfolding refresh_failed
      by (auto simp: latest_invalidation_append latest_refresh_append)
    ultimately show ?thesis using inv by (simp add: canon_inv_def)
  next
    case (other_event ty run_id payload)
    then show ?thesis using inv ok(1) by (auto simp: canon_inv_def latest_invalidation_append latest_refresh_append)
  next
    case other_tables
    then show ?thesis
      using inv by (simp add: canon_inv_def canon_fresh_def latest_canonical_graph_invalidation_event_id_def
          latest_canonical_graph_refresh_event_id_def latest_event_id_def)
  qed
  then show "canon_inv d'" using ok by (simp add: canon_inv_def)
qed

text \<open>C27: a canonical graph that is reported fresh was refreshed after its last invalidation. This holds after
  any sequence of operations on a database that starts without a fresh canonical graph.\<close>

theorem fresh_means_refreshed_last:
  assumes "db_inv d" "\<not> canon_fresh d" "canon_step\<^sup>*\<^sup>* d d'"
    and "canonical_graph_reference d' = Inr reference" "cg_status reference = CanonicalFresh"
  shows "latest_canonical_graph_invalidation_event_id d' < latest_canonical_graph_refresh_event_id d'"
proof -
  have "canon_inv d" using assms(1,2) by (simp add: canon_inv_def db_inv_def)
  then have "canon_inv d'" using freshness.steps [OF assms(3)] by blast
  moreover have "canon_fresh d'"
    using assms(4,5)
    by (auto simp: canonical_graph_reference_def canonical_graph_reference_from_database_def canon_fresh_def
        res_bind_Inr_iff canonical_status_from_database_def split: option.splits if_splits)
  ultimately show ?thesis by (simp add: canon_inv_def)
qed

definition sample_source :: CanonicalSourceIdentity where
  "sample_source = \<lparr> source_revision_id = ''r1'',
     manifest_digest = \<lparr> digest_algorithm = ''sha1'', digest_value = ''ab'' \<rparr> \<rparr>"

definition refreshed_db :: db where
  "refreshed_db = snd (record_canonical_graph_refresh None None (canonical_graph_refresh_guard empty_db)
     sample_source ''s1'' ''b1'' empty_db)"

theorem fresh_means_refreshed_last_witness:
  "canonical_graph_reference refreshed_db =
     Inr \<lparr> cg_source = Some sample_source, cg_snapshot_id = Some ''s1'', cg_status = CanonicalFresh \<rparr> \<and>
   latest_canonical_graph_invalidation_event_id refreshed_db < latest_canonical_graph_refresh_event_id refreshed_db"
proof -
  have ref: "canonical_graph_reference refreshed_db =
      Inr \<lparr> cg_source = Some sample_source, cg_snapshot_id = Some ''s1'', cg_status = CanonicalFresh \<rparr>"
    by code_simp
  have "\<not> canon_fresh empty_db" by (simp add: canon_fresh_def empty_db_def)
  moreover have "canon_step\<^sup>*\<^sup>* empty_db refreshed_db"
    unfolding refreshed_db_def by (rule r_into_rtranclp, rule canon_step.refresh) (rule prod.collapse [symmetric])
  ultimately show ?thesis
    using fresh_means_refreshed_last [OF db_inv_empty _ _ ref] ref by simp
qed


section \<open>Preservation of the invariant\<close>

text \<open>What the Rust types guarantee of a source identity.\<close>

definition source_ok :: "CanonicalSourceIdentity \<Rightarrow> bool" where
  "source_ok s = (source_revision_id s \<noteq> [] \<and> digest_ok (manifest_digest s))"

lemma project_ok_source:
  assumes "project_ok p" "\<And>s. source = Some s \<Longrightarrow> source_ok s"
  shows "project_ok (set_canonical_source source p)"
proof (cases source)
  case (Some s)
  then have "tree_from_database (Some (digest_algorithm (manifest_digest s))) (Some (digest_value (manifest_digest s))) =
      Inr (Some (manifest_digest s))"
    using assms(2) [OF Some] by (simp add: source_ok_def digest_ok_def)
  then show ?thesis
    using assms Some by (auto simp: project_ok_def set_canonical_source_def source_ok_def)
qed (use assms(1) in \<open>simp add: project_ok_def set_canonical_source_def\<close>)

lemma project_ok_status:
  "project_ok p \<Longrightarrow> s \<in> {''unknown'', ''stale'', ''fresh''} \<Longrightarrow> project_ok (p \<lparr> p_canonical_graph_status := s \<rparr>)"
  by (auto simp: project_ok_def)

lemma project_ok_snapshot:
  "project_ok p \<Longrightarrow> s \<noteq> [] \<Longrightarrow> project_ok (p \<lparr> p_canonical_graph_snapshot_id := Some s \<rparr>)"
  by (auto simp: project_ok_def)

lemma insert_event_frame_inv:
  assumes "insert_event_in_transaction run_id ty p d1 = Inr d'" "db_inv d1"
  shows "db_inv d'"
  using assms by (rule db_inv_insert_event)

lemma db_inv_invalidation:
  assumes "record_canonical_graph_invalidation_at task_id run_id source reason d = (r, d')" "db_inv d"
    and "\<And>s. source = Some s \<Longrightarrow> source_ok s"
  shows "db_inv d'"
proof -
  let ?d1 = "update_project_state (\<lambda>p. (set_canonical_source source p) \<lparr> p_canonical_graph_status := ''stale'' \<rparr>)
      (ensure_project_runtime_state_row d)"
  have inv1: "db_inv ?d1"
    using assms(2,3) by (intro inv_intros) (auto intro!: project_ok_status project_ok_source)
  have "d' = d \<or> insert_event_in_transaction run_id ''canonical_graph_invalidated''
      (invalidation_payload task_id source reason) ?d1 = Inr d'"
    using assms(1)
    by (auto simp: record_canonical_graph_invalidation_at_def run_tx_def Let_def res_bind_Inr_iff split: sum.splits)
  then show ?thesis using assms(2) inv1 db_inv_insert_event(1) by blast
qed

lemma db_inv_refresh:
  assumes "record_canonical_graph_refresh task run_id guard src snapshot build d = (r, d')" "db_inv d"
    and "source_ok src" "snapshot \<noteq> []"
  shows "db_inv d'"
proof -
  let ?e = "ensure_project_runtime_state_row d"
  let ?d1 = "update_project_state (\<lambda>p. (set_canonical_source (Some src) p)
      \<lparr> p_canonical_graph_snapshot_id := Some snapshot, p_canonical_graph_status := ''fresh'' \<rparr>) ?e"
  have inv0: "db_inv ?e" using assms(2) by (rule db_inv_ensure_project)
  have inv1: "db_inv ?d1"
    using inv0 assms(3,4)
    by (intro db_inv_update_project) (auto intro!: project_ok_status project_ok_snapshot project_ok_source)
  have "d' = d \<or> d' = ?e \<or> insert_event_in_transaction run_id ''canonical_graph_refreshed''
      (refresh_payload task src snapshot build) ?d1 = Inr d'"
    using assms(1)
    by (auto simp: record_canonical_graph_refresh_def run_tx_def guarded_update_def res_bind_Inr_iff
        split: sum.splits if_splits)
  then show ?thesis using assms(2) inv0 inv1 db_inv_insert_event(1) by blast
qed

lemma db_inv_record_view:
  assumes "record_repository_view_in_transaction owner k view d = Inr d'" "db_inv d"
    and "validate_view view = Inr ()" "view_ids_ok view"
  shows "db_inv d'"
proof -
  note ok = view_cols_ok_view_columns [OF assms(3,4)]
  show ?thesis
  proof (cases owner)
    case Tasks
    have "db_inv (update_task k (\<lambda>t. t \<lparr> t_view := view_columns view \<rparr>) d)"
      using assms(2) ok by (intro db_inv_update_task) (auto simp: task_ok_def)
    then have "db_inv (update_runs (without_baseline k) (\<lambda>r. r \<lparr> r_view := view_columns view \<rparr>)
        (update_task k (\<lambda>t. t \<lparr> t_view := view_columns view \<rparr>) d))"
      using ok by (intro db_inv_update_runs) (auto simp: run_ok_def db_inv_def keys_ok_def)
    then show ?thesis
      using assms(1) Tasks by (auto simp: record_repository_view_in_transaction_def split: if_splits)
  next
    case Runs
    have "r_task_id r \<in> t_id ` set (tasks d)" if "find_run k d = Some r" for r
      using assms(2) find_run_in [OF that] by (auto simp: db_inv_def keys_ok_def)
    then have "db_inv (update_run k (\<lambda>r. r \<lparr> r_view := view_columns view \<rparr>) d)"
      using assms(2) ok by (intro db_inv_update_run) (auto simp: run_ok_def)
    then show ?thesis
      using assms(1) Runs by (auto simp: record_repository_view_in_transaction_def split: if_splits)
  qed
qed


section \<open>Compare and swap of a task's view\<close>

text \<open>C28: recording a task's view with an expected view is a compare-and-swap. For an existing task whose
  stored view decodes to \<open>current\<close> it reports whether \<open>current\<close> is the expected view; if so the task row
  afterwards decodes to exactly the new view, runs of the task without a baseline take it over and all other
  rows stay; if not, nothing changes.\<close>

theorem view_compare_and_swap:
  assumes "db_inv d" "find_task tid d = Some t"
    and "validate_view expected = Inr ()" "validate_view view = Inr ()" "view_ids_ok view"
  shows "\<exists>current d'. owner_repository_view_at Tasks tid d = Inr (Some current) \<and>
    compare_and_record_task_repository_view_at tid expected view d = (Inr (current = expected), d') \<and>
    (current \<noteq> expected \<longrightarrow> d' = d) \<and>
    (current = expected \<longrightarrow> owner_repository_view_at Tasks tid d' = Inr (Some view) \<and>
       (\<forall>k. k \<noteq> tid \<longrightarrow> find_task k d' = find_task k d) \<and>
       (\<forall>k r. find_run k d = Some r \<longrightarrow> find_run k d' =
          Some (if without_baseline tid r then r \<lparr> r_view := view_columns view \<rparr> else r)))"
proof -
  obtain current where cur: "repository_view_reference_from_database (t_view t) = Inr current"
    using db_inv_task_ok [OF assms(1,2)] by (auto simp: task_ok_def view_cols_ok_def is_ok_iff)
  let ?d = "update_runs (without_baseline tid) (\<lambda>r. r \<lparr> r_view := view_columns view \<rparr>)
      (update_task tid (\<lambda>t. t \<lparr> t_view := view_columns view \<rparr>) d)"
  have own: "owner_repository_view_at Tasks tid d = Inr (Some current)"
    using assms(2) cur by (simp add: owner_repository_view_at_def)
  have cas: "compare_and_record_task_repository_view_at tid expected view d =
      (Inr (current = expected), if current = expected then ?d else d)"
    using assms cur
    by (simp add: compare_and_record_task_repository_view_at_def run_tx_def record_repository_view_in_transaction_def)
  have "owner_repository_view_at Tasks tid ?d = Inr (Some view)"
    using assms(2) view_round_trip [OF assms(4,5)] by (simp add: owner_repository_view_at_def row_simps)
  moreover have "find_task k ?d = find_task k d" if "k \<noteq> tid" for k
    using that by (simp add: row_simps)
  moreover have "find_run k ?d = Some (if without_baseline tid r then r \<lparr> r_view := view_columns view \<rparr> else r)"
    if "find_run k d = Some r" for k r
    using that by (simp add: row_simps)
  ultimately show ?thesis using own cas by auto
qed

theorem view_compare_and_swap_witness:
  "compare_and_record_task_repository_view_at ''t-001'' default_view frozen_sample leased_db =
     (Inr True, update_task ''t-001'' (\<lambda>t. t \<lparr> t_view := view_columns frozen_sample \<rparr>) leased_db)"
proof -
  have 1: "db_inv leased_db" "find_task ''t-001'' leased_db = Some leased_task"
    "validate_view default_view = Inr ()" "validate_view frozen_sample = Inr ()" "view_ids_ok frozen_sample"
    and own: "owner_repository_view_at Tasks ''t-001'' leased_db = Inr (Some default_view)"
    by code_simp+
  have "fst (compare_and_record_task_repository_view_at ''t-001'' default_view frozen_sample leased_db) = Inr True"
    using view_compare_and_swap [OF 1] own by auto
  moreover have "snd (compare_and_record_task_repository_view_at ''t-001'' default_view frozen_sample leased_db) =
      update_task ''t-001'' (\<lambda>t. t \<lparr> t_view := view_columns frozen_sample \<rparr>) leased_db"
    by code_simp
  ultimately show ?thesis by (metis prod.collapse)
qed


section \<open>Retention\<close>

definition view_snapshots :: "view_cols \<Rightarrow> string set" where
  "view_snapshots v = set_option (baseline_snapshot_id v) \<union> set_option (repository_view_snapshot_id v)"

definition retained_task :: "db \<Rightarrow> task_row \<Rightarrow> bool" where
  "retained_task d t =
    (t \<in> set (tasks d) \<and> (open_status (t_status t) \<or> (\<exists>r\<in>set (runs d). r_task_id r = t_id t \<and> \<not> finished_run r)))"

definition retained_run :: "db \<Rightarrow> run_row \<Rightarrow> bool" where
  "retained_run d r =
    (r \<in> set (runs d) \<and> (\<not> finished_run r \<or> (\<exists>t\<in>set (tasks d). t_id t = r_task_id r \<and> open_status (t_status t))))"

lemma retention_rows_iff:
  "(t, ro) \<in> set (retention_rows d) \<longleftrightarrow> t \<in> set (tasks d) \<and>
    (case ro of
       None \<Rightarrow> open_status (t_status t) \<and> (\<forall>r\<in>set (runs d). r_task_id r \<noteq> t_id t)
     | Some r \<Rightarrow> r \<in> set (runs d) \<and> r_task_id r = t_id t \<and> (open_status (t_status t) \<or> \<not> finished_run r))"
  unfolding retention_rows_def
  by (auto simp: Let_def filter_empty_conv split: option.splits if_splits)

lemma retained_task_row: "retained_task d t \<longleftrightarrow> (\<exists>ro. (t, ro) \<in> set (retention_rows d))"
proof
  assume t: "retained_task d t"
  show "\<exists>ro. (t, ro) \<in> set (retention_rows d)"
  proof (cases "\<exists>r\<in>set (runs d). r_task_id r = t_id t \<and> \<not> finished_run r")
    case True
    then obtain r where r: "r \<in> set (runs d)" "r_task_id r = t_id t" "\<not> finished_run r" by blast
    then have "(t, Some r) \<in> set (retention_rows d)"
      using t by (simp add: retention_rows_iff retained_task_def)
    then show ?thesis by blast
  next
    case False
    then have o: "open_status (t_status t)" using t unfolding retained_task_def by blast
    show ?thesis
    proof (cases "\<exists>r\<in>set (runs d). r_task_id r = t_id t")
      case True
      then obtain r where r: "r \<in> set (runs d)" "r_task_id r = t_id t" by blast
      then have "(t, Some r) \<in> set (retention_rows d)"
        using t o by (simp add: retention_rows_iff retained_task_def)
      then show ?thesis by blast
    next
      case False
      then have "(t, None) \<in> set (retention_rows d)"
        using t o by (auto simp: retention_rows_iff retained_task_def)
      then show ?thesis by blast
    qed
  qed
next
  assume "\<exists>ro. (t, ro) \<in> set (retention_rows d)"
  then obtain ro where "(t, ro) \<in> set (retention_rows d)" by blast
  then show "retained_task d t"
    by (cases ro) (auto simp: retention_rows_iff retained_task_def)
qed

lemma retained_run_row:
  assumes "keys_ok d"
  shows "retained_run d r \<longleftrightarrow> (\<exists>t. (t, Some r) \<in> set (retention_rows d))"
proof
  assume r: "retained_run d r"
  then have "r_task_id r \<in> t_id ` set (tasks d)"
    using assms by (auto simp: retained_run_def keys_ok_def)
  then obtain t0 where t0: "t0 \<in> set (tasks d)" "t_id t0 = r_task_id r" by auto
  show "\<exists>t. (t, Some r) \<in> set (retention_rows d)"
  proof (cases "finished_run r")
    case True
    then obtain t where "t \<in> set (tasks d)" "t_id t = r_task_id r" "open_status (t_status t)"
      using r by (auto simp: retained_run_def)
    then have "(t, Some r) \<in> set (retention_rows d)"
      using r by (simp add: retention_rows_iff retained_run_def)
    then show ?thesis by blast
  next
    case False
    then have "(t0, Some r) \<in> set (retention_rows d)"
      using r t0 by (simp add: retention_rows_iff retained_run_def)
    then show ?thesis by blast
  qed
next
  assume "\<exists>t. (t, Some r) \<in> set (retention_rows d)"
  then show "retained_run d r"
    by (auto simp: retention_rows_iff retained_run_def)
qed

lemma snapshot_ids_ok:
  "Some [] \<notin> set ss \<Longrightarrow> \<exists>is. snapshot_ids ss = Inr is \<and> set is = {s. Some s \<in> set ss}"
proof (induction ss rule: snapshot_ids.induct)
  case (3 s ss)
  then show ?case by (auto simp: opaque_id_new_def)
qed auto

lemma row_snapshots_iff:
  "Some s \<in> set (row_snapshots (t, ro)) \<longleftrightarrow>
    s \<in> view_snapshots (t_view t) \<or> (\<exists>r. ro = Some r \<and> s \<in> view_snapshots (r_view r))"
  by (cases ro) (auto simp: row_snapshots_def view_snapshots_def elem_set)

lemma view_snapshots_not_empty: "view_cols_ok v \<Longrightarrow> [] \<notin> view_snapshots v"
  by (auto simp: view_cols_ok_def is_ok_iff view_snapshots_def view_ids_ok_def view_columns_def
      dest!: view_decodeD)

text \<open>C29: garbage collection of the graph keeps what is in use, and only that. On a well-formed database the
  retention query succeeds; it retains exactly the snapshots of the tasks that are open or have an
  unfinished run, of the runs that are unfinished or belong to an open task, and the canonical snapshot, and
  the published view names of exactly those tasks.\<close>

theorem retention_keeps_what_is_in_use:
  assumes "db_inv d"
  shows "\<exists>refs. repository_graph_retention_references_at d = Inr refs \<and>
    retained_snapshot_ids refs =
      (\<Union>t\<in>{t. retained_task d t}. view_snapshots (t_view t)) \<union>
      (\<Union>r\<in>{r. retained_run d r}. view_snapshots (r_view r)) \<union>
      (case project_state d of None \<Rightarrow> {} | Some p \<Rightarrow> set_option (p_canonical_graph_snapshot_id p)) \<and>
    retained_view_names refs =
      (\<Union>t\<in>{t. retained_task d t}. {''task-baseline:'' @ t_id t, ''task-overlay:'' @ t_id t})"
proof -
  let ?canon = "case project_state d of None \<Rightarrow> None | Some p \<Rightarrow> p_canonical_graph_snapshot_id p"
  let ?ss = "concat (map row_snapshots (retention_rows d)) @ [?canon]"
  have rows: "Some s \<in> set (concat (map row_snapshots (retention_rows d))) \<longleftrightarrow>
      (\<exists>t. retained_task d t \<and> s \<in> view_snapshots (t_view t)) \<or>
      (\<exists>r. retained_run d r \<and> s \<in> view_snapshots (r_view r))" for s
    unfolding retained_task_row retained_run_row [OF db_inv_keys [OF assms]]
    using row_snapshots_iff by (auto simp: image_iff) blast+
  have "Some [] \<notin> set (concat (map row_snapshots (retention_rows d)))"
    using assms view_snapshots_not_empty unfolding rows
    by (auto simp: retained_task_def retained_run_def db_inv_def task_ok_def run_ok_def)
  moreover have "?canon \<noteq> Some []"
    using assms by (auto simp: db_inv_def project_ok_def split: option.splits)
  ultimately have "Some [] \<notin> set ?ss" by (simp only: set_append list.set Un_iff singleton_iff) metis
  then obtain ids where ids: "snapshot_ids ?ss = Inr ids" "set ids = {s. Some s \<in> set ?ss}"
    using snapshot_ids_ok [of ?ss] by blast
  have "set ids = (\<Union>t\<in>{t. retained_task d t}. view_snapshots (t_view t)) \<union>
      (\<Union>r\<in>{r. retained_run d r}. view_snapshots (r_view r)) \<union>
      (case project_state d of None \<Rightarrow> {} | Some p \<Rightarrow> set_option (p_canonical_graph_snapshot_id p))"
    unfolding ids(2) set_append Un_iff rows
    by (cases "project_state d") (auto simp: elem_set)
  moreover have "set (concat (map (\<lambda>(t, _). [''task-baseline:'' @ t_id t, ''task-overlay:'' @ t_id t]) (retention_rows d))) =
      (\<Union>t\<in>{t. retained_task d t}. {''task-baseline:'' @ t_id t, ''task-overlay:'' @ t_id t})"
    unfolding retained_task_row by force
  ultimately show ?thesis
    using ids(1) by (simp add: repository_graph_retention_references_at_def Let_def)
qed


theorem retention_keeps_what_is_in_use_witness:
  "\<exists>refs. repository_graph_retention_references_at
      (update_task ''t-001'' (\<lambda>t. t \<lparr> t_view := view_columns frozen_sample \<rparr>) leased_db) = Inr refs \<and>
    ''snapshot:1'' \<in> retained_snapshot_ids refs"
proof -
  let ?d = "update_task ''t-001'' (\<lambda>t. t \<lparr> t_view := view_columns frozen_sample \<rparr>) leased_db"
  let ?t = "leased_task \<lparr> t_view := view_columns frozen_sample \<rparr>"
  have "db_inv ?d" "retained_task ?d ?t" "''snapshot:1'' \<in> view_snapshots (t_view ?t)" by code_simp+
  then show ?thesis using retention_keeps_what_is_in_use [of ?d] by blast
qed

end
