(* ===== verification/Schema.thy ===== *)
theory Schema
  imports Canonical_Graph
begin

text \<open>
  Opening and migrating the runtime database: \<open>src/src/project/database/schema.rs\<close> and the opening
  functions of \<open>src/src/project/database.rs\<close>.

  A \<open>store\<close> is what an opened SQLite file holds: the schema version, the tables with their columns, the rows
  of the migration history, the rows of the legacy \<open>runtime_metadata\<close> table, and the typed rows of the other
  components. A typed row stands for a stored row in which a column that the file does not have yet reads as its
  default, which is what \<open>ALTER TABLE ... ADD COLUMN\<close> gives existing rows. Indexes are not modelled:
  they change no result.
\<close>

section \<open>Stores\<close>

record store =
  user_version :: int
  table_columns :: "(string \<times> string list) list"
  migration_rows :: "(int \<times> string) list"
  metadata_rows :: "(string \<times> string option) list"
  store_db :: db

definition table_exists :: "string \<Rightarrow> store \<Rightarrow> bool" where
  "table_exists name s = (map_of (table_columns s) name \<noteq> None)"

definition column_exists :: "string \<Rightarrow> string \<Rightarrow> store \<Rightarrow> bool" where
  "column_exists table column s =
    (case map_of (table_columns s) table of None \<Rightarrow> False | Some cs \<Rightarrow> column \<in> set cs)"

definition add_column :: "string \<Rightarrow> string \<Rightarrow> store \<Rightarrow> store" where
  "add_column table column s =
    s \<lparr> table_columns := map (\<lambda>(t, cs). (t, if t = table then cs @ [column] else cs)) (table_columns s) \<rparr>"

definition ensure_column :: "string \<Rightarrow> string \<Rightarrow> store \<Rightarrow> store res" where
  "ensure_column table column s =
    (if column_exists table column s then Inr s
     else if \<not> table_exists table s then Inl (SqlError (''no such table: '' @ table))
     else Inr (add_column table column s))"

fun ensure_columns :: "(string \<times> string) list \<Rightarrow> store \<Rightarrow> store res" where
  "ensure_columns [] s = Inr s"
| "ensure_columns ((table, column) # cs) s = res_bind (ensure_column table column s) (ensure_columns cs)"

text \<open>\<open>CREATE TABLE IF NOT EXISTS\<close>.\<close>

definition create_table :: "string \<times> string list \<Rightarrow> store \<Rightarrow> store" where
  "create_table tc s =
    (if table_exists (fst tc) s then s else s \<lparr> table_columns := table_columns s @ [tc] \<rparr>)"


section \<open>The legacy metadata table\<close>

definition read_legacy_runtime_metadata :: "string \<Rightarrow> store \<Rightarrow> string option" where
  "read_legacy_runtime_metadata name s =
    normalize_optional_db_string
      (case map_of (metadata_rows s) name of None \<Rightarrow> None | Some v \<Rightarrow> v)"

definition or_else :: "'a option \<Rightarrow> 'a option \<Rightarrow> 'a option" where
  "or_else a b = (case a of Some _ \<Rightarrow> a | None \<Rightarrow> b)"

text \<open>The selected and the last specification to import, or nothing when they are already there.\<close>

definition legacy_runtime_metadata_import :: "store \<Rightarrow> (string option \<times> string option) option" where
  "legacy_runtime_metadata_import s =
    (if \<not> table_exists ''runtime_metadata'' s then None
     else
       let current_selection = read_project_selection_from_database (store_db s);
           current_last = read_last_spec_path_from_database (store_db s);
           selected_spec = or_else current_selection (read_legacy_runtime_metadata ''selected_spec'' s);
           last_spec_path = or_else current_last (read_legacy_runtime_metadata ''last_spec_path'' s)
       in if selected_spec = current_selection \<and> last_spec_path = current_last then None
          else Some (selected_spec, last_spec_path))"

definition migrate_legacy_runtime_metadata :: "store \<Rightarrow> store" where
  "migrate_legacy_runtime_metadata s =
    (case legacy_runtime_metadata_import s of
       None \<Rightarrow> s
     | Some (selected_spec, last_spec_path) \<Rightarrow>
         s \<lparr> store_db := update_project_state
               (\<lambda>p. p \<lparr> p_selected_spec := selected_spec, p_last_spec_path := last_spec_path \<rparr>)
               (ensure_project_runtime_state_row (store_db s)) \<rparr>)"


section \<open>The migrations\<close>

definition base_tables :: "(string \<times> string list) list" where
  "base_tables =
    [(''runtime_schema_migrations'', [''version'', ''name'', ''applied_at'']),
     (''tasks'', [''id'', ''path'', ''status'', ''paused_status'', ''spec_path'', ''milestone_id'', ''claimed_by'',
        ''lease_until'', ''last_heartbeat'', ''check_retries'', ''review_cycles'', ''failure_reason'',
        ''awaiting_human_by'', ''awaiting_human_status'', ''human_question_order'',
        ''human_answer_recorded'', ''executor_dispatches'']),
     (''runs'', [''id'', ''task_id'', ''role'', ''agent'', ''status'', ''started_at'', ''updated_at'', ''pid'',
        ''workspace_path'']),
     (''events'', [''id'', ''run_id'', ''type'', ''payload_json'', ''created_at'']),
     (''project_runtime_state'', [''row_id'', ''selected_spec'', ''last_spec_path'', ''last_archive_path'',
        ''updated_at'']),
     (''spec_archives'', [''id'', ''spec_path'', ''archive_dir'', ''closed_at'', ''task_count'', ''run_count'',
        ''outcome''])]"

definition legacy_columns :: "(string \<times> string) list" where
  "legacy_columns =
    map (Pair ''tasks'') [''paused_status'', ''spec_path'', ''milestone_id'', ''claimed_by'', ''lease_until'',
      ''last_heartbeat'', ''check_retries'', ''review_cycles'', ''executor_dispatches'', ''failure_reason'',
      ''awaiting_human_by'', ''awaiting_human_status'', ''human_question_order'', ''human_answer_recorded''] @
    map (Pair ''project_runtime_state'') [''selected_spec'', ''last_spec_path'', ''last_archive_path'']"

definition adopt_legacy_runtime_schema :: "store \<Rightarrow> store res" where
  "adopt_legacy_runtime_schema s =
    res_bind (ensure_columns legacy_columns (fold create_table base_tables s))
      (\<lambda>s. Inr (migrate_legacy_runtime_metadata s))"

definition both_tables :: "string list \<Rightarrow> (string \<times> string) list" where
  "both_tables columns = concat (map (\<lambda>t. map (Pair t) columns) [''tasks'', ''runs''])"

definition add_repository_view_references :: "store \<Rightarrow> store res" where
  "add_repository_view_references s =
    ensure_columns (both_tables [''baseline_snapshot_id'', ''overlay_revision_id'', ''repository_view_status'']) s"

definition add_frozen_repository_views :: "store \<Rightarrow> store res" where
  "add_frozen_repository_views s =
    ensure_columns (both_tables [''repository_view_snapshot_id'', ''repository_view_tree_algorithm'',
      ''repository_view_tree_digest'', ''repository_view_lifecycle'']) s"

definition canonical_columns :: "(string \<times> string) list" where
  "canonical_columns =
    map (Pair ''project_runtime_state'') [''canonical_source_revision_id'', ''canonical_manifest_algorithm'',
      ''canonical_manifest_digest'', ''canonical_graph_snapshot_id'', ''canonical_graph_status'',
      ''canonical_graph_updated_at'']"

definition add_canonical_graph_state :: "store \<Rightarrow> store res" where
  "add_canonical_graph_state s =
    res_bind (ensure_columns canonical_columns s)
      (\<lambda>s. Inr (s \<lparr> store_db := ensure_project_runtime_state_row (store_db s) \<rparr>))"

record RuntimeMigration =
  mig_version :: int
  mig_name :: string
  mig_apply :: "store \<Rightarrow> store res"

definition RUNTIME_SCHEMA_VERSION :: int where
  "RUNTIME_SCHEMA_VERSION = 4"

definition RUNTIME_MIGRATIONS :: "RuntimeMigration list" where
  "RUNTIME_MIGRATIONS =
    [\<lparr> mig_version = 1, mig_name = ''adopt_legacy_runtime_schema'', mig_apply = adopt_legacy_runtime_schema \<rparr>,
     \<lparr> mig_version = 2, mig_name = ''repository_view_references'', mig_apply = add_repository_view_references \<rparr>,
     \<lparr> mig_version = 3, mig_name = ''frozen_repository_views'', mig_apply = add_frozen_repository_views \<rparr>,
     \<lparr> mig_version = 4, mig_name = ''canonical_graph_state'', mig_apply = add_canonical_graph_state \<rparr>]"

text \<open>\<open>PRAGMA user_version\<close>, read as \<open>u32\<close>.\<close>

definition runtime_schema_version :: "store \<Rightarrow> int res" where
  "runtime_schema_version s =
    (if user_version s < 0 then Inl (SqlError ''Integer out of range'') else Inr (user_version s))"

definition version_le :: "int \<times> string \<Rightarrow> int \<times> string \<Rightarrow> bool" where
  "version_le a b = (fst a \<le> fst b)"

definition newer_message :: "int \<Rightarrow> string" where
  "newer_message version =
    ''ferrus.db schema version '' @ show_nat (nat version) @ '' is newer than supported version 4''"

definition missing_message :: "int \<Rightarrow> string" where
  "missing_message version =
    ''ferrus.db migration history is missing for schema version '' @ show_nat (nat version)"

definition incomplete_message :: "int \<Rightarrow> string" where
  "incomplete_message version =
    ''ferrus.db migration history is incomplete for schema version '' @ show_nat (nat version)"

text \<open>The comparison of the history with the expected migrations, in order, up to the first divergence.\<close>

fun check_history :: "(int \<times> string) list \<Rightarrow> RuntimeMigration list \<Rightarrow> unit res" where
  "check_history [] ms = Inr ()"
| "check_history (h # hs) [] = Inl (Panic ''index out of bounds'')"
| "check_history ((v, n) # hs) (m # ms) =
    (if v \<noteq> mig_version m \<or> n \<noteq> mig_name m
     then Inl (Bail (''ferrus.db migration history diverges at version '' @ show_nat (nat (mig_version m))))
     else check_history hs ms)"

definition validate_runtime_migration_history :: "store \<Rightarrow> unit res" where
  "validate_runtime_migration_history s =
    res_bind (runtime_schema_version s) (\<lambda>version.
      if version > RUNTIME_SCHEMA_VERSION then Inl (Bail (newer_message version))
      else if \<not> table_exists ''runtime_schema_migrations'' s
      then (if version = 0 then Inr () else Inl (Bail (missing_message version)))
      else
        let history = order_by version_le (migration_rows s) in
        if int (length history) \<noteq> version then Inl (Bail (incomplete_message version))
        else check_history history RUNTIME_MIGRATIONS)"

definition insert_migration :: "RuntimeMigration \<Rightarrow> store \<Rightarrow> store res" where
  "insert_migration m s =
    (if \<not> table_exists ''runtime_schema_migrations'' s
     then Inl (SqlError ''no such table: runtime_schema_migrations'')
     else if mig_version m \<in> fst ` set (migration_rows s) \<or> mig_name m \<in> snd ` set (migration_rows s)
     then Inl (SqlError ''UNIQUE constraint failed: runtime_schema_migrations'')
     else Inr (s \<lparr> migration_rows := migration_rows s @ [(mig_version m, mig_name m)] \<rparr>))"

text \<open>One turn of the migration loop, in its own transaction: \<open>None\<close> when the schema is current.\<close>

definition apply_message :: "RuntimeMigration \<Rightarrow> string" where
  "apply_message m =
    ''Failed to apply ferrus.db migration '' @ show_nat (nat (mig_version m)) @ '' ('' @ mig_name m @ '')''"

definition order_message :: "RuntimeMigration \<Rightarrow> int \<Rightarrow> string" where
  "order_message m current_version =
    ''Cannot apply ferrus.db migration '' @ show_nat (nat (mig_version m)) @ '' after schema version '' @
      show_nat (nat current_version)"

definition migration_turn :: "store \<Rightarrow> store option res" where
  "migration_turn s =
    res_bind (validate_runtime_migration_history s) (\<lambda>_.
    res_bind (runtime_schema_version s) (\<lambda>current_version.
      if current_version = RUNTIME_SCHEMA_VERSION then Inr None
      else
        let m = RUNTIME_MIGRATIONS ! nat current_version in
        if current_version + 1 \<noteq> mig_version m then Inl (Bail (order_message m current_version))
        else res_bind (with_context (apply_message m) (mig_apply m s)) (\<lambda>s1.
             res_bind (insert_migration m s1) (\<lambda>s2.
               Inr (Some (s2 \<lparr> user_version := mig_version m \<rparr>))))))"

lemma migration_turn_version:
  assumes "migration_turn s = Inr (Some s')"
  shows "user_version s' = user_version s + 1" "0 \<le> user_version s" "user_version s < RUNTIME_SCHEMA_VERSION"
  using assms
  by (auto simp: migration_turn_def res_bind_Inr_iff Let_def validate_runtime_migration_history_def
      runtime_schema_version_def split: if_splits)

text \<open>The loop; every turn that continues it has raised the version.\<close>

function migrate_runtime_schema :: "store \<Rightarrow> unit res \<times> store" where
  "migrate_runtime_schema s =
    (case migration_turn s of
       Inl e \<Rightarrow> (Inl e, s)
     | Inr None \<Rightarrow> (validate_runtime_migration_history s, s)
     | Inr (Some s') \<Rightarrow> migrate_runtime_schema s')"
  by pat_completeness auto

termination
  by (relation "measure (\<lambda>s. nat (RUNTIME_SCHEMA_VERSION - user_version s))")
     (auto dest: migration_turn_version)

declare migrate_runtime_schema.simps [simp del]

definition initialize_schema :: "store \<Rightarrow> unit res \<times> store" where
  "initialize_schema s =
    (case migrate_runtime_schema s of
       (Inl e, s1) \<Rightarrow> (Inl e, s1)
     | (Inr _, s1) \<Rightarrow> (Inr (), migrate_legacy_runtime_metadata s1))"

definition open_runtime_database :: "store \<Rightarrow> unit res \<times> store" where
  "open_runtime_database s = initialize_schema s"

definition open_runtime_database_for_read :: "store \<Rightarrow> unit res \<times> store" where
  "open_runtime_database_for_read s =
    (case validate_runtime_migration_history s of
       Inl e \<Rightarrow> (Inl e, s)
     | Inr _ \<Rightarrow>
         if user_version s \<noteq> RUNTIME_SCHEMA_VERSION \<or> legacy_runtime_metadata_import s \<noteq> None
         then open_runtime_database s
         else (Inr (), s))"

definition required_columns :: "(string \<times> string) list" where
  "required_columns =
    map (Pair ''tasks'') [''paused_status'', ''claimed_by'', ''lease_until'', ''last_heartbeat'', ''check_retries'',
      ''review_cycles'', ''failure_reason'', ''awaiting_human_by'', ''awaiting_human_status''] @
    both_tables [''baseline_snapshot_id'', ''overlay_revision_id'', ''repository_view_snapshot_id'',
      ''repository_view_tree_algorithm'', ''repository_view_tree_digest'', ''repository_view_lifecycle'',
      ''repository_view_status''] @
    canonical_columns"

definition validate_database_schema :: "store \<Rightarrow> bool res" where
  "validate_database_schema s =
    res_bind (runtime_schema_version s) (\<lambda>version.
      Inr (version = RUNTIME_SCHEMA_VERSION \<and> is_ok (validate_runtime_migration_history s) \<and>
           list_all (\<lambda>t. table_exists t s) [''tasks'', ''runs'', ''events'', ''runtime_schema_migrations''] \<and>
           list_all (\<lambda>(t, c). column_exists t c s) required_columns))"


section \<open>Columns and tables only grow\<close>

definition grows :: "store \<Rightarrow> store \<Rightarrow> bool" where
  "grows s s' =
    ((\<forall>t. table_exists t s \<longrightarrow> table_exists t s') \<and> (\<forall>t c. column_exists t c s \<longrightarrow> column_exists t c s'))"


definition same_rows :: "store \<Rightarrow> store \<Rightarrow> bool" where
  "same_rows s s' = (user_version s' = user_version s \<and> migration_rows s' = migration_rows s \<and>
     metadata_rows s' = metadata_rows s \<and> store_db s' = store_db s)"

lemma grows_refl [simp]: "grows s s"
  by (simp add: grows_def)

lemma grows_trans: "grows s s' \<Longrightarrow> grows s' s'' \<Longrightarrow> grows s s''"
  by (auto simp: grows_def)

lemma same_rows_refl [simp]: "same_rows s s"
  by (simp add: same_rows_def)

lemma same_rows_trans: "same_rows s s' \<Longrightarrow> same_rows s' s'' \<Longrightarrow> same_rows s s''"
  by (simp add: same_rows_def)

lemma map_of_map_columns: "map_of (map (\<lambda>(t, cs). (t, f t cs)) xs) k = map_option (f k) (map_of xs k)"
  by (induction xs) auto

lemma add_column_simps:
  "table_exists t (add_column table column s) = table_exists t s"
  "column_exists t c (add_column table column s) =
    (column_exists t c s \<or> (t = table \<and> c = column \<and> table_exists t s))"
  by (auto simp: table_exists_def column_exists_def add_column_def map_of_map_columns split: option.splits)

lemma ensure_column_ok:
  assumes "table_exists table s"
  obtains s' where "ensure_column table column s = Inr s'" "grows s s'" "same_rows s s'" "column_exists table column s'"
proof (cases "column_exists table column s")
  case True
  then show ?thesis using that [of s] by (simp add: ensure_column_def)
next
  case False
  moreover have "grows s (add_column table column s)" "column_exists table column (add_column table column s)"
    using assms by (simp_all add: grows_def add_column_simps)
  moreover have "same_rows s (add_column table column s)" by (simp add: same_rows_def add_column_def)
  ultimately show ?thesis using that assms by (simp add: ensure_column_def)
qed

lemma ensure_columns_ok:
  assumes "\<forall>(t, c)\<in>set cs. table_exists t s"
  shows "\<exists>s'. ensure_columns cs s = Inr s' \<and> grows s s' \<and> same_rows s s' \<and> (\<forall>(t, c)\<in>set cs. column_exists t c s')"
  using assms
proof (induction cs arbitrary: s)
  case (Cons tc cs)
  obtain table column where tc: "tc = (table, column)" by (cases tc)
  obtain s1 where s1: "ensure_column table column s = Inr s1" "grows s s1" "same_rows s s1" "column_exists table column s1"
    using ensure_column_ok Cons.prems tc by (metis (mono_tags, lifting) case_prod_conv list.set_intros(1))
  have "\<forall>(t, c)\<in>set cs. table_exists t s1" using Cons.prems s1(2) by (auto simp: grows_def)
  from Cons.IH [OF this] obtain s2 where s2: "ensure_columns cs s1 = Inr s2" "grows s1 s2" "same_rows s1 s2"
    "\<forall>(t, c)\<in>set cs. column_exists t c s2" by blast
  have "column_exists table column s2" using s1(4) s2(2) by (simp add: grows_def)
  then show ?case
    using tc s1 s2 grows_trans same_rows_trans by auto
qed simp

lemma create_table_ok:
  "grows s (create_table tc s)" "same_rows s (create_table tc s)" "table_exists (fst tc) (create_table tc s)"
proof -
  have "map_of (xs @ [tc]) k = (case map_of xs k of None \<Rightarrow> if k = fst tc then Some (snd tc) else None | Some v \<Rightarrow> Some v)" for xs k
    by (cases tc) (auto simp: map_add_def split: option.split)
  then show "grows s (create_table tc s)" "same_rows s (create_table tc s)" "table_exists (fst tc) (create_table tc s)"
    by (auto simp: grows_def same_rows_def create_table_def table_exists_def column_exists_def split: option.splits)
qed

lemma create_tables_ok:
  "grows s (fold create_table tcs s) \<and> same_rows s (fold create_table tcs s) \<and>
    (\<forall>tc\<in>set tcs. table_exists (fst tc) (fold create_table tcs s))"
proof (induction tcs arbitrary: s)
  case (Cons tc tcs)
  let ?s = "create_table tc s"
  note c = create_table_ok [where s = s and tc = tc] and ih = Cons [of ?s]
  have "table_exists (fst tc) (fold create_table tcs ?s)" using c(3) ih by (simp add: grows_def)
  then show ?case using c ih grows_trans same_rows_trans by auto
qed simp


section \<open>Every migration succeeds\<close>

text \<open>What the migrations up to the current version have established.\<close>

definition has_columns :: "(string \<times> string) list \<Rightarrow> store \<Rightarrow> bool" where
  "has_columns cs s = (\<forall>(t, c)\<in>set cs. column_exists t c s)"

definition view_reference_columns :: "(string \<times> string) list" where
  "view_reference_columns = both_tables [''baseline_snapshot_id'', ''overlay_revision_id'', ''repository_view_status'']"

definition frozen_view_columns :: "(string \<times> string) list" where
  "frozen_view_columns = both_tables [''repository_view_snapshot_id'', ''repository_view_tree_algorithm'',
      ''repository_view_tree_digest'', ''repository_view_lifecycle'']"

definition established :: "int \<Rightarrow> store \<Rightarrow> bool" where
  "established v s =
    ((1 \<le> v \<longrightarrow> (\<forall>tc\<in>set base_tables. table_exists (fst tc) s) \<and> has_columns legacy_columns s) \<and>
     (2 \<le> v \<longrightarrow> has_columns view_reference_columns s) \<and>
     (3 \<le> v \<longrightarrow> has_columns frozen_view_columns s) \<and>
     (4 \<le> v \<longrightarrow> has_columns canonical_columns s))"

text \<open>The migration history: the first migrations, in order, and none while its table is missing.\<close>

definition expected_history :: "nat \<Rightarrow> (int \<times> string) list" where
  "expected_history n = map (\<lambda>m. (mig_version m, mig_name m)) (take n RUNTIME_MIGRATIONS)"

definition store_ok :: "store \<Rightarrow> bool" where
  "store_ok s =
    (validate_runtime_migration_history s = Inr () \<and> established (user_version s) s \<and>
     (\<not> table_exists ''runtime_schema_migrations'' s \<longrightarrow> migration_rows s = []))"

lemma established_grows: "established v s \<Longrightarrow> grows s s' \<Longrightarrow> established v s'"
  by (auto simp: established_def has_columns_def grows_def)

lemma same_rows_db: "table_exists t (s \<lparr> store_db := d \<rparr>) = table_exists t s"
  "column_exists t c (s \<lparr> store_db := d \<rparr>) = column_exists t c s"
  "table_exists t (s \<lparr> migration_rows := m \<rparr>) = table_exists t s"
  "column_exists t c (s \<lparr> migration_rows := m \<rparr>) = column_exists t c s"
  "table_exists t (s \<lparr> user_version := v \<rparr>) = table_exists t s"
  "column_exists t c (s \<lparr> user_version := v \<rparr>) = column_exists t c s"
  by (simp_all add: table_exists_def column_exists_def)

text \<open>The tables of the typed rows that no migration changes.\<close>

definition same_tables :: "db \<Rightarrow> db \<Rightarrow> bool" where
  "same_tables d d' = (tasks d' = tasks d \<and> runs d' = runs d \<and> events d' = events d \<and> event_seq d' = event_seq d \<and>
     spec_archives d' = spec_archives d)"

lemma same_tables_project [simp]:
  "same_tables d d" "same_tables d (ensure_project_runtime_state_row d)"
  "same_tables d (update_project_state f (ensure_project_runtime_state_row d))"
  by (simp_all add: same_tables_def ensure_project_runtime_state_row_def update_project_state_def split: option.split)

lemma import_frame:
  "user_version (migrate_legacy_runtime_metadata s) = user_version s"
  "migration_rows (migrate_legacy_runtime_metadata s) = migration_rows s"
  "metadata_rows (migrate_legacy_runtime_metadata s) = metadata_rows s"
  "table_columns (migrate_legacy_runtime_metadata s) = table_columns s"
  "same_tables (store_db s) (store_db (migrate_legacy_runtime_metadata s))"
  by (auto simp: migrate_legacy_runtime_metadata_def split: option.split)

lemma import_tables:
  "table_exists t (migrate_legacy_runtime_metadata s) = table_exists t s"
  "column_exists t c (migrate_legacy_runtime_metadata s) = column_exists t c s"
  by (simp_all add: table_exists_def column_exists_def import_frame)


lemma established_import [simp]: "established v (migrate_legacy_runtime_metadata s) = established v s"
  by (simp add: established_def has_columns_def import_tables)

lemma check_history_prefix:
  "check_history hs ms = Inr () \<Longrightarrow> hs = map (\<lambda>m. (mig_version m, mig_name m)) (take (length hs) ms)"
  by (induction hs ms rule: check_history.induct) (auto split: if_splits)

lemma check_history_ok:
  "n \<le> length ms \<Longrightarrow> check_history (map (\<lambda>m. (mig_version m, mig_name m)) (take n ms)) ms = Inr ()"
  by (induction n arbitrary: ms) (auto simp: Suc_le_length_iff)

text \<open>A valid history is the first migrations in order.\<close>

lemma valid_history_iff:
  "validate_runtime_migration_history s = Inr () \<longleftrightarrow>
    0 \<le> user_version s \<and> user_version s \<le> RUNTIME_SCHEMA_VERSION \<and>
    (if table_exists ''runtime_schema_migrations'' s
     then order_by version_le (migration_rows s) = expected_history (nat (user_version s))
     else user_version s = 0)"
proof -
  have key: "(int (length h) = v \<and> check_history h RUNTIME_MIGRATIONS = Inr ()) \<longleftrightarrow> h = expected_history (nat v)"
    if v: "0 \<le> v" "v \<le> RUNTIME_SCHEMA_VERSION" for h and v :: int
  proof
    assume l: "int (length h) = v \<and> check_history h RUNTIME_MIGRATIONS = Inr ()"
    then have "length h = nat v" by linarith
    with check_history_prefix [of h RUNTIME_MIGRATIONS] l show "h = expected_history (nat v)"
      unfolding expected_history_def by simp
  next
    assume h: "h = expected_history (nat v)"
    have n: "nat v \<le> length RUNTIME_MIGRATIONS"
      using v by (simp add: RUNTIME_SCHEMA_VERSION_def RUNTIME_MIGRATIONS_def)
    then show "int (length h) = v \<and> check_history h RUNTIME_MIGRATIONS = Inr ()"
      unfolding h expected_history_def using check_history_ok [OF n] v by simp
  qed
  show ?thesis
    unfolding validate_runtime_migration_history_def runtime_schema_version_def Let_def
    using key [of "user_version s" "order_by version_le (migration_rows s)"] by (auto simp del: length_order_by order_by_Nil_iff)
qed

lemma insert_by_last: "le x z \<Longrightarrow> insert_by le x (ys @ [z]) = insert_by le x ys @ [z]"
  by (induction ys) auto

lemma order_by_last: "\<forall>x\<in>set xs. le x z \<Longrightarrow> order_by le (xs @ [z]) = order_by le xs @ [z]"
  by (induction xs) (auto simp: order_by_def insert_by_last)


definition kept :: "store \<Rightarrow> store \<Rightarrow> bool" where
  "kept s s' = (user_version s' = user_version s \<and> migration_rows s' = migration_rows s \<and>
     metadata_rows s' = metadata_rows s \<and> same_tables (store_db s) (store_db s'))"

lemma same_rows_kept: "same_rows s s' \<Longrightarrow> kept s s'"
  by (simp add: same_rows_def kept_def same_tables_def)

definition migrates :: "int \<Rightarrow> (store \<Rightarrow> store res) \<Rightarrow> bool" where
  "migrates v f = (\<forall>s. established v s \<longrightarrow> (\<exists>s'. f s = Inr s' \<and> grows s s' \<and> kept s s' \<and> established (v + 1) s'))"

lemma base_table_names: "(\<forall>tc\<in>set base_tables. table_exists (fst tc) s) \<longleftrightarrow>
    table_exists ''runtime_schema_migrations'' s \<and> table_exists ''tasks'' s \<and> table_exists ''runs'' s \<and>
    table_exists ''events'' s \<and> table_exists ''project_runtime_state'' s \<and> table_exists ''spec_archives'' s"
  by (simp add: base_tables_def)

lemma established_tables:
  assumes "established v s" "1 \<le> v"
  shows "table_exists ''runtime_schema_migrations'' s" "table_exists ''tasks'' s" "table_exists ''runs'' s"
    "table_exists ''events'' s" "table_exists ''project_runtime_state'' s"
  using assms unfolding established_def base_table_names by blast+

lemma column_tables:
  "(t, c) \<in> set legacy_columns \<Longrightarrow> t = ''tasks'' \<or> t = ''project_runtime_state''"
  "(t, c) \<in> set (both_tables cs) \<Longrightarrow> t = ''tasks'' \<or> t = ''runs''"
  "(t, c) \<in> set canonical_columns \<Longrightarrow> t = ''project_runtime_state''"
  by (auto simp: legacy_columns_def both_tables_def canonical_columns_def simp del: list.map)

lemma adopt_migrates: "migrates 0 adopt_legacy_runtime_schema"
  unfolding migrates_def
proof (intro allI impI)
  fix s
  let ?s = "fold create_table base_tables s"
  have c: "grows s ?s" "same_rows s ?s" "\<forall>tc\<in>set base_tables. table_exists (fst tc) ?s"
    using create_tables_ok by blast+
  from c(3) have "\<forall>(t, c)\<in>set legacy_columns. table_exists t ?s"
    unfolding base_table_names using column_tables(1) by blast
  from ensure_columns_ok [OF this] obtain s1 where s1: "ensure_columns legacy_columns ?s = Inr s1" "grows ?s s1"
    "same_rows ?s s1" "has_columns legacy_columns s1" unfolding has_columns_def by blast
  let ?r = "migrate_legacy_runtime_metadata s1"
  have "\<forall>tc\<in>set base_tables. table_exists (fst tc) s1" using c(3) s1(2) by (simp add: grows_def)
  then have "established (0 + 1) ?r" using s1(4) by (simp add: established_def has_columns_def import_tables)
  moreover have "grows s ?r" using c(1) s1(2) by (simp add: grows_def import_tables)
  moreover have "kept s ?r" using c(2) s1(3) import_frame [of s1] by (simp add: kept_def same_rows_def)
  moreover have "adopt_legacy_runtime_schema s = Inr ?r" using s1(1) by (simp add: adopt_legacy_runtime_schema_def)
  ultimately show "\<exists>s'. adopt_legacy_runtime_schema s = Inr s' \<and> grows s s' \<and> kept s s' \<and> established (0 + 1) s'"
    by blast
qed

lemma references_migrate: "migrates 1 add_repository_view_references"
  unfolding migrates_def
proof (intro allI impI)
  fix s
  assume e: "established 1 s"
  then have "\<forall>(t, c)\<in>set view_reference_columns. table_exists t s"
    using established_tables [OF e] column_tables(2) unfolding view_reference_columns_def by blast
  from ensure_columns_ok [OF this] obtain s1 where s1: "ensure_columns view_reference_columns s = Inr s1" "grows s s1"
    "same_rows s s1" "has_columns view_reference_columns s1" unfolding has_columns_def by blast
  have "established (1 + 1) s1" using established_grows [OF e s1(2)] s1(4) by (simp add: established_def)
  with s1 show "\<exists>s'. add_repository_view_references s = Inr s' \<and> grows s s' \<and> kept s s' \<and> established (1 + 1) s'"
    using same_rows_kept unfolding add_repository_view_references_def view_reference_columns_def by blast
qed

lemma frozen_views_migrate: "migrates 2 add_frozen_repository_views"
  unfolding migrates_def
proof (intro allI impI)
  fix s
  assume e: "established 2 s"
  then have "\<forall>(t, c)\<in>set frozen_view_columns. table_exists t s"
    using established_tables [OF e] column_tables(2) unfolding frozen_view_columns_def by fastforce
  from ensure_columns_ok [OF this] obtain s1 where s1: "ensure_columns frozen_view_columns s = Inr s1" "grows s s1"
    "same_rows s s1" "has_columns frozen_view_columns s1" unfolding has_columns_def by blast
  have "established (2 + 1) s1" using established_grows [OF e s1(2)] s1(4) by (simp add: established_def)
  with s1 show "\<exists>s'. add_frozen_repository_views s = Inr s' \<and> grows s s' \<and> kept s s' \<and> established (2 + 1) s'"
    using same_rows_kept unfolding add_frozen_repository_views_def frozen_view_columns_def by blast
qed

lemma canonical_state_migrates: "migrates 3 add_canonical_graph_state"
  unfolding migrates_def
proof (intro allI impI)
  fix s
  assume e: "established 3 s"
  then have "\<forall>(t, c)\<in>set canonical_columns. table_exists t s"
    using established_tables [OF e] column_tables(3) by fastforce
  from ensure_columns_ok [OF this] obtain s1 where s1: "ensure_columns canonical_columns s = Inr s1" "grows s s1"
    "same_rows s s1" "has_columns canonical_columns s1" unfolding has_columns_def by blast
  let ?r = "s1 \<lparr> store_db := ensure_project_runtime_state_row (store_db s1) \<rparr>"
  have "established (3 + 1) ?r"
    using established_grows [OF e s1(2)] s1(4) by (simp add: established_def has_columns_def same_rows_db)
  moreover have "grows s ?r" using s1(2) by (simp add: grows_def same_rows_db)
  moreover have "kept s ?r" using s1(3) by (simp add: kept_def same_rows_def)
  moreover have "add_canonical_graph_state s = Inr ?r" using s1(1) by (simp add: add_canonical_graph_state_def)
  ultimately show "\<exists>s'. add_canonical_graph_state s = Inr s' \<and> grows s s' \<and> kept s s' \<and> established (3 + 1) s'"
    by blast
qed


lemma next_migration:
  assumes "0 \<le> v" "v < RUNTIME_SCHEMA_VERSION"
  defines "m \<equiv> RUNTIME_MIGRATIONS ! nat v"
  shows "migrates v (mig_apply m)" "mig_version m = v + 1"
    "expected_history (nat (v + 1)) = expected_history (nat v) @ [(v + 1, mig_name m)]"
    "\<forall>h\<in>set (expected_history (nat v)). fst h \<le> v \<and> snd h \<noteq> mig_name m"
proof -
  have "v = 0 \<or> v = 1 \<or> v = 2 \<or> v = 3" using assms(1,2) unfolding RUNTIME_SCHEMA_VERSION_def by presburger
  then show "migrates v (mig_apply m)"
    using adopt_migrates references_migrate frozen_views_migrate canonical_state_migrates
    unfolding m_def RUNTIME_MIGRATIONS_def by (elim disjE) (simp_all add: numeral_2_eq_2 numeral_3_eq_3)
  show "mig_version m = v + 1"
    "expected_history (nat (v + 1)) = expected_history (nat v) @ [(v + 1, mig_name m)]"
    "\<forall>h\<in>set (expected_history (nat v)). fst h \<le> v \<and> snd h \<noteq> mig_name m"
    using \<open>v = 0 \<or> v = 1 \<or> v = 2 \<or> v = 3\<close>
    unfolding m_def RUNTIME_MIGRATIONS_def expected_history_def
    by (elim disjE; simp add: numeral_2_eq_2 numeral_3_eq_3)+
qed

lemma store_ok_rows: "store_ok s \<Longrightarrow> order_by version_le (migration_rows s) = expected_history (nat (user_version s))"
  by (auto simp: store_ok_def valid_history_iff expected_history_def split: if_splits)

text \<open>A turn below the current version applies the next migration and records it.\<close>

lemma migration_turn_ok:
  assumes ok: "store_ok s" and lt: "user_version s < RUNTIME_SCHEMA_VERSION"
  obtains s' where "migration_turn s = Inr (Some s')" "store_ok s'" "grows s s'" "same_tables (store_db s) (store_db s')"
    "metadata_rows s' = metadata_rows s" "user_version s' = user_version s + 1"
proof -
  let ?v = "user_version s" and ?m = "RUNTIME_MIGRATIONS ! nat (user_version s)"
  have v: "0 \<le> ?v" using ok by (simp add: store_ok_def valid_history_iff)
  note m = next_migration [OF v lt]
  have e: "established ?v s" using ok by (simp add: store_ok_def)
  from m(1) e obtain s1 where s1: "mig_apply ?m s = Inr s1" "grows s s1" "kept s s1" "established (?v + 1) s1"
    unfolding migrates_def by blast
  have rows: "set (migration_rows s1) = set (expected_history (nat ?v))"
    using store_ok_rows [OF ok] s1(3) set_order_by [of version_le "migration_rows s"] by (simp add: kept_def)
  have t: "table_exists ''runtime_schema_migrations'' s1" using s1(4) established_tables(1) v by simp
  let ?s2 = "s1 \<lparr> migration_rows := migration_rows s1 @ [(?v + 1, mig_name ?m)], user_version := ?v + 1 \<rparr>"
  have "insert_migration ?m s1 = Inr (s1 \<lparr> migration_rows := migration_rows s1 @ [(?v + 1, mig_name ?m)] \<rparr>)"
    using m(4) t unfolding insert_migration_def m(2) rows by force
  then have turn: "migration_turn s = Inr (Some ?s2)"
    using ok lt v s1(1) m(2)
    by (simp add: migration_turn_def store_ok_def runtime_schema_version_def Let_def with_context_def)
  have "order_by version_le (migration_rows s1 @ [(?v + 1, mig_name ?m)]) = expected_history (nat (?v + 1))"
    using store_ok_rows [OF ok] s1(3) m(3,4) rows
    by (subst order_by_last) (force simp: version_le_def kept_def)+
  then have "store_ok ?s2"
    using s1(4) t v lt by (simp add: store_ok_def valid_history_iff same_rows_db established_def has_columns_def)
  moreover have "grows s ?s2" using s1(2) by (simp add: grows_def same_rows_db)
  ultimately show ?thesis using that turn s1(3) by (simp add: kept_def)
qed

lemma same_tables_trans: "same_tables d d' \<Longrightarrow> same_tables d' d'' \<Longrightarrow> same_tables d d''"
  by (simp add: same_tables_def)

lemma migrate_current:
  assumes "store_ok s" "user_version s = RUNTIME_SCHEMA_VERSION"
  shows "migrate_runtime_schema s = (Inr (), s)"
proof -
  have "validate_runtime_migration_history s = Inr ()" using assms(1) by (simp add: store_ok_def)
  moreover from this have "migration_turn s = Inr None"
    using assms(2) by (simp add: migration_turn_def runtime_schema_version_def RUNTIME_SCHEMA_VERSION_def)
  ultimately show ?thesis by (subst migrate_runtime_schema.simps) simp
qed

lemma migrate_runtime_schema_ok:
  assumes "store_ok s"
  shows "\<exists>s'. migrate_runtime_schema s = (Inr (), s') \<and> store_ok s' \<and> grows s s' \<and>
    same_tables (store_db s) (store_db s') \<and> user_version s' = RUNTIME_SCHEMA_VERSION"
  using assms
proof (induction s rule: migrate_runtime_schema.induct)
  case (1 s)
  show ?case
  proof (cases "user_version s < RUNTIME_SCHEMA_VERSION")
    case True
    then obtain s1 where s1: "migration_turn s = Inr (Some s1)" "store_ok s1" "grows s s1"
      "same_tables (store_db s) (store_db s1)" using migration_turn_ok "1.prems" by metis
    have turn: "migrate_runtime_schema s = migrate_runtime_schema s1"
      by (subst migrate_runtime_schema.simps) (simp add: s1(1))
    from "1.IH" [OF s1(1) refl s1(2)] s1(3,4) show ?thesis
      unfolding turn by (blast intro: grows_trans same_tables_trans)
  next
    case False
    then have "user_version s = RUNTIME_SCHEMA_VERSION"
      using "1.prems" unfolding store_ok_def valid_history_iff by linarith
    then show ?thesis using migrate_current "1.prems" by simp
  qed
qed


lemma normalize_optional_idem [simp]:
  "normalize_optional_db_string (normalize_optional_db_string v) = normalize_optional_db_string v"
  by (simp add: normalize_optional_db_string_def split: option.split)

lemma normalize_or_else:
  "normalize_optional_db_string a = a \<Longrightarrow> normalize_optional_db_string b = b \<Longrightarrow>
    normalize_optional_db_string (or_else a b) = or_else a b"
  by (cases a) (simp_all add: or_else_def)

lemma import_done: "legacy_runtime_metadata_import (migrate_legacy_runtime_metadata s) = None"
proof (cases "legacy_runtime_metadata_import s")
  case None
  then show ?thesis by (simp add: migrate_legacy_runtime_metadata_def)
next
  case (Some sl)
  obtain sel last where sl: "sl = (sel, last)" by (cases sl)
  let ?d = "store_db (migrate_legacy_runtime_metadata s)"
  have parts: "table_exists ''runtime_metadata'' s"
    "sel = or_else (read_project_selection_from_database (store_db s)) (read_legacy_runtime_metadata ''selected_spec'' s)"
    "last = or_else (read_last_spec_path_from_database (store_db s)) (read_legacy_runtime_metadata ''last_spec_path'' s)"
    using Some sl by (auto simp: legacy_runtime_metadata_import_def Let_def split: if_splits)
  have "read_project_selection_from_database ?d = normalize_optional_db_string sel"
    "read_last_spec_path_from_database ?d = normalize_optional_db_string last"
    using Some sl
    by (auto simp: migrate_legacy_runtime_metadata_def read_project_selection_from_database_def
        read_last_spec_path_from_database_def read_project_column_def update_project_state_def
        ensure_project_runtime_state_row_def split: option.splits)
  moreover have "normalize_optional_db_string sel = sel" "normalize_optional_db_string last = last"
    unfolding parts(2,3)
    by (simp_all add: normalize_or_else read_project_selection_from_database_def
        read_last_spec_path_from_database_def read_project_column_def read_legacy_runtime_metadata_def)
  ultimately have r: "read_project_selection_from_database ?d = sel" "read_last_spec_path_from_database ?d = last"
    by simp_all
  have "read_legacy_runtime_metadata n (migrate_legacy_runtime_metadata s) = read_legacy_runtime_metadata n s" for n
    by (simp add: read_legacy_runtime_metadata_def import_frame)
  then show ?thesis
    unfolding legacy_runtime_metadata_import_def Let_def r parts(2,3)
    by (auto simp: or_else_def split: option.split)
qed

lemma store_ok_import: "store_ok s \<Longrightarrow> store_ok (migrate_legacy_runtime_metadata s)"
  unfolding store_ok_def valid_history_iff by (simp add: import_frame import_tables)

lemma current_schema_valid:
  assumes "store_ok s" "user_version s = RUNTIME_SCHEMA_VERSION"
  shows "validate_database_schema s = Inr True"
proof -
  have e: "established 4 s" using assms by (simp add: store_ok_def RUNTIME_SCHEMA_VERSION_def)
  then have "has_columns (legacy_columns @ view_reference_columns @ frozen_view_columns @ canonical_columns) s"
    by (auto simp: established_def has_columns_def)
  moreover have "set required_columns \<subseteq>
      set (legacy_columns @ view_reference_columns @ frozen_view_columns @ canonical_columns)"
    by code_simp
  ultimately have "list_all (\<lambda>(t, c). column_exists t c s) required_columns"
    unfolding has_columns_def list_all_iff by blast
  then show ?thesis
    using established_tables [OF e] assms
    by (simp add: validate_database_schema_def runtime_schema_version_def store_ok_def RUNTIME_SCHEMA_VERSION_def)
qed

text \<open>C30: Opening a database whose history is a prefix of the known migrations, and which has the tables and
  columns those migrations made, always succeeds. Afterwards the schema is the current one and passes its
  validation, no table and no column that was there is missing, the task, run, event and archive rows are
  untouched, and opening it again, to write or to read, changes nothing. A history from a newer version is
  refused and the file is left as it is.\<close>

theorem migration_completes:
  "(store_ok s \<longrightarrow>
     (\<exists>s'. open_runtime_database s = (Inr (), s') \<and> validate_database_schema s' = Inr True \<and> grows s s' \<and>
        same_tables (store_db s) (store_db s') \<and>
        open_runtime_database s' = (Inr (), s') \<and> open_runtime_database_for_read s' = (Inr (), s'))) \<and>
   (RUNTIME_SCHEMA_VERSION < user_version s \<longrightarrow>
     open_runtime_database s = (Inl (Bail (newer_message (user_version s))), s) \<and>
     open_runtime_database_for_read s = (Inl (Bail (newer_message (user_version s))), s))"
proof (rule conjI [rotated]; rule impI)
  assume "RUNTIME_SCHEMA_VERSION < user_version s"
  then have "validate_runtime_migration_history s = Inl (Bail (newer_message (user_version s)))"
    by (simp add: validate_runtime_migration_history_def runtime_schema_version_def RUNTIME_SCHEMA_VERSION_def)
  then show "open_runtime_database s = (Inl (Bail (newer_message (user_version s))), s) \<and>
      open_runtime_database_for_read s = (Inl (Bail (newer_message (user_version s))), s)"
    by (simp add: open_runtime_database_def open_runtime_database_for_read_def initialize_schema_def
        migrate_runtime_schema.simps migration_turn_def)
next
  assume "store_ok s"
  then obtain s1 where s1: "migrate_runtime_schema s = (Inr (), s1)" "store_ok s1" "grows s s1"
    "same_tables (store_db s) (store_db s1)" "user_version s1 = RUNTIME_SCHEMA_VERSION"
    using migrate_runtime_schema_ok by blast
  let ?r = "migrate_legacy_runtime_metadata s1"
  have ok: "store_ok ?r" "user_version ?r = RUNTIME_SCHEMA_VERSION"
    using s1 store_ok_import import_frame(1) by simp_all
  have "migrate_legacy_runtime_metadata ?r = ?r"
    by (simp add: migrate_legacy_runtime_metadata_def [of ?r] import_done)
  then have "open_runtime_database ?r = (Inr (), ?r)"
    using migrate_current [OF ok] by (simp add: open_runtime_database_def initialize_schema_def)
  moreover have "open_runtime_database_for_read ?r = (Inr (), ?r)"
    using ok by (simp add: open_runtime_database_for_read_def import_done store_ok_def)
  moreover have "open_runtime_database s = (Inr (), ?r)" using s1(1) by (simp add: open_runtime_database_def initialize_schema_def)
  moreover have "grows s ?r" "same_tables (store_db s) (store_db ?r)"
    using s1(3,4) import_frame(5) same_tables_trans by (auto simp: grows_def import_tables)
  ultimately show "\<exists>s'. open_runtime_database s = (Inr (), s') \<and> validate_database_schema s' = Inr True \<and>
      grows s s' \<and> same_tables (store_db s) (store_db s') \<and> open_runtime_database s' = (Inr (), s') \<and>
      open_runtime_database_for_read s' = (Inr (), s')"
    using current_schema_valid [OF ok] by blast
qed

text \<open>A file of the first release: a task table with three columns and a selection kept as metadata.\<close>

definition first_release :: store where
  "first_release = \<lparr> user_version = 0, table_columns = [(''tasks'', [''id'', ''path'', ''status'']),
      (''runtime_metadata'', [''key'', ''value''])],
    migration_rows = [], metadata_rows = [(''selected_spec'', Some ''docs/spec.md'')], store_db = empty_db \<rparr>"

theorem migration_completes_witness:
  "store_ok first_release \<and>
   (\<exists>s'. open_runtime_database first_release = (Inr (), s') \<and> validate_database_schema s' = Inr True \<and>
      column_exists ''tasks'' ''status'' s') \<and>
   open_runtime_database (first_release \<lparr> user_version := 5 \<rparr>) =
     (Inl (Bail (newer_message 5)), first_release \<lparr> user_version := 5 \<rparr>)"
proof -
  have ok: "store_ok first_release"
    by (simp add: store_ok_def valid_history_iff established_def first_release_def table_exists_def RUNTIME_SCHEMA_VERSION_def)
  have c: "column_exists ''tasks'' ''status'' first_release" by (simp add: column_exists_def first_release_def)
  have v: "RUNTIME_SCHEMA_VERSION < user_version (first_release \<lparr> user_version := 5 \<rparr>)"
    by (simp add: RUNTIME_SCHEMA_VERSION_def)
  from migration_completes [of first_release] ok obtain s' where
    "open_runtime_database first_release = (Inr (), s')" "validate_database_schema s' = Inr True" "grows first_release s'"
    by blast
  with ok c v show ?thesis
    using migration_completes [of "first_release \<lparr> user_version := 5 \<rparr>"] by (auto simp: grows_def)
qed

end
