(* ===== verification/Sessions.thy ===== *)
theory Sessions
  imports Schema
begin

text \<open>
  Managed sessions: \<open>src/src/project/claims/session.rs\<close> and the supervisor sessions of
  \<open>src/src/project/claims.rs\<close>. A session is bound to one exact run; each of its operations opens the prepared
  database without migrating it, checks the binding, and runs inside one transaction that is committed as a whole
  or rolled back.

  \<open>canonicalize\<close> is the file system's resolution of a path (a parameter), \<open>now\<close> the clock readings, \<open>ts\<close>
  the text of \<open>timestamp()\<close>. The \<open>operation\<close> of a session is an argument, as in the code.

  The lemmas show that a session whose run is not the bound, active one changes nothing, that a session's
  operations change no task but the bound one, and that a consultant never touches the executor's lease.
\<close>

section \<open>Scopes and contexts\<close>

record ExecutorSessionScope =
  s_agent_id :: string
  s_task_id :: string
  s_run_id :: string
  s_workspace_path :: string

definition check_binding ::
  "(string \<Rightarrow> string res) \<Rightarrow> ExecutorSessionScope \<Rightarrow> string \<Rightarrow> run_row \<Rightarrow> unit res" where
  "check_binding canonicalize scope role r =
    res_bind (ensure (r_task_id r = s_task_id scope) (Bail ''Run task binding mismatch'')) (\<lambda>_.
    res_bind (ensure (r_agent r = s_agent_id scope) (Bail ''Run agent binding mismatch'')) (\<lambda>_.
    res_bind (ensure (r_role r = role) (Bail ''Run role mismatch'')) (\<lambda>_.
    res_bind (ensure (r_status r \<in> {''running'', ''checking''}) (Bail ''Bound run is no longer active'')) (\<lambda>_.
    if is_absolute (r_workspace_path r)
    then res_bind (canonicalize (r_workspace_path r)) (\<lambda>p.
           ensure (p = s_workspace_path scope) (Bail ''Run workspace binding mismatch''))
    else Inl (Bail ''Run workspace binding mismatch'')))))"

definition executor_context_in_transaction ::
  "(string \<Rightarrow> string res) \<Rightarrow> ExecutorSessionScope \<Rightarrow> string \<Rightarrow> db \<Rightarrow> RuntimeTaskContext res" where
  "executor_context_in_transaction canonicalize scope role d =
    (case find_run (s_run_id scope) d of
       None \<Rightarrow> Inl (Bail ''Bound run is missing'')
     | Some r \<Rightarrow>
         res_bind (check_binding canonicalize scope role r) (\<lambda>_.
           case find_task (s_task_id scope) d of
             None \<Rightarrow> Inl (Bail ''Bound task is missing'')
           | Some t \<Rightarrow>
               res_bind (repository_view_reference_from_database (t_view t)) (\<lambda>v.
                 let context = (context_of_task t v) \<lparr> x_run_id := Some (s_run_id scope), x_run_role := Some (r_role r),
                       x_workspace_path := Some (r_workspace_path r),
                       x_repository_workspace_path := Some (r_workspace_path r) \<rparr>
                 in if role = ''supervisor'' \<and> x_status context \<in> {''reviewing'', ''awaiting_human''}
                    then res_bind (repository_view_reference_from_database (r_view r)) (\<lambda>rv.
                           Inr (context \<lparr> x_repository_view := rv \<rparr>))
                    else Inr context)))"

text \<open>The operation runs in the transaction of the session; a read-only connection refuses to write.\<close>

definition with_role_session ::
  "(string \<Rightarrow> string res) \<Rightarrow> ExecutorSessionScope \<Rightarrow> bool \<Rightarrow> string \<Rightarrow>
    (RuntimeTaskContext \<Rightarrow> db \<Rightarrow> ('a \<times> db) res) \<Rightarrow> store \<Rightarrow> 'a res \<times> store" where
  "with_role_session canonicalize scope write role operation s =
    (case
       res_bind (validate_runtime_migration_history s) (\<lambda>_.
       res_bind (runtime_schema_version s) (\<lambda>version.
       res_bind (ensure (version = RUNTIME_SCHEMA_VERSION)
         (Bail ''Managed session requires the current runtime schema'')) (\<lambda>_.
       res_bind (executor_context_in_transaction canonicalize scope role (store_db s)) (\<lambda>context.
       res_bind (operation context (store_db s)) (\<lambda>(result, d').
         if \<not> write \<and> d' \<noteq> store_db s then Inl (SqlError ''attempt to write a readonly database'')
         else Inr (result, d'))))))
     of
       Inl e \<Rightarrow> (Inl e, s)
     | Inr (result, d') \<Rightarrow> (Inr result, s \<lparr> store_db := d' \<rparr>))"

definition with_executor_session ::
  "(string \<Rightarrow> string res) \<Rightarrow> ExecutorSessionScope \<Rightarrow> bool \<Rightarrow>
    (RuntimeTaskContext \<Rightarrow> db \<Rightarrow> ('a \<times> db) res) \<Rightarrow> store \<Rightarrow> 'a res \<times> store" where
  "with_executor_session canonicalize scope write operation s =
    with_role_session canonicalize scope write ''executor'' operation s"

definition with_supervisor_session ::
  "(string \<Rightarrow> string res) \<Rightarrow> ExecutorSessionScope \<Rightarrow> bool \<Rightarrow>
    (RuntimeTaskContext \<Rightarrow> db \<Rightarrow> ('a \<times> db) res) \<Rightarrow> store \<Rightarrow> 'a res \<times> store" where
  "with_supervisor_session canonicalize scope write operation s =
    with_role_session canonicalize scope write ''supervisor'' operation s"

definition require_executor_owner :: "chrono \<Rightarrow> datetime \<Rightarrow> ExecutorSessionScope \<Rightarrow> db \<Rightarrow> unit res" where
  "require_executor_owner C now scope d =
    (case task_candidate_by_id (s_task_id scope) d of
       None \<Rightarrow> Inl (Bail ''Bound task is missing'')
     | Some task \<Rightarrow>
         res_bind (ensure (c_claimed_by task = Some (s_agent_id scope)) (Bail ''Executor lease lost'')) (\<lambda>_.
           ensure (lease_active C now (c_lease_until task)) (Bail ''Executor lease expired'')))"

definition executor_event :: "ExecutorSessionScope \<Rightarrow> string \<Rightarrow> json \<Rightarrow> db \<Rightarrow> db res" where
  "executor_event scope kind payload d = insert_event_in_transaction (Some (s_run_id scope)) kind payload d"


section \<open>Executor sessions\<close>

definition work_status :: "string option \<Rightarrow> bool" where
  "work_status v = (v = Some ''executing'' \<or> v = Some ''addressing'')"

definition claim_executor_operation ::
  "chrono \<Rightarrow> datetime \<Rightarrow> string \<Rightarrow> ExecutorSessionScope \<Rightarrow> 64 word \<Rightarrow> RuntimeTaskContext \<Rightarrow> db \<Rightarrow>
    (ReadyTaskClaim \<times> db) res" where
  "claim_executor_operation C now ts scope ttl context d =
    (let (owner, resume) = (case find_task (s_task_id scope) d of
           None \<Rightarrow> (None, None)
         | Some t \<Rightarrow> (t_awaiting_human_by t, t_awaiting_human_status t)) in
     if x_status context = as_str AwaitingHuman \<and>
        (owner \<noteq> Some (s_agent_id scope) \<or> \<not> work_status (or_else resume (x_paused_status context)))
     then Inr (NoAvailable, d)
     else if x_status context = as_str Consultation \<and> \<not> work_status (x_paused_status context)
     then Inr (NoAvailable, d)
     else claim_ready_task_in_transaction C now ts (s_task_id scope) (s_agent_id scope) ttl
            [Pending, Executing, Addressing, AwaitingHuman, Consultation] True d)"

definition claim_executor_session ::
  "(string \<Rightarrow> string res) \<Rightarrow> chrono \<Rightarrow> datetime \<Rightarrow> string \<Rightarrow> ExecutorSessionScope \<Rightarrow> 64 word \<Rightarrow> store \<Rightarrow>
    ReadyTaskClaim res \<times> store" where
  "claim_executor_session canonicalize C now ts scope ttl s =
    with_executor_session canonicalize scope True (claim_executor_operation C now ts scope ttl) s"

definition executor_session_status ::
  "(string \<Rightarrow> string res) \<Rightarrow> ExecutorSessionScope \<Rightarrow> store \<Rightarrow> RuntimeTaskContext res \<times> store" where
  "executor_session_status canonicalize scope s =
    with_executor_session canonicalize scope False (\<lambda>context d. Inr (context, d)) s"

definition renew_executor_operation ::
  "chrono \<Rightarrow> datetime \<Rightarrow> ExecutorSessionScope \<Rightarrow> 64 word \<Rightarrow> RuntimeTaskContext \<Rightarrow> db \<Rightarrow> (LeaseRenewal \<times> db) res" where
  "renew_executor_operation C now scope ttl context d =
    (case task_candidate_by_id (s_task_id scope) d of
       None \<Rightarrow> Inl (Bail ''Bound task is missing'')
     | Some task \<Rightarrow>
         if c_claimed_by task \<noteq> Some (s_agent_id scope) then Inr (NotClaimed, d)
         else
           res_bind (ensure (c_status task \<in> {''executing'', ''addressing'', ''consultation'', ''awaiting_human''})
             (Bail ''Bound task is outside the Executor work phase'')) (\<lambda>_.
           res_bind (renew_task_lease_in_transaction C now (s_task_id scope) (s_agent_id scope) ttl (c_lease_until task) d)
             (\<lambda>(renewed, d1). case renewed of
                None \<Rightarrow> Inr (Expired, d1)
              | Some lease_until \<Rightarrow> Inr (Renewed (c_id task) (c_path task) (s_agent_id scope) lease_until, d1))))"

definition renew_executor_session_lease ::
  "(string \<Rightarrow> string res) \<Rightarrow> chrono \<Rightarrow> datetime \<Rightarrow> ExecutorSessionScope \<Rightarrow> 64 word \<Rightarrow> store \<Rightarrow>
    LeaseRenewal res \<times> store" where
  "renew_executor_session_lease canonicalize C now scope ttl s =
    with_executor_session canonicalize scope True (renew_executor_operation C now scope ttl) s"


section \<open>Supervisor sessions\<close>

text \<open>\<open>to_rfc3339\<close> prints the inherited deadline at full precision (a parameter, like the other functions of
  \<open>chrono\<close>); \<open>now'\<close> is the clock reading of the renewal.\<close>

definition start_supervisor_operation ::
  "(string \<Rightarrow> string res) \<Rightarrow> chrono \<Rightarrow> (datetime \<Rightarrow> string) \<Rightarrow> datetime \<Rightarrow> datetime \<Rightarrow> string \<Rightarrow> ExecutorSessionScope \<Rightarrow> bool \<Rightarrow> 64 word \<Rightarrow>
    RuntimeTaskContext \<Rightarrow> db \<Rightarrow> (unit \<times> db) res" where
  "start_supervisor_operation canonicalize C to_rfc3339 now now' ts scope reviewer ttl context d =
    (let phase = (if reviewer then ''reviewing'' else ''consultation'');
         (owner, resume) = (case find_task (s_task_id scope) d of
           None \<Rightarrow> (None, None)
         | Some t \<Rightarrow> (t_awaiting_human_by t, t_awaiting_human_status t)) in
     res_bind (ensure (\<not> list_ex (\<lambda>r. active_supervisor_of (s_task_id scope) r \<and> r_id r \<noteq> s_run_id scope) (runs d))
       (Bail ''Another Supervisor run is attached to this task'')) (\<lambda>_.
     res_bind
       (if x_status context = ''awaiting_human''
        then ensure (owner = Some (s_agent_id scope) \<and> resume = Some phase) (Bail ''Human waiter binding mismatch'')
        else ensure (x_status context = phase) (Bail ''Supervisor task phase mismatch'')) (\<lambda>_.
     if reviewer
     then res_bind (claim_ready_task_in_transaction C now ts (s_task_id scope) (s_agent_id scope) ttl
              [Reviewing, AwaitingHuman] False d) (\<lambda>(claim, d1).
            case claim of
              NoAvailable \<Rightarrow> Inl (Bail ''Reviewer lease unavailable'')
            | AlreadyClaimed lease \<Rightarrow>
                res_bind (renew_task_lease_in_transaction C now' (s_task_id scope) (s_agent_id scope) ttl
                    (Some (to_rfc3339 (l_lease_until lease))) d1) (\<lambda>(renewed, d2).
                  res_bind (ensure (renewed \<noteq> None) (Bail ''Inherited Reviewer lease expired'')) (\<lambda>_. Inr ((), d2)))
            | Claimed lease \<Rightarrow> Inr ((), d1))
     else
       (case latest_executor_workspace_for_task (s_task_id scope) d of
          None \<Rightarrow> Inl (Bail ''Missing consultation Executor workspace'')
        | Some workspace \<Rightarrow>
            res_bind (canonicalize workspace) (\<lambda>p.
            res_bind (ensure (p = s_workspace_path scope) (Bail ''Consultant workspace mismatch'')) (\<lambda>_. Inr ((), d)))))))"

definition start_supervisor_session ::
  "(string \<Rightarrow> string res) \<Rightarrow> chrono \<Rightarrow> (datetime \<Rightarrow> string) \<Rightarrow> datetime \<Rightarrow> datetime \<Rightarrow> string \<Rightarrow> ExecutorSessionScope \<Rightarrow> bool \<Rightarrow> 64 word \<Rightarrow>
    store \<Rightarrow> unit res \<times> store" where
  "start_supervisor_session canonicalize C to_rfc3339 now now' ts scope reviewer ttl s =
    with_supervisor_session canonicalize scope True
      (start_supervisor_operation canonicalize C to_rfc3339 now now' ts scope reviewer ttl) s"

definition require_supervisor_review ::
  "chrono \<Rightarrow> datetime \<Rightarrow> ExecutorSessionScope \<Rightarrow> RuntimeTaskContext \<Rightarrow> Digest option \<Rightarrow> db \<Rightarrow> unit res" where
  "require_supervisor_review C now scope context expected_tree d =
    res_bind (require_executor_owner C now scope d) (\<lambda>_.
    res_bind (ensure (x_status context = ''reviewing'' \<and> expected_tree \<noteq> None \<and>
        view_frozen_source_tree (x_repository_view context) = expected_tree)
      (Bail ''Native review binding changed before decision'')) (\<lambda>_.
      case find_task (s_task_id scope) d of
        None \<Rightarrow> Inl (SqlError ''Query returned no rows'')
      | Some t \<Rightarrow> ensure (repository_view_tree_digest (t_view t) = map_option digest_value expected_tree)
          (Bail ''Review submission changed before decision'')))"

text \<open>\<open>publish_review\<close> is the closure that writes the review notes; its failure rolls the rejection back.\<close>

definition reject_supervisor_operation ::
  "chrono \<Rightarrow> datetime \<Rightarrow> ExecutorSessionScope \<Rightarrow> Digest option \<Rightarrow> 32 word \<Rightarrow> (RuntimeTaskContext \<Rightarrow> unit res) \<Rightarrow>
    RuntimeTaskContext \<Rightarrow> db \<Rightarrow> (TaskReviewRejection \<times> db) res" where
  "reject_supervisor_operation C now scope expected_tree max_cycles publish_review context d =
    res_bind (require_supervisor_review C now scope context expected_tree d) (\<lambda>_.
    res_bind (record_task_review_rejected_in_transaction (s_task_id scope) max_cycles d) (\<lambda>(rejection, d1).
    res_bind (publish_review context) (\<lambda>_. Inr (rejection, d1))))"

definition reject_supervisor_session ::
  "(string \<Rightarrow> string res) \<Rightarrow> chrono \<Rightarrow> datetime \<Rightarrow> ExecutorSessionScope \<Rightarrow> Digest option \<Rightarrow> 32 word \<Rightarrow>
    (RuntimeTaskContext \<Rightarrow> unit res) \<Rightarrow> store \<Rightarrow> TaskReviewRejection res \<times> store" where
  "reject_supervisor_session canonicalize C now scope expected_tree max_cycles publish_review s =
    with_supervisor_session canonicalize scope True
      (reject_supervisor_operation C now scope expected_tree max_cycles publish_review) s"

definition renew_supervisor_operation ::
  "chrono \<Rightarrow> datetime \<Rightarrow> datetime \<Rightarrow> ExecutorSessionScope \<Rightarrow> 64 word \<Rightarrow> RuntimeTaskContext \<Rightarrow> db \<Rightarrow> (bool \<times> db) res" where
  "renew_supervisor_operation C now now' scope ttl context d =
    (if x_status context \<notin> {''reviewing'', ''awaiting_human''} then Inr (False, d)
     else res_bind (require_executor_owner C now scope d) (\<lambda>_.
       case find_task (s_task_id scope) d of
         None \<Rightarrow> Inl (SqlError ''Query returned no rows'')
       | Some t \<Rightarrow>
           res_bind (renew_task_lease_in_transaction C now' (s_task_id scope) (s_agent_id scope) ttl (t_lease_until t) d)
             (\<lambda>(renewed, d1). Inr (renewed \<noteq> None, d1))))"

definition renew_supervisor_session ::
  "(string \<Rightarrow> string res) \<Rightarrow> chrono \<Rightarrow> datetime \<Rightarrow> datetime \<Rightarrow> ExecutorSessionScope \<Rightarrow> 64 word \<Rightarrow> store \<Rightarrow>
    bool res \<times> store" where
  "renew_supervisor_session canonicalize C now now' scope ttl s =
    with_supervisor_session canonicalize scope True (renew_supervisor_operation C now now' scope ttl) s"



section \<open>The fence\<close>

text \<open>The run a session is bound to, as the checks of every operation see it.\<close>

definition bound :: "(string \<Rightarrow> string res) \<Rightarrow> ExecutorSessionScope \<Rightarrow> string \<Rightarrow> db \<Rightarrow> bool" where
  "bound canonicalize scope role d =
    (case find_run (s_run_id scope) d of
       None \<Rightarrow> False
     | Some r \<Rightarrow> r_task_id r = s_task_id scope \<and> r_agent r = s_agent_id scope \<and> r_role r = role \<and>
         r_status r \<in> {''running'', ''checking''} \<and> is_absolute (r_workspace_path r) \<and>
         canonicalize (r_workspace_path r) = Inr (s_workspace_path scope))"

lemma check_binding_iff:
  "check_binding canonicalize scope role r = Inr () \<longleftrightarrow>
    r_task_id r = s_task_id scope \<and> r_agent r = s_agent_id scope \<and> r_role r = role \<and>
    r_status r \<in> {''running'', ''checking''} \<and> is_absolute (r_workspace_path r) \<and>
    canonicalize (r_workspace_path r) = Inr (s_workspace_path scope)"
  by (auto simp: check_binding_def res_bind_Inr_iff ensure_def)

lemma context_bound:
  assumes "executor_context_in_transaction canonicalize scope role d = Inr context"
  obtains t where "bound canonicalize scope role d" "find_task (s_task_id scope) d = Some t"
    "x_status context = t_status t" "x_paused_status context = t_paused_status t"
  using assms
  by (auto simp: executor_context_in_transaction_def bound_def check_binding_iff res_bind_Inr_iff Let_def context_of_task_def
      split: option.splits if_splits)

definition session_frame ::
  "(string \<Rightarrow> string res) \<Rightarrow> ExecutorSessionScope \<Rightarrow> string \<Rightarrow> store \<Rightarrow> store \<Rightarrow> bool" where
  "session_frame canonicalize scope role s s' =
    (s' = s \<or>
     bound canonicalize scope role (store_db s) \<and> user_version s = RUNTIME_SCHEMA_VERSION \<and>
     (\<exists>d'. s' = s \<lparr> store_db := d' \<rparr> \<and> runs d' = runs (store_db s) \<and>
        (\<forall>k. k \<noteq> s_task_id scope \<longrightarrow> find_task k d' = find_task k (store_db s)) \<and>
        (db_inv (store_db s) \<longrightarrow> db_inv d')))"

lemma session_Inr:
  assumes "with_role_session canonicalize scope write role operation s = (Inr a, s')"
  obtains ctx d' where "user_version s = RUNTIME_SCHEMA_VERSION"
    "executor_context_in_transaction canonicalize scope role (store_db s) = Inr ctx"
    "operation ctx (store_db s) = Inr (a, d')" "s' = s \<lparr> store_db := d' \<rparr>" "\<not> write \<Longrightarrow> s' = s"
  using assms
  by (auto simp: with_role_session_def res_bind_Inr_iff runtime_schema_version_def ensure_def
      split: sum.splits if_splits prod.splits)

lemma session_Inl:
  "with_role_session canonicalize scope write role operation s = (Inl e, s') \<Longrightarrow> s' = s"
  by (auto simp: with_role_session_def split: sum.splits prod.splits)

text \<open>What a session relies on of the operation it runs: only the row of its task may change.\<close>

locale session_operation =
  fixes operation :: "RuntimeTaskContext \<Rightarrow> db \<Rightarrow> ('a \<times> db) res"
    and tid :: string
  assumes other_tasks: "operation context d = Inr (a, d') \<Longrightarrow> k \<noteq> tid \<Longrightarrow> find_task k d' = find_task k d"
    and same_runs: "operation context d = Inr (a, d') \<Longrightarrow> runs d' = runs d"
    and keeps_inv: "operation context d = Inr (a, d') \<Longrightarrow> db_inv d \<Longrightarrow> db_inv d'"
begin

lemma fenced:
  assumes "s_task_id scope = tid"
  shows "session_frame canonicalize scope role s (snd (with_role_session canonicalize scope write role operation s))"
proof (cases "with_role_session canonicalize scope write role operation s")
  case (Pair r s')
  show ?thesis
  proof (cases r)
    case (Inl e)
    then show ?thesis using Pair session_Inl by (fastforce simp: session_frame_def)
  next
    case (Inr a)
    obtain ctx d' where s': "user_version s = RUNTIME_SCHEMA_VERSION"
      "executor_context_in_transaction canonicalize scope role (store_db s) = Inr ctx"
      "operation ctx (store_db s) = Inr (a, d')" "s' = s \<lparr> store_db := d' \<rparr>"
      by (rule session_Inr [OF Pair [unfolded Inr]])
    have "bound canonicalize scope role (store_db s)" using s'(2) by (rule context_bound)
    then show ?thesis
      unfolding session_frame_def Pair snd_conv
      using s'(1,4) same_runs [OF s'(3)] other_tasks [OF s'(3)] keeps_inv [OF s'(3)] assms by blast
  qed
qed

end

lemma renew_other_task:
  "renew_task_lease_in_transaction C now tid agent ttl lease d = Inr (r, d') \<Longrightarrow> k \<noteq> tid \<Longrightarrow> find_task k d' = find_task k d"
  "renew_task_lease_in_transaction C now tid agent ttl lease d = Inr (r, d') \<Longrightarrow> runs d' = runs d"
  by (auto simp: renew_task_lease_in_transaction_def res_bind_Inr_iff Let_def row_simps split: option.splits if_splits)

lemma claim_other_task:
  assumes "claim_ready_task_in_transaction C now ts tid agent ttl st p d = Inr (r, d')"
  shows "k \<noteq> tid \<Longrightarrow> find_task k d' = find_task k d" "runs d' = runs d"
  using assms by (elim claim_ready_elim; simp)+

interpretation claim_executor: session_operation "claim_executor_operation C now ts scope ttl" "s_task_id scope"
  for C now ts scope ttl
proof
  fix ctx d a d' and k :: string
  assume op: "claim_executor_operation C now ts scope ttl ctx d = Inr (a, d')"
  then consider "d' = d" | (claim) "claim_ready_task_in_transaction C now ts (s_task_id scope) (s_agent_id scope) ttl
      [Pending, Executing, Addressing, AwaitingHuman, Consultation] True d = Inr (a, d')"
    by (auto simp: claim_executor_operation_def Let_def split: prod.splits if_splits)
  then show "runs d' = runs d" "db_inv d \<Longrightarrow> db_inv d'" "k \<noteq> s_task_id scope \<Longrightarrow> find_task k d' = find_task k d"
    by (cases; simp add: claim_other_task db_inv_claim_ready)+
qed

interpretation renew_executor: session_operation "renew_executor_operation C now scope ttl" "s_task_id scope"
  for C now scope ttl
proof
  fix ctx d a d' and k :: string
  assume op: "renew_executor_operation C now scope ttl ctx d = Inr (a, d')"
  then consider "d' = d" | (renew) t r where "find_task (s_task_id scope) d = Some t" "t_claimed_by t = Some (s_agent_id scope)"
      "renew_task_lease_in_transaction C now (s_task_id scope) (s_agent_id scope) ttl (t_lease_until t) d = Inr (r, d')"
    by (auto simp: renew_executor_operation_def task_candidate_by_id_def res_bind_Inr_iff split: option.splits if_splits)
  then show "runs d' = runs d" "db_inv d \<Longrightarrow> db_inv d'" "k \<noteq> s_task_id scope \<Longrightarrow> find_task k d' = find_task k d"
    by (cases; auto dest: renew_other_task db_inv_renew)+
qed


lemma claimed_owner:
  assumes "claim_ready_task_in_transaction C now ts tid agent ttl st p d = Inr (AlreadyClaimed lease, d1)"
  shows "find_task tid d1 = Some u \<Longrightarrow> t_claimed_by u = Some agent"
  using assms by (elim claim_ready_elim) (auto simp: owns_active_def)

interpretation start_supervisor: session_operation
    "start_supervisor_operation canonicalize C to_rfc3339 now now' ts scope reviewer ttl" "s_task_id scope"
  for canonicalize C to_rfc3339 now now' ts scope reviewer ttl
proof
  fix ctx d a d' and k :: string
  assume op: "start_supervisor_operation canonicalize C to_rfc3339 now now' ts scope reviewer ttl ctx d = Inr (a, d')"
  let ?claim = "claim_ready_task_in_transaction C now ts (s_task_id scope) (s_agent_id scope) ttl [Reviewing, AwaitingHuman] False d"
  from op consider "d' = d" | (claim) lease where "?claim = Inr (Claimed lease, d')"
    | (renew) lease d1 r where "?claim = Inr (AlreadyClaimed lease, d1)"
      "renew_task_lease_in_transaction C now' (s_task_id scope) (s_agent_id scope) ttl
        (Some (to_rfc3339 (l_lease_until lease))) d1 = Inr (r, d')"
    by (auto simp: start_supervisor_operation_def Let_def res_bind_Inr_iff ensure_def
        split: prod.splits if_splits option.splits ReadyTaskClaim.splits)
  then have "runs d' = runs d \<and> (db_inv d \<longrightarrow> db_inv d') \<and> (k \<noteq> s_task_id scope \<longrightarrow> find_task k d' = find_task k d)"
  proof cases
    case claim
    then show ?thesis using claim_other_task [OF claim] db_inv_claim_ready [OF claim] by blast
  next
    case renew
    have "db_inv d1 \<Longrightarrow> db_inv d'" using db_inv_renew [OF renew(2)] claimed_owner [OF renew(1)] by simp
    then show ?thesis
      using claim_other_task [OF renew(1)] db_inv_claim_ready [OF renew(1)] renew_other_task [OF renew(2)] by simp
  qed simp
  then show "runs d' = runs d" "db_inv d \<Longrightarrow> db_inv d'" "k \<noteq> s_task_id scope \<Longrightarrow> find_task k d' = find_task k d"
    by blast+
qed

interpretation reject_supervisor: session_operation
    "reject_supervisor_operation C now scope expected_tree max_cycles publish_review" "s_task_id scope"
  for C now scope expected_tree max_cycles publish_review
proof
  fix ctx d a d' and k :: string
  assume op: "reject_supervisor_operation C now scope expected_tree max_cycles publish_review ctx d = Inr (a, d')"
  then have rej: "record_task_review_rejected_in_transaction (s_task_id scope) max_cycles d = Inr (a, d')"
    by (auto simp: reject_supervisor_operation_def res_bind_Inr_iff)
  show "db_inv d \<Longrightarrow> db_inv d'" using rej by (rule db_inv_rejected)
  show "runs d' = runs d" "k \<noteq> s_task_id scope \<Longrightarrow> find_task k d' = find_task k d"
    using rej by (auto simp: record_task_review_rejected_in_transaction_def Let_def row_simps split: if_splits)
qed

interpretation renew_supervisor: session_operation
    "renew_supervisor_operation C now now' scope ttl" "s_task_id scope"
  for C now now' scope ttl
proof
  fix ctx d a d' and k :: string
  assume op: "renew_supervisor_operation C now now' scope ttl ctx d = Inr (a, d')"
  then consider "d' = d" | (renew) t r where "find_task (s_task_id scope) d = Some t" "t_claimed_by t = Some (s_agent_id scope)"
      "renew_task_lease_in_transaction C now' (s_task_id scope) (s_agent_id scope) ttl (t_lease_until t) d = Inr (r, d')"
    by (auto simp: renew_supervisor_operation_def require_executor_owner_def task_candidate_by_id_def res_bind_Inr_iff
        ensure_def split: option.splits if_splits)
  then show "runs d' = runs d" "db_inv d \<Longrightarrow> db_inv d'" "k \<noteq> s_task_id scope \<Longrightarrow> find_task k d' = find_task k d"
    by (cases; auto dest: renew_other_task db_inv_renew)+
qed

interpretation session_status: session_operation "\<lambda>ctx d. Inr (ctx, d)" tid for tid
  by unfold_locales simp_all

lemmas session_defs = claim_executor_session_def renew_executor_session_lease_def start_supervisor_session_def
  reject_supervisor_session_def renew_supervisor_session_def executor_session_status_def
  with_executor_session_def with_supervisor_session_def

lemma consultant_unchanged:
  "snd (start_supervisor_session canonicalize C to_rfc3339 now now' ts scope False ttl s) = s"
proof (cases "start_supervisor_session canonicalize C to_rfc3339 now now' ts scope False ttl s")
  case (Pair r s')
  show ?thesis
  proof (cases r)
    case (Inl e)
    then show ?thesis using Pair session_Inl by (fastforce simp: session_defs)
  next
    case (Inr a)
    obtain ctx d' where "start_supervisor_operation canonicalize C to_rfc3339 now now' ts scope False ttl ctx (store_db s) = Inr (a, d')"
      "s' = s \<lparr> store_db := d' \<rparr>"
      by (rule session_Inr [OF Pair [unfolded session_defs Inr]])
    then have "s' = s"
      by (auto simp: start_supervisor_operation_def Let_def res_bind_Inr_iff split: prod.splits option.splits)
    then show ?thesis using Pair by simp
  qed
qed

text \<open>C31: A managed session acts only through its own run and on its own task. Whatever an executor or
  supervisor session does, the store is unchanged unless the bound run is still active with the bound agent,
  role and workspace on a current schema; then all runs and every other task are as before and the invariant is
  kept. Reading the status and starting a consultant change nothing at all, so a consultant never owns or
  disturbs the executor's lease.\<close>

theorem session_acts_on_its_task:
  "session_frame canonicalize scope ''executor'' s (snd (claim_executor_session canonicalize C now ts scope ttl s)) \<and>
   session_frame canonicalize scope ''executor'' s (snd (renew_executor_session_lease canonicalize C now scope ttl s)) \<and>
   session_frame canonicalize scope ''supervisor'' s
     (snd (start_supervisor_session canonicalize C to_rfc3339 now now' ts scope reviewer ttl s)) \<and>
   session_frame canonicalize scope ''supervisor'' s
     (snd (reject_supervisor_session canonicalize C now scope expected_tree max_cycles publish_review s)) \<and>
   session_frame canonicalize scope ''supervisor'' s
     (snd (renew_supervisor_session canonicalize C now now' scope ttl s)) \<and>
   snd (executor_session_status canonicalize scope s) = s \<and>
   snd (start_supervisor_session canonicalize C to_rfc3339 now now' ts scope False ttl s) = s"
proof (intro conjI)
  show "snd (executor_session_status canonicalize scope s) = s"
    by (auto simp: session_defs with_role_session_def res_bind_Inr_iff split: sum.split)
qed (simp_all only: session_defs claim_executor.fenced renew_executor.fenced start_supervisor.fenced
    reject_supervisor.fenced renew_supervisor.fenced consultant_unchanged [unfolded session_defs])

lemma reject_requirements:
  assumes "reject_supervisor_session canonicalize C now scope expected_tree max_cycles publish_review s = (Inr a, s')"
  obtains t r v tree d' where "find_task (s_task_id scope) (store_db s) = Some t" "t_claimed_by t = Some (s_agent_id scope)"
    "lease_active C now (t_lease_until t)" "t_status t = ''reviewing''" "expected_tree = Some tree"
    "repository_view_tree_digest (t_view t) = Some (digest_value tree)"
    "find_run (s_run_id scope) (store_db s) = Some r" "repository_view_reference_from_database (r_view r) = Inr v"
    "view_frozen_source_tree v = Some tree"
    "record_task_review_rejected_in_transaction (s_task_id scope) max_cycles (store_db s) = Inr (a, d')"
    "s' = s \<lparr> store_db := d' \<rparr>"
proof -
  obtain ctx d' where c: "executor_context_in_transaction canonicalize scope ''supervisor'' (store_db s) = Inr ctx"
    and op: "reject_supervisor_operation C now scope expected_tree max_cycles publish_review ctx (store_db s) = Inr (a, d')"
    and s': "s' = s \<lparr> store_db := d' \<rparr>"
    by (rule session_Inr [OF assms [unfolded session_defs]])
  from op have rv: "require_supervisor_review C now scope ctx expected_tree (store_db s) = Inr ()"
    and rej: "record_task_review_rejected_in_transaction (s_task_id scope) max_cycles (store_db s) = Inr (a, d')"
    by (auto simp: reject_supervisor_operation_def res_bind_Inr_iff)
  from rv obtain t tree where t: "find_task (s_task_id scope) (store_db s) = Some t" "t_claimed_by t = Some (s_agent_id scope)"
    "lease_active C now (t_lease_until t)" "expected_tree = Some tree"
    "repository_view_tree_digest (t_view t) = Some (digest_value tree)" "x_status ctx = ''reviewing''"
    "view_frozen_source_tree (x_repository_view ctx) = Some tree"
    by (auto simp: require_supervisor_review_def require_executor_owner_def task_candidate_by_id_def res_bind_Inr_iff
        ensure_def split: option.splits if_splits)
  from c t(1,6) obtain r v where "find_run (s_run_id scope) (store_db s) = Some r"
    "repository_view_reference_from_database (r_view r) = Inr v" "x_repository_view ctx = v" "t_status t = ''reviewing''"
    by (auto simp: executor_context_in_transaction_def res_bind_Inr_iff Let_def context_of_task_def
        split: option.splits if_splits)
  with t rej s' that show ?thesis by simp
qed


text \<open>C32: A review is decided once, and on the submission the reviewer saw. A rejection succeeds only while the
  session's agent holds an unexpired lease on a task in review whose recorded tree and whose run's frozen tree
  both are the expected one; it releases the lease, so every later rejection of the session, of whatever tree
  and at whatever time, is refused and changes nothing. A rejection that fails, for example because the notes
  could not be written, changes nothing either.\<close>

theorem review_decided_once:
  assumes "reject_supervisor_session canonicalize C now scope expected_tree max_cycles publish_review s = (res, s')"
  shows "(case res of
      Inl e \<Rightarrow> s' = s
    | Inr _ \<Rightarrow>
        (\<exists>t r v tree. find_task (s_task_id scope) (store_db s) = Some t \<and> t_claimed_by t = Some (s_agent_id scope) \<and>
          lease_active C now (t_lease_until t) \<and> t_status t = ''reviewing'' \<and> expected_tree = Some tree \<and>
          repository_view_tree_digest (t_view t) = Some (digest_value tree) \<and>
          find_run (s_run_id scope) (store_db s) = Some r \<and>
          repository_view_reference_from_database (r_view r) = Inr v \<and> view_frozen_source_tree v = Some tree) \<and>
        (\<exists>e. reject_supervisor_session canonicalize' C' now' scope expected_tree' max_cycles' publish_review' s' = (Inl e, s')))"
proof (cases res)
  case (Inl e)
  then show ?thesis using assms session_Inl by (fastforce simp: session_defs)
next
  case (Inr a)
  note ok = assms [unfolded Inr]
  obtain t r v tree d' where t: "find_task (s_task_id scope) (store_db s) = Some t" "t_claimed_by t = Some (s_agent_id scope)"
    "lease_active C now (t_lease_until t)" "t_status t = ''reviewing''" "expected_tree = Some tree"
    "repository_view_tree_digest (t_view t) = Some (digest_value tree)"
    "find_run (s_run_id scope) (store_db s) = Some r" "repository_view_reference_from_database (r_view r) = Inr v"
    "view_frozen_source_tree v = Some tree"
    and rej: "record_task_review_rejected_in_transaction (s_task_id scope) max_cycles (store_db s) = Inr (a, d')"
    and s': "s' = s \<lparr> store_db := d' \<rparr>"
    by (rule reject_requirements [OF ok])
  have free: "find_task (s_task_id scope) d' = Some u \<Longrightarrow> t_claimed_by u = None" for u
    using rej t(1)
    by (auto simp: record_task_review_rejected_in_transaction_def Let_def row_simps clear_lease_row_def split: if_splits)
  let ?again = "reject_supervisor_session canonicalize' C' now' scope expected_tree' max_cycles' publish_review' s'"
  have "fst ?again \<noteq> Inr b" for b
  proof
    assume "fst ?again = Inr b"
    then obtain s2 where "?again = (Inr b, s2)" by (cases ?again) auto
    from reject_requirements [OF this] obtain u where "find_task (s_task_id scope) d' = Some u"
      "t_claimed_by u = Some (s_agent_id scope)" unfolding s' by auto
    with free show False by simp
  qed
  then obtain e s2 where e: "?again = (Inl e, s2)" by (cases "fst ?again"; cases ?again) auto
  moreover have "s2 = s'" using session_Inl e unfolding session_defs by blast
  ultimately show ?thesis using t Inr by auto
qed

text \<open>A review of task \<open>t-001\<close> by run \<open>rev-1\<close>.\<close>

definition reviewing_store :: store where
  "reviewing_store = \<lparr> user_version = 4, table_columns = base_tables, migration_rows = expected_history 4,
     metadata_rows = [],
     store_db = empty_db \<lparr>
       tasks := [leased_task \<lparr> t_status := ''reviewing'', t_view := view_columns frozen_sample \<rparr>],
       runs := [sample_run \<lparr> r_id := ''rev-1'', r_role := ''supervisor'', r_view := view_columns frozen_sample \<rparr>] \<rparr> \<rparr>"

definition review_scope :: ExecutorSessionScope where
  "review_scope = \<lparr> s_agent_id = ''a'', s_task_id = ''t-001'', s_run_id = ''rev-1'', s_workspace_path = ''/w'' \<rparr>"


theorem review_decided_once_witness:
  "\<exists>s'. reject_supervisor_session Inr unary_chrono 0 review_scope (view_frozen_source_tree frozen_sample) 3 (\<lambda>_. Inr ())
      reviewing_store = (Inr (RejectedAddressing 1), s') \<and>
    (\<exists>e. reject_supervisor_session Inr unary_chrono 1 review_scope (view_frozen_source_tree frozen_sample) 3 (\<lambda>_. Inr ())
      s' = (Inl e, s'))"
proof -
  let ?reject = "reject_supervisor_session Inr unary_chrono 0 review_scope (view_frozen_source_tree frozen_sample) 3 (\<lambda>_. Inr ())
      reviewing_store"
  have "fst ?reject = Inr (RejectedAddressing 1)" by code_simp
  then obtain s' where s': "?reject = (Inr (RejectedAddressing 1), s')" by (cases ?reject) auto
  show ?thesis
    using review_decided_once [OF s', of Inr unary_chrono 1 "view_frozen_source_tree frozen_sample" 3 "\<lambda>_. Inr ()"] s'
    by auto
qed

end
