(* ===== verification/Checks.thy ===== *)
theory Checks
  imports Checkout
begin

text \<open>
  The check commands of a project: \<open>src/src/checks/runner.rs\<close> and \<open>src/src/checks/runner/output.rs\<close> run them
  and capture their output, \<open>src/src/server/tools/check_gate.rs\<close> turns the results into the verdict and the
  report an agent sees.

  The shell is outside the program: \<open>exec\<close> gives for each command its exit status and what its two streams
  deliver, read by read, or the error of starting it. Output is bytes; \<open>String::from_utf8_lossy\<close>,
  \<open>str::lines\<close> and \<open>is_char_boundary\<close> of the standard library are written out.

  The lemmas show that the streaming tail is the longest end of the output within the line and byte limits,
  that what an agent is shown is bounded whatever a command prints, and that for plain output it is exactly the
  last lines.
\<close>

section \<open>Lossy decoding\<close>

definition byte_at :: "string \<Rightarrow> nat \<Rightarrow> nat" where
  "byte_at s i = (if i < length s then byte_val (s ! i) else 0)"

definition cont :: "nat \<Rightarrow> bool" where
  "cont b = (128 \<le> b \<and> b < 192)"

text \<open>The number of bytes of the next character, or of the maximal ill-formed piece.\<close>

definition utf8_step :: "string \<Rightarrow> nat \<times> bool" where
  "utf8_step s =
    (let b = byte_at s 0; b1 = byte_at s 1; b2 = byte_at s 2; b3 = byte_at s 3 in
     if b < 128 then (1, True)
     else if 194 \<le> b \<and> b \<le> 223 then (if cont b1 then (2, True) else (1, False))
     else if 224 \<le> b \<and> b \<le> 239
     then (if (b = 224 \<and> 160 \<le> b1 \<and> b1 \<le> 191) \<or> (225 \<le> b \<and> b \<le> 236 \<and> cont b1) \<or>
              (b = 237 \<and> 128 \<le> b1 \<and> b1 \<le> 159) \<or> (238 \<le> b \<and> cont b1)
           then (if cont b2 then (3, True) else (2, False)) else (1, False))
     else if 240 \<le> b \<and> b \<le> 244
     then (if (b = 240 \<and> 144 \<le> b1 \<and> b1 \<le> 191) \<or> (241 \<le> b \<and> b \<le> 243 \<and> cont b1) \<or>
              (b = 244 \<and> 128 \<le> b1 \<and> b1 \<le> 143)
           then (if cont b2 then (if cont b3 then (4, True) else (3, False)) else (2, False)) else (1, False))
     else (1, False))"

definition replacement_character :: string where
  "replacement_character = [CHR 0xEF, CHR 0xBF, CHR 0xBD]"

lemma utf8_step_pos: "utf8_step s = (n, ok) \<Longrightarrow> 0 < n"
  by (auto simp: utf8_step_def Let_def split: if_splits)

function from_utf8_lossy :: "string \<Rightarrow> string" where
  "from_utf8_lossy [] = []"
| "from_utf8_lossy (c # s) =
    (case utf8_step (c # s) of (n, ok) \<Rightarrow>
       (if ok then take n (c # s) else replacement_character) @ from_utf8_lossy (drop n (c # s)))"
  by pat_completeness auto

termination
  by (relation "measure length") (auto dest: utf8_step_pos [OF sym])

declare from_utf8_lossy.simps(2) [simp del]


section \<open>Bounded output\<close>

definition newline :: char where
  "newline = CHR 0x0A"

definition MAX_FEEDBACK_BYTES :: int where
  "MAX_FEEDBACK_BYTES = 65536"

definition saturating_add :: "int \<Rightarrow> int \<Rightarrow> int" where
  "saturating_add a b = min (a + b) (2 ^ 64 - 1)"

record CapturedOutput =
  co_tail :: string
  co_total_lines :: int
  co_truncated :: bool

record OutputTail =
  ot_bytes :: string
  ot_max_lines :: nat
  ot_newlines :: nat
  ot_total_newlines :: int
  ot_last :: "char option"
  ot_dropped :: bool

definition OutputTail_new :: "nat \<Rightarrow> OutputTail" where
  "OutputTail_new max_lines =
    \<lparr> ot_bytes = [], ot_max_lines = max_lines, ot_newlines = 0, ot_total_newlines = 0, ot_last = None,
      ot_dropped = False \<rparr>"

text \<open>\<open>while let Some(removed) = self.bytes.pop_front()\<close>, up to and including the first newline.\<close>

fun pop_line :: "string \<Rightarrow> nat \<Rightarrow> bool \<Rightarrow> string \<times> nat \<times> bool" where
  "pop_line [] newlines dropped = ([], newlines, dropped)"
| "pop_line (removed # bytes) newlines dropped =
    (if removed = newline then (bytes, newlines - 1, True) else pop_line bytes newlines True)"

text \<open>\<open>while self.bytes.len() > MAX_FEEDBACK_BYTES\<close>.\<close>

fun cap_bytes :: "string \<Rightarrow> nat \<Rightarrow> bool \<Rightarrow> string \<times> nat \<times> bool" where
  "cap_bytes [] newlines dropped = ([], newlines, dropped)"
| "cap_bytes (removed # bytes) newlines dropped =
    (if int (length (removed # bytes)) > MAX_FEEDBACK_BYTES
     then cap_bytes bytes (newlines - of_bool (removed = newline)) True
     else (removed # bytes, newlines, dropped))"

definition push_byte :: "char \<Rightarrow> OutputTail \<Rightarrow> OutputTail" where
  "push_byte byte t =
    (let bytes = ot_bytes t @ [byte];
         newlines = ot_newlines t + of_bool (byte = newline);
         lines = newlines + of_bool (byte \<noteq> newline);
         (bytes1, newlines1, dropped1) =
           (if lines > ot_max_lines t then pop_line bytes newlines (ot_dropped t) else (bytes, newlines, ot_dropped t));
         (bytes2, newlines2, dropped2) = cap_bytes bytes1 newlines1 dropped1
     in t \<lparr> ot_bytes := bytes2, ot_newlines := newlines2, ot_dropped := dropped2, ot_last := Some byte,
            ot_total_newlines := saturating_add (ot_total_newlines t) (of_bool (byte = newline)) \<rparr>)"

definition push :: "string \<Rightarrow> OutputTail \<Rightarrow> OutputTail" where
  "push bytes t = fold push_byte bytes t"

text \<open>\<open>str::lines\<close>: the pieces before each newline, without a carriage return right before it, and the rest
  when there is one.\<close>

definition strip_cr :: "string \<Rightarrow> string" where
  "strip_cr l = (if l \<noteq> [] \<and> last l = CHR 0x0D then butlast l else l)"

definition str_lines :: "string \<Rightarrow> string list" where
  "str_lines s =
    (let pieces = split_on newline s in
     map strip_cr (butlast pieces) @ (if last pieces = [] then [] else [last pieces]))"

definition finish :: "OutputTail \<Rightarrow> CapturedOutput" where
  "finish t =
    (let total_lines = saturating_add (ot_total_newlines t)
           (case ot_last t of None \<Rightarrow> 0 | Some byte \<Rightarrow> of_bool (byte \<noteq> newline));
         bytes = (if ot_dropped t then dropWhile continuation_byte (ot_bytes t) else ot_bytes t);
         decoded = from_utf8_lossy bytes;
         start = nat (int (length decoded) - MAX_FEEDBACK_BYTES);
         shown = (if start = 0 then decoded else dropWhile continuation_byte (drop start decoded))
     in \<lparr> co_tail = join_with [newline] (str_lines shown), co_total_lines = total_lines,
          co_truncated = (ot_dropped t \<or> start > 0) \<rparr>)"


section \<open>Running the commands\<close>

text \<open>Appending to the log; a failing append may have written a prefix.\<close>

definition fs_append :: "string \<Rightarrow> string \<Rightarrow> checkout \<Rightarrow> bool \<times> checkout" where
  "fs_append p content c =
    (let before = (case files c p of None \<Rightarrow> [] | Some s \<Rightarrow> s) in
     case io c (WriteOp p) of
       Done \<Rightarrow> (True, set_file p (before @ content) c)
     | Torn n \<Rightarrow> (False, set_file p (before @ take n content) c)
     | _ \<Rightarrow> (False, c))"

definition stream_section :: "string \<Rightarrow> string list \<Rightarrow> string" where
  "stream_section label reads =
    (let content = concat reads in
     if content = [] then []
     else ''--- '' @ label @ '' ---'' @ [newline] @ content @ (if last content = newline then [] else [newline]))"

definition log_section :: "string \<Rightarrow> bool \<Rightarrow> string list \<Rightarrow> string list \<Rightarrow> string" where
  "log_section command passed stdout stderr =
    ''=== ['' @ (if passed then ''PASS'' else ''FAIL'') @ ''] '' @ command @ [newline, newline] @
    stream_section ''stdout'' stdout @ stream_section ''stderr'' stderr @ [newline]"

definition finish_log ::
  "string \<Rightarrow> string \<Rightarrow> bool \<Rightarrow> string list \<Rightarrow> string list \<Rightarrow> nat \<Rightarrow> checkout \<Rightarrow> CapturedOutput res \<times> checkout" where
  "finish_log log_path command passed stdout stderr max_lines c =
    (case fs_append log_path (log_section command passed stdout stderr) c of
       (False, c') \<Rightarrow> (Inl (Bail ''Failed to write the check log''), c')
     | (True, c') \<Rightarrow> (Inr (finish (fold push stderr (fold push stdout (OutputTail_new max_lines)))), c'))"

record CommandResult =
  cr_command :: string
  cr_passed :: bool
  cr_output :: CapturedOutput

record CheckResult =
  ck_passed :: bool
  ck_commands :: "CommandResult list"

definition default_output :: CapturedOutput where
  "default_output = \<lparr> co_tail = [], co_total_lines = 0, co_truncated = False \<rparr>"

type_synonym exec = "string \<Rightarrow> (bool \<times> string list \<times> string list) res"

definition run_command ::
  "exec \<Rightarrow> string \<Rightarrow> string option \<Rightarrow> nat \<Rightarrow> checkout \<Rightarrow> CommandResult res \<times> checkout" where
  "run_command exec cmd log_path max_feedback_lines c =
    (if trim cmd = [] then (Inr \<lparr> cr_command = cmd, cr_passed = True, cr_output = default_output \<rparr>, c)
     else case exec cmd of
       Inl e \<Rightarrow> (Inl e, c)
     | Inr (passed, stdout, stderr) \<Rightarrow>
         (case log_path of
            None \<Rightarrow> (Inr \<lparr> cr_command = cmd, cr_passed = passed, cr_output = default_output \<rparr>, c)
          | Some p \<Rightarrow>
              (case finish_log p cmd passed stdout stderr max_feedback_lines c of
                 (Inl e, c') \<Rightarrow> (Inl e, c')
               | (Inr output, c') \<Rightarrow>
                   (Inr \<lparr> cr_command = cmd, cr_passed = passed, cr_output = output \<rparr>, c'))))"

fun run_each ::
  "exec \<Rightarrow> string list \<Rightarrow> string option \<Rightarrow> nat \<Rightarrow> bool \<Rightarrow> CommandResult list \<Rightarrow> checkout \<Rightarrow> CheckResult res \<times> checkout" where
  "run_each exec [] log_path max_lines passed results c =
    (Inr \<lparr> ck_passed = passed, ck_commands = results \<rparr>, c)"
| "run_each exec (cmd # cmds) log_path max_lines passed results c =
    (case run_command exec cmd log_path max_lines c of
       (Inl e, c') \<Rightarrow> (Inl (Bail (''Failed to run command: '' @ cmd)), c')
     | (Inr result, c') \<Rightarrow>
         run_each exec cmds log_path max_lines (passed \<and> cr_passed result) (results @ [result]) c')"

definition run_checks_with_cwd ::
  "exec \<Rightarrow> string list \<Rightarrow> string option \<Rightarrow> nat \<Rightarrow> checkout \<Rightarrow> CheckResult res \<times> checkout" where
  "run_checks_with_cwd exec commands log_path max_lines c = run_each exec commands log_path max_lines True [] c"

definition run_checks :: "exec \<Rightarrow> string list \<Rightarrow> checkout \<Rightarrow> CheckResult res \<times> checkout" where
  "run_checks exec commands c = run_checks_with_cwd exec commands None 0 c"

definition run_checks_logged ::
  "exec \<Rightarrow> string list \<Rightarrow> string \<Rightarrow> nat \<Rightarrow> checkout \<Rightarrow> CheckResult res \<times> checkout" where
  "run_checks_logged exec commands log_path max_lines c =
    run_checks_with_cwd exec commands (Some log_path) max_lines c"



section \<open>The check gate\<close>

record CheckFailure =
  cf_failure_reason :: string
  cf_report :: string

datatype CheckGateResult = GatePassed | GateFailed CheckFailure

definition bounded_note :: "int \<Rightarrow> nat \<Rightarrow> string" where
  "bounded_note total_lines max_lines =
    ''(bounded tail of '' @ show_nat (nat total_lines) @ '' lines; up to '' @ show_nat max_lines @
    '' lines and 64 KiB of output retained)'' @ [newline]"

definition fence :: string where
  "fence = ''```'' @ [newline]"

definition command_section :: "nat \<Rightarrow> CommandResult \<Rightarrow> string" where
  "command_section max_lines cmd =
    (let tail = co_tail (cr_output cmd) in
     ''`'' @ cr_command cmd @ ''`'' @ [newline] @
     (if co_truncated (cr_output cmd) then bounded_note (co_total_lines (cr_output cmd)) max_lines else []) @
     fence @ tail @ (if tail = [] \<or> last tail \<noteq> newline then [newline] else []) @ fence @ [newline])"

definition build_report :: "CommandResult list \<Rightarrow> nat \<Rightarrow> string \<Rightarrow> string" where
  "build_report commands max_lines log_path =
    (let failed = filter (\<lambda>c. \<not> cr_passed c) commands in
     ''Checks failed.'' @ [newline, newline] @ ''Failed commands:'' @ [newline] @
     concat (map (\<lambda>c. ''- `'' @ cr_command c @ ''`'' @ [newline]) failed) @ [newline] @
     concat (map (command_section max_lines) failed) @ ''Full log: `'' @ log_path @ ''`'')"

text \<open>\<open>ts\<close>, \<open>pid\<close> and \<open>sequence\<close> make the name of the log unique.\<close>

definition check_gate_run ::
  "exec \<Rightarrow> string list \<Rightarrow> nat \<Rightarrow> 32 word \<Rightarrow> string \<Rightarrow> 64 word \<Rightarrow> 32 word \<Rightarrow> 64 word \<Rightarrow> checkout \<Rightarrow>
    CheckGateResult res \<times> checkout" where
  "check_gate_run exec commands max_feedback_lines attempt log_scope ts pid sequence c =
    (if commands = [] then (Inr GatePassed, c)
     else
       let scope = log_scope @ ''-'' @ show_u32 pid @ ''-'' @ show_nat (unat sequence) in
       case write_check_log attempt ts scope [] c of
         (Inl e, c1) \<Rightarrow> (Inl e, c1)
       | (Inr log_path, c1) \<Rightarrow>
           (case run_checks_logged exec commands log_path max_feedback_lines c1 of
              (Inl e, c2) \<Rightarrow> (Inl e, c2)
            | (Inr result, c2) \<Rightarrow>
                if ck_passed result
                then (Inr GatePassed, if io c2 (RemoveFileOp log_path) = Done then unset_file log_path c2 else c2)
                else (Inr (GateFailed
                       \<lparr> cf_failure_reason = ''Commands failed: '' @
                           join_with '', '' (map cr_command (filter (\<lambda>c. \<not> cr_passed c) (ck_commands result))),
                         cf_report = build_report (ck_commands result) max_feedback_lines log_path \<rparr>), c2)))"


section \<open>The tail is the longest end within the limits\<close>

definition count_newlines :: "string \<Rightarrow> nat" where
  "count_newlines s = length (filter (\<lambda>b. b = newline) s)"

definition line_count :: "string \<Rightarrow> nat" where
  "line_count s = count_newlines s + of_bool (s \<noteq> [] \<and> last s \<noteq> newline)"

definition fits :: "nat \<Rightarrow> string \<Rightarrow> bool" where
  "fits m s = (line_count s \<le> m \<and> int (length s) \<le> MAX_FEEDBACK_BYTES)"

fun longest_fit :: "nat \<Rightarrow> string \<Rightarrow> string" where
  "longest_fit m [] = []"
| "longest_fit m (b # bs) = (if fits m (b # bs) then b # bs else longest_fit m bs)"

lemma count_newlines_simps [simp]:
  "count_newlines [] = 0"
  "count_newlines (b # bs) = of_bool (b = newline) + count_newlines bs"
  "count_newlines (xs @ ys) = count_newlines xs + count_newlines ys"
  by (simp_all add: count_newlines_def)

lemma fits_Nil [simp]: "fits m []"
  by (simp add: fits_def line_count_def MAX_FEEDBACK_BYTES_def)

lemma longest_fit_fits: "fits m (longest_fit m s)"
  by (induction s) auto

lemma longest_fit_id: "fits m s \<Longrightarrow> longest_fit m s = s"
  by (cases s) auto

lemma longest_fit_skip:
  "(\<And>u v. p = u @ v \<Longrightarrow> v \<noteq> [] \<Longrightarrow> \<not> fits m (v @ s)) \<Longrightarrow> longest_fit m (p @ s) = longest_fit m s"
proof (induction p)
  case (Cons b p)
  have "\<not> fits m ((b # p) @ s)" using Cons.prems [of "[]" "b # p"] by simp
  moreover have "longest_fit m (p @ s) = longest_fit m s"
    using Cons.prems by (intro Cons.IH) (metis append_Cons)
  ultimately show ?case by simp
qed simp

lemma longest_fit_suffix:
  obtains p where "s = p @ longest_fit m s" "\<And>u v. p = u @ v \<Longrightarrow> v \<noteq> [] \<Longrightarrow> \<not> fits m (v @ longest_fit m s)"
proof -
  have "\<exists>p. s = p @ longest_fit m s \<and> (\<forall>u v. p = u @ v \<longrightarrow> v \<noteq> [] \<longrightarrow> \<not> fits m (v @ longest_fit m s))"
  proof (induction s)
    case (Cons b s)
    then obtain p where p: "s = p @ longest_fit m s" "\<And>u v. p = u @ v \<Longrightarrow> v \<noteq> [] \<Longrightarrow> \<not> fits m (v @ longest_fit m s)"
      by blast
    show ?case
    proof (cases "fits m (b # s)")
      case False
      have "\<not> fits m (v @ longest_fit m s)" if "b # p = u @ v" "v \<noteq> []" for u v
        using that p False by (cases u) auto
      moreover have "b # s = (b # p) @ longest_fit m s" using p(1) by simp
      ultimately show ?thesis using False by (metis longest_fit.simps(2))
    qed simp
  qed simp
  then show ?thesis using that by blast
qed

lemma line_count_snoc: "line_count s \<le> line_count (s @ [b])" "line_count (s @ [b]) \<le> line_count s + 1"
  by (auto simp: line_count_def)

lemma fits_snoc: "fits m (s @ [b]) \<Longrightarrow> fits m s"
  using line_count_snoc(1) [of s b] by (auto simp: fits_def)

lemma longest_fit_snoc: "longest_fit m (s @ [b]) = longest_fit m (longest_fit m s @ [b])"
proof -
  obtain p where p: "s = p @ longest_fit m s" "\<And>u v. p = u @ v \<Longrightarrow> v \<noteq> [] \<Longrightarrow> \<not> fits m (v @ longest_fit m s)"
    by (rule longest_fit_suffix [of s m]) blast
  have "longest_fit m (p @ (longest_fit m s @ [b])) = longest_fit m (longest_fit m s @ [b])"
    using p(2) fits_snoc by (intro longest_fit_skip) (metis append_assoc)
  then show ?thesis using p(1) by (metis append_assoc)
qed


lemma line_count_suffix: "line_count ys \<le> line_count (xs @ ys)"
  by (auto simp: line_count_def)

lemma pop_line_spec:
  "bytes \<noteq> [] \<Longrightarrow> pop_line bytes (count_newlines bytes) d =
    (let rest = tl (dropWhile (\<lambda>b. b \<noteq> newline) bytes) in (rest, count_newlines rest, True))"
proof (induction bytes arbitrary: d)
  case (Cons b bytes)
  then show ?case by (cases bytes) (auto simp: Let_def)
qed simp

lemma cap_bytes_spec:
  "cap_bytes bytes (count_newlines bytes) d =
    (let rest = drop (nat (int (length bytes) - MAX_FEEDBACK_BYTES)) bytes
     in (rest, count_newlines rest, d \<or> int (length bytes) > MAX_FEEDBACK_BYTES))"
proof (induction bytes arbitrary: d)
  case (Cons b bytes)
  show ?case
  proof (cases "int (length (b # bytes)) > MAX_FEEDBACK_BYTES")
    case True
    then have "nat (int (length (b # bytes)) - MAX_FEEDBACK_BYTES) = Suc (nat (int (length bytes) - MAX_FEEDBACK_BYTES))"
      by simp
    then show ?thesis using True Cons [of True] by (simp add: Let_def)
  qed (simp add: Let_def)
qed (simp add: MAX_FEEDBACK_BYTES_def)

lemma longest_fit_cap:
  assumes "line_count u \<le> m"
  shows "longest_fit m u = drop (nat (int (length u) - MAX_FEEDBACK_BYTES)) u"
  using assms
proof (induction u)
  case (Cons b u)
  then have "line_count u \<le> m" using line_count_suffix [of u "[b]"] by simp
  note ih = Cons.IH [OF this]
  show ?case
  proof (cases "int (length (b # u)) > MAX_FEEDBACK_BYTES")
    case True
    then have "nat (int (length (b # u)) - MAX_FEEDBACK_BYTES) = Suc (nat (int (length u) - MAX_FEEDBACK_BYTES))"
      by simp
    then show ?thesis using True ih by (simp add: fits_def)
  next
    case False
    then show ?thesis using Cons.prems by (simp add: fits_def)
  qed
qed simp

lemma count_newlines_0_iff: "count_newlines s = 0 \<longleftrightarrow> newline \<notin> set s"
  by (auto simp: count_newlines_def filter_empty_conv)

lemma longest_fit_line:
  assumes "m < line_count u"
  shows "longest_fit m u = longest_fit m (tl (dropWhile (\<lambda>b. b \<noteq> newline) u))"
    and "line_count (tl (dropWhile (\<lambda>b. b \<noteq> newline) u)) < line_count u"
proof -
  let ?l = "takeWhile (\<lambda>b. b \<noteq> newline) u" and ?r = "dropWhile (\<lambda>b. b \<noteq> newline) u"
  have l: "count_newlines ?l = 0"
    by (auto simp: count_newlines_0_iff dest: set_takeWhileD)
  have u: "u = ?l @ ?r" by simp
  have "longest_fit m u = longest_fit m (tl ?r) \<and> line_count (tl ?r) < line_count u"
  proof (cases ?r)
    case Nil
    then have free: "newline \<notin> set u" by (simp add: dropWhile_eq_Nil_conv) blast
    have one: "line_count v = 1" if "u = w @ v" "v \<noteq> []" for v w
    proof -
      have "newline \<notin> set v" using that free by simp
      moreover from this have "last v \<noteq> newline" using last_in_set [OF that(2)] by metis
      ultimately show ?thesis using that(2) count_newlines_0_iff [of v] by (simp add: line_count_def)
    qed
    have "u \<noteq> []" using assms by (auto simp: line_count_def)
    then have "m = 0" using one [of "[]" u] assms by simp
    then have "\<And>v w. u = w @ v \<Longrightarrow> v \<noteq> [] \<Longrightarrow> \<not> fits m (v @ [])" using one by (simp add: fits_def)
    then show ?thesis
      unfolding Nil using longest_fit_skip [of u m "[]"] one [of "[]" u] \<open>u \<noteq> []\<close> by (simp add: line_count_def)
  next
    case (Cons b rest)
    then have b: "b = newline" by (metis (mono_tags) dropWhile_eq_Cons_conv)
    have u': "u = (?l @ [newline]) @ rest" using Cons b u by simp
    have "line_count ((?l @ [newline]) @ rest) = 1 + line_count rest"
      using l by (cases "rest = []") (auto simp: line_count_def)
    then have whole: "line_count u = 1 + line_count rest" using u' by simp
    have "\<not> fits m (v @ rest)" if "?l @ [newline] = w @ v" "v \<noteq> []" for v w
    proof -
      have "last v = newline" using that by (metis last_appendR last_snoc)
      then have "count_newlines v \<noteq> 0" using last_in_set [OF that(2)] by (metis count_newlines_0_iff)
      moreover have "count_newlines (?l @ [newline]) = count_newlines (w @ v)" using that(1) by simp
      ultimately have n: "count_newlines v = 1" using l by simp
      have "line_count (v @ rest) = 1 + line_count rest"
        using n that(2) \<open>last v = newline\<close> by (cases "rest = []") (auto simp: line_count_def)
      then have "line_count (v @ rest) = line_count u" using whole by simp
      then show ?thesis using assms by (simp add: fits_def)
    qed
    then have "longest_fit m ((?l @ [newline]) @ rest) = longest_fit m rest" by (rule longest_fit_skip)
    moreover have "line_count rest < line_count u" using whole by simp
    ultimately show ?thesis using u' Cons by simp
  qed
  then show "longest_fit m u = longest_fit m (tl ?r)" "line_count (tl ?r) < line_count u" by blast+
qed


text \<open>The state after a stream of bytes, as a function of the stream.\<close>

definition tail_state :: "nat \<Rightarrow> string \<Rightarrow> OutputTail" where
  "tail_state m s =
    \<lparr> ot_bytes = longest_fit m s, ot_max_lines = m, ot_newlines = count_newlines (longest_fit m s),
      ot_total_newlines = min (int (count_newlines s)) (2 ^ 64 - 1),
      ot_last = (if s = [] then None else Some (last s)), ot_dropped = (longest_fit m s \<noteq> s) \<rparr>"

lemma longest_fit_length: "length (longest_fit m s) \<le> length s"
  by (induction s) auto

lemma longest_fit_eq_iff: "longest_fit m s = s \<longleftrightarrow> length (longest_fit m s) = length s"
proof
  assume "length (longest_fit m s) = length s"
  moreover obtain p where p: "s = p @ longest_fit m s" by (rule longest_fit_suffix [of s m]) blast
  ultimately have "length p = 0" by (metis add_cancel_left_left length_append)
  then show "longest_fit m s = s" using p by simp
qed simp

lemma push_bytes:
  fixes m s b
  defines "u \<equiv> longest_fit m s @ [b]"
  shows "cap_bytes (if line_count u > m then tl (dropWhile (\<lambda>b. b \<noteq> newline) u) else u)
      (count_newlines (if line_count u > m then tl (dropWhile (\<lambda>b. b \<noteq> newline) u) else u)) d =
    (longest_fit m (s @ [b]), count_newlines (longest_fit m (s @ [b])),
     d \<or> int (length (if line_count u > m then tl (dropWhile (\<lambda>b. b \<noteq> newline) u) else u)) > MAX_FEEDBACK_BYTES)"
    (is "cap_bytes ?v _ _ = _")
proof -
  have fit: "line_count (longest_fit m s) \<le> m" using longest_fit_fits by (simp add: fits_def)
  then have "line_count u \<le> Suc m" using line_count_snoc(2) [of "longest_fit m s" b] by (simp add: u_def)
  then have "line_count ?v \<le> m \<and> longest_fit m u = longest_fit m ?v"
    using longest_fit_line [of m u] by (cases "line_count u > m") auto
  then have "longest_fit m (s @ [b]) = drop (nat (int (length ?v) - MAX_FEEDBACK_BYTES)) ?v"
    using longest_fit_snoc [of m s b] longest_fit_cap [of ?v m] by (simp add: u_def)
  then show ?thesis by (simp add: cap_bytes_spec Let_def)
qed

lemma push_byte_tail_state: "push_byte b (tail_state m s) = tail_state m (s @ [b])"
proof -
  let ?u = "longest_fit m s @ [b]"
  let ?v = "if line_count ?u > m then tl (dropWhile (\<lambda>b. b \<noteq> newline) ?u) else ?u"
  have lines: "count_newlines (longest_fit m s) + of_bool (b = newline) + of_bool (b \<noteq> newline) = line_count ?u"
    by (simp add: line_count_def)
  have nl: "count_newlines (longest_fit m s) + of_bool (b = newline) = count_newlines ?u" by simp
  have pop: "(if line_count ?u > m then pop_line ?u (count_newlines ?u) d else (?u, count_newlines ?u, d)) =
      (?v, count_newlines ?v, d \<or> line_count ?u > m)" for d
    by (simp add: pop_line_spec Let_def del: count_newlines_simps)
  have "length ?v \<le> length ?u" "line_count ?u > m \<Longrightarrow> length ?v < length ?u"
    using length_dropWhile_le [of "\<lambda>b. b \<noteq> newline" ?u] by (auto simp: less_Suc_eq_le)
  moreover have "longest_fit m (s @ [b]) = drop (nat (int (length ?v) - MAX_FEEDBACK_BYTES)) ?v"
    using push_bytes [of m s b False] by (simp add: cap_bytes_spec Let_def)
  ultimately have dropped: "(longest_fit m s \<noteq> s \<or> line_count ?u > m) \<or> int (length ?v) > MAX_FEEDBACK_BYTES \<longleftrightarrow>
      longest_fit m (s @ [b]) \<noteq> s @ [b]"
    using longest_fit_eq_iff [of m s] longest_fit_eq_iff [of m "s @ [b]"] longest_fit_length [of m s]
    by (cases "line_count ?u > m") (auto simp: MAX_FEEDBACK_BYTES_def)
  show ?thesis
    unfolding push_byte_def tail_state_def OutputTail.simps Let_def nl lines [unfolded nl] pop prod.case push_bytes dropped
    by (auto simp: saturating_add_def)
qed

lemma push_tail_state: "push xs (tail_state m s) = tail_state m (s @ xs)"
proof (induction xs arbitrary: s)
  case (Cons b xs)
  then show ?case using Cons [of "s @ [b]"] by (simp add: push_def push_byte_tail_state)
qed (simp add: push_def)

lemma new_tail_state: "OutputTail_new m = tail_state m []"
  by (simp add: OutputTail_new_def tail_state_def)

lemma fold_push_tail_state: "fold push reads (tail_state m s) = tail_state m (s @ concat reads)"
  by (induction reads arbitrary: s) (simp_all add: push_tail_state)



section \<open>What an agent is shown\<close>

lemma length_split_on: "length (split_on newline s) = count_newlines s + 1"
proof (induction s)
  case (Cons b s)
  then show ?case by (cases "split_on newline s") auto
qed simp

lemma last_split_on: "last (split_on newline s) = [] \<longleftrightarrow> s = [] \<or> last s = newline"
proof (induction s)
  case (Cons b s)
  obtain w ws where w: "split_on newline s = w # ws" by (meson neq_Nil_conv split_on_not_Nil)
  show ?case
  proof (cases "s = []")
    case False
    then show ?thesis using Cons w join_split_on [of newline s] by (cases ws) auto
  qed simp
qed simp

lemma length_str_lines: "length (str_lines s) = line_count s"
  using length_split_on [of s] last_split_on [of s] by (auto simp: str_lines_def line_count_def Let_def)

lemma strip_cr_free: "newline \<notin> set l \<Longrightarrow> newline \<notin> set (strip_cr l)"
  by (auto simp: strip_cr_def dest: in_set_butlastD)

lemma str_lines_free: "l \<in> set (str_lines s) \<Longrightarrow> newline \<notin> set l"
  using split_on_free [of _ newline s] last_in_set [OF split_on_not_Nil [of newline s]]
  by (auto simp: str_lines_def Let_def dest!: in_set_butlastD strip_cr_free split: if_splits)

lemma length_join_with: "length (join_with [c] ls) = sum_list (map length ls) + (length ls - 1)"
  by (induction "[c]" ls rule: join_with.induct) auto

lemma count_join_with:
  "(\<And>l. l \<in> set ls \<Longrightarrow> newline \<notin> set l) \<Longrightarrow> count_newlines (join_with [newline] ls) = length ls - 1"
proof (induction "[newline]" ls rule: join_with.induct)
  case (2 w)
  then show ?case by (simp add: count_newlines_0_iff)
next
  case (3 w v ws)
  then have "count_newlines w = 0" by (simp add: count_newlines_0_iff)
  then show ?case using 3 by simp
qed simp

lemma join_str_lines_length: "length (join_with [newline] (str_lines s)) \<le> length s"
proof -
  let ?ps = "split_on newline s"
  have ps: "?ps = butlast ?ps @ [last ?ps]" by simp
  have "length s = sum_list (map length ?ps) + (length ?ps - 1)"
    using length_join_with [of newline ?ps] by (simp add: join_split_on)
  moreover have "sum_list (map length ?ps) = sum_list (map length (butlast ?ps)) + length (last ?ps)"
    by (subst ps) (simp del: append_butlast_last_id)
  moreover have "sum_list (map (length \<circ> strip_cr) (butlast ?ps)) \<le> sum_list (map length (butlast ?ps))"
    by (rule sum_list_mono) (simp add: strip_cr_def)
  ultimately show ?thesis
    by (auto simp: length_join_with str_lines_def Let_def)
qed

text \<open>Decoding neither adds nor removes line ends.\<close>

lemma utf8_bad_bytes: "utf8_step s = (n, False) \<Longrightarrow> i < n \<Longrightarrow> 128 \<le> byte_at s i"
proof -
  assume a: "utf8_step s = (n, False)" "i < n"
  then have "n = 1 \<or> n = 2 \<and> 128 \<le> byte_at s 1 \<or> n = 3 \<and> 128 \<le> byte_at s 1 \<and> 128 \<le> byte_at s 2" "128 \<le> byte_at s 0"
    by (auto simp: utf8_step_def Let_def cont_def split: if_splits)
  with a(2) show ?thesis by (auto simp: less_Suc_eq numeral_3_eq_3 numeral_2_eq_2)
qed

lemma utf8_bad_free:
  assumes "utf8_step s = (n, False)"
  shows "newline \<notin> set (take n s)"
proof
  assume "newline \<in> set (take n s)"
  then obtain i where "i < n" "i < length s" "s ! i = newline" by (auto simp: in_set_conv_nth)
  then show False using utf8_bad_bytes [OF assms] by (fastforce simp: byte_at_def newline_def byte_val_def)
qed

lemma lossy_lines:
  "count_newlines (from_utf8_lossy s) = count_newlines s \<and>
   (s \<noteq> [] \<longrightarrow> last s = newline \<longrightarrow> from_utf8_lossy s \<noteq> [] \<and> last (from_utf8_lossy s) = newline)"
proof (induction s rule: from_utf8_lossy.induct)
  case (2 c s)
  obtain n ok where step: "utf8_step (c # s) = (n, ok)" by fastforce
  let ?t = "c # s" and ?piece = "if ok then take n (c # s) else replacement_character"
  note ih = 2 [OF step [symmetric]]
  have unf: "from_utf8_lossy ?t = ?piece @ from_utf8_lossy (drop n ?t)"
    by (simp add: from_utf8_lossy.simps(2) step)
  have piece: "count_newlines ?piece = count_newlines (take n ?t)"
    using utf8_bad_free [of ?t n] step
    by (cases ok) (auto simp: count_newlines_0_iff replacement_character_def newline_def)
  have "count_newlines ?t = count_newlines (take n ?t) + count_newlines (drop n ?t)"
    by (metis append_take_drop_id count_newlines_simps(3))
  then have count: "count_newlines (from_utf8_lossy ?t) = count_newlines ?t" using ih piece unf by simp
  have "from_utf8_lossy ?t \<noteq> [] \<and> last (from_utf8_lossy ?t) = newline" if l: "last ?t = newline"
  proof (cases "drop n ?t = []")
    case True
    then have whole: "take n ?t = ?t" by simp
    then have "newline \<in> set (take n ?t)" using l last_in_set [of ?t] by simp
    then have ok using utf8_bad_free [of ?t n] step by (cases ok) auto
    then show ?thesis using unf whole True l by simp
  next
    case False
    then have "last (drop n ?t) = newline" using l by (metis last_drop drop_eq_Nil not_le)
    then show ?thesis using ih False unf by simp
  qed
  then show ?case using count by blast
qed simp

lemma line_count_lossy: "line_count (from_utf8_lossy s) \<le> line_count s"
proof (cases "s = []")
  case False
  then show ?thesis using lossy_lines [of s] by (cases "last s = newline") (auto simp: line_count_def)
qed (simp add: line_count_def)


lemma line_count_dropWhile: "line_count (dropWhile P s) \<le> line_count s" "line_count (drop n s) \<le> line_count s"
  using line_count_suffix [of "dropWhile P s" "takeWhile P s"] line_count_suffix [of "drop n s" "take n s"] by simp_all

lemma finish_log_out:
  assumes "finish_log log_path command passed stdout stderr m c = (Inr out, c')"
  shows "out = finish (tail_state m (concat stdout @ concat stderr))"
    "files c' log_path = Some ((case files c log_path of None \<Rightarrow> [] | Some s \<Rightarrow> s) @ log_section command passed stdout stderr)"
  using assms
  by (auto simp: finish_log_def fs_append_def Let_def new_tail_state fold_push_tail_state split: prod.splits bool.splits io_outcome.splits)

lemma finish_total:
  "co_total_lines (finish (tail_state m s)) = min (int (line_count s)) (2 ^ 64 - 1)"
  by (auto simp: finish_def tail_state_def saturating_add_def line_count_def Let_def)

text \<open>C33: The feedback of a check command is bounded whatever the command prints. It has at most 64 KiB and at
  most the configured number of lines, and the number of lines it reports is that of the whole output. When it is
  not marked as truncated it is the whole output, decoded; the log receives all of it, byte by byte, in any case.\<close>

theorem feedback_bounded:
  assumes "finish_log log_path command passed stdout stderr m c = (Inr out, c')"
  shows "int (length (co_tail out)) \<le> MAX_FEEDBACK_BYTES \<and>
    (co_tail out = [] \<or> count_newlines (co_tail out) < m) \<and>
    co_total_lines out = min (int (line_count (concat stdout @ concat stderr))) (2 ^ 64 - 1) \<and>
    (co_truncated out \<or>
      co_tail out = join_with [newline] (str_lines (from_utf8_lossy (concat stdout @ concat stderr)))) \<and>
    files c' log_path =
      Some ((case files c log_path of None \<Rightarrow> [] | Some s \<Rightarrow> s) @ log_section command passed stdout stderr)"
proof -
  let ?s = "concat stdout @ concat stderr"
  let ?bytes = "if longest_fit m ?s \<noteq> ?s then dropWhile continuation_byte (longest_fit m ?s) else longest_fit m ?s"
  define decoded where "decoded = from_utf8_lossy ?bytes"
  define start where "start = nat (int (length decoded) - MAX_FEEDBACK_BYTES)"
  define shown where "shown = (if start = 0 then decoded else dropWhile continuation_byte (drop start decoded))"
  have out: "co_tail out = join_with [newline] (str_lines shown)" "co_truncated out = (longest_fit m ?s \<noteq> ?s \<or> 0 < start)"
    unfolding finish_log_out(1) [OF assms] shown_def start_def decoded_def
    by (simp_all add: finish_def tail_state_def Let_def)
  have "line_count shown \<le> line_count decoded"
    unfolding shown_def using line_count_dropWhile(1) [of continuation_byte "drop start decoded"]
      line_count_dropWhile(2) [of start decoded] by auto
  also have "\<dots> \<le> line_count ?bytes" unfolding decoded_def by (rule line_count_lossy)
  also have "\<dots> \<le> line_count (longest_fit m ?s)" using line_count_dropWhile(1) by simp
  also have "\<dots> \<le> m" using longest_fit_fits by (simp add: fits_def)
  finally have lines: "length (str_lines shown) \<le> m" by (simp add: length_str_lines)
  have "count_newlines (co_tail out) = length (str_lines shown) - 1"
    unfolding out(1) by (rule count_join_with) (rule str_lines_free)
  then have "co_tail out = [] \<or> count_newlines (co_tail out) < m"
    using lines unfolding out(1) by (cases "str_lines shown") auto
  moreover have "int (length shown) \<le> MAX_FEEDBACK_BYTES"
    using length_dropWhile_le [of continuation_byte "drop start decoded"]
    unfolding shown_def start_def by (auto simp: MAX_FEEDBACK_BYTES_def)
  then have "int (length (co_tail out)) \<le> MAX_FEEDBACK_BYTES"
    using join_str_lines_length [of shown] unfolding out(1) by linarith
  moreover have "co_truncated out \<or> co_tail out = join_with [newline] (str_lines (from_utf8_lossy ?s))"
    unfolding out by (auto simp: shown_def decoded_def)
  ultimately show ?thesis
    using finish_log_out [OF assms] finish_total by simp
qed

text \<open>Two commands of a log that succeed to write.\<close>

definition sample_checkout :: checkout where
  "sample_checkout = \<lparr> env_root = None, local_root = None, files = (\<lambda>_. None), io = (\<lambda>_. Done) \<rparr>"

theorem feedback_bounded_witness:
  "\<exists>out c'. finish_log ''log'' ''make'' False [''a'' @ [newline], ''b'' @ [newline]] [''c''] 2 sample_checkout = (Inr out, c') \<and>
    count_newlines (co_tail out) < 2 \<and> co_total_lines out = 3"
proof -
  let ?run = "finish_log ''log'' ''make'' False [''a'' @ [newline], ''b'' @ [newline]] [''c''] 2 sample_checkout"
  obtain out c' where r: "?run = (Inr out, c')"
    by (simp add: finish_log_def fs_append_def sample_checkout_def)
  from feedback_bounded [OF r] show ?thesis
    using r by (auto simp: line_count_def newline_def)
qed



section \<open>Plain output\<close>

definition plain :: "string \<Rightarrow> bool" where
  "plain s = (\<forall>b\<in>set s. byte_val b < 128)"

lemma lossy_plain: "plain s \<Longrightarrow> from_utf8_lossy s = s"
proof (induction s rule: from_utf8_lossy.induct)
  case (2 c s)
  then have step: "utf8_step (c # s) = (1, True)" by (simp add: plain_def utf8_step_def byte_at_def)
  have "from_utf8_lossy s = s" using 2 step by (simp add: plain_def)
  then show ?case by (simp add: from_utf8_lossy.simps(2) step)
qed simp

lemma plain_no_continuation: "plain s \<Longrightarrow> dropWhile continuation_byte s = s"
  by (cases s) (auto simp: plain_def continuation_byte_def)

lemma split_on_line: "newline \<notin> set l \<Longrightarrow> split_on newline (l @ newline # rest) = l # split_on newline rest"
  by (induction l) auto

lemma str_lines_line: "newline \<notin> set l \<Longrightarrow> str_lines (l @ newline # rest) = strip_cr l # str_lines rest"
  by (simp add: str_lines_def split_on_line Let_def)

lemma plain_suffix: "plain (p @ s) \<Longrightarrow> plain s"
  by (simp add: plain_def)

text \<open>Within the byte limit the longest fitting end consists of the last lines.\<close>

lemma str_lines_longest_fit:
  assumes "int (length s) \<le> MAX_FEEDBACK_BYTES"
  shows "str_lines (longest_fit m s) = drop (length (str_lines s) - m) (str_lines s)"
  using assms
proof (induction "length s" arbitrary: s rule: less_induct)
  case less
  show ?case
  proof (cases "line_count s \<le> m")
    case True
    then show ?thesis using less.prems by (simp add: longest_fit_id fits_def length_str_lines)
  next
    case False
    then have skip: "longest_fit m s = longest_fit m (tl (dropWhile (\<lambda>b. b \<noteq> newline) s))"
      by (intro longest_fit_line) simp
    show ?thesis
    proof (cases "newline \<in> set s")
      case True
      then obtain l rest where s: "s = l @ newline # rest" "newline \<notin> set l" by (metis split_list_first)
      then have "tl (dropWhile (\<lambda>b. b \<noteq> newline) s) = rest" by (auto simp: dropWhile_append)
      moreover have "str_lines (longest_fit m rest) = drop (length (str_lines rest) - m) (str_lines rest)"
        using less s(1) by simp
      moreover have "m \<le> length (str_lines rest)"
        using False s by (simp add: length_str_lines [symmetric] str_lines_line)
      ultimately show ?thesis using skip s by (simp add: str_lines_line Suc_diff_le)
    next
      case nl: False
      then have rest: "dropWhile (\<lambda>b. b \<noteq> newline) s = []" by (simp add: dropWhile_eq_Nil_conv) metis
      have "longest_fit m s = []" using skip unfolding rest by simp
      moreover have "length (str_lines s) \<le> 1" "m < length (str_lines s)"
        using nl count_newlines_0_iff [of s] False by (simp_all add: length_str_lines line_count_def)
      ultimately show ?thesis by (simp add: str_lines_def [of "[]"])
    qed
  qed
qed


lemma finish_plain:
  assumes "plain (ot_bytes t)" "int (length (ot_bytes t)) \<le> MAX_FEEDBACK_BYTES"
  shows "co_tail (finish t) = join_with [newline] (str_lines (ot_bytes t))" "co_truncated (finish t) = ot_dropped t"
  using assms(2) lossy_plain [OF assms(1)] plain_no_continuation [OF assms(1)] by (simp_all add: finish_def Let_def)

text \<open>C34: For plain (ASCII) output within 64 KiB the feedback is exactly the last lines of the output: however
  the two streams are cut into reads, the streaming tail shows what taking the last configured number of lines of
  standard output followed by standard error would show, reports how many lines there were, and is marked as
  truncated exactly when lines are missing.\<close>

theorem plain_feedback_is_last_lines:
  assumes "finish_log log_path command passed stdout stderr m c = (Inr out, c')"
    and "plain (concat stdout @ concat stderr)"
    and "int (length (concat stdout @ concat stderr)) \<le> MAX_FEEDBACK_BYTES"
  shows "let all = str_lines (concat stdout @ concat stderr) in
    co_tail out = join_with [newline] (drop (length all - m) all) \<and> co_total_lines out = int (length all) \<and>
    co_truncated out = (m < length all)"
proof -
  let ?s = "concat stdout @ concat stderr"
  obtain p where p: "?s = p @ longest_fit m ?s" by (rule longest_fit_suffix [of ?s m]) blast
  then have plain: "plain (longest_fit m ?s)" using plain_suffix assms(2) by metis
  have "int (length (longest_fit m ?s)) \<le> MAX_FEEDBACK_BYTES" using longest_fit_fits by (simp add: fits_def)
  then have "co_tail (finish (tail_state m ?s)) = join_with [newline] (str_lines (longest_fit m ?s))"
    "co_truncated (finish (tail_state m ?s)) = (longest_fit m ?s \<noteq> ?s)"
    using finish_plain [of "tail_state m ?s"] plain by (simp_all add: tail_state_def)
  moreover have "longest_fit m ?s = ?s \<longleftrightarrow> length (str_lines ?s) \<le> m"
    using longest_fit_fits [of m ?s] assms(3) longest_fit_id [of m ?s] by (auto simp: fits_def length_str_lines)
  moreover have "int (line_count ?s) \<le> 65537"
  proof -
    have "count_newlines ?s \<le> length ?s" unfolding count_newlines_def by (rule length_filter_le)
    then show ?thesis using assms(3) by (simp add: line_count_def MAX_FEEDBACK_BYTES_def)
  qed
  ultimately show ?thesis
    using finish_log_out(1) [OF assms(1)] finish_total [of m ?s] str_lines_longest_fit [OF assms(3), of m]
    by (simp add: Let_def length_str_lines not_le)
qed

theorem plain_feedback_is_last_lines_witness:
  "\<exists>out c'. finish_log ''log'' ''make'' False [''a'' @ [newline], ''b'' @ [newline]] [''c''] 2 sample_checkout = (Inr out, c') \<and>
    co_tail out = ''b'' @ [newline] @ ''c'' \<and> co_truncated out"
proof -
  let ?run = "finish_log ''log'' ''make'' False [''a'' @ [newline], ''b'' @ [newline]] [''c''] 2 sample_checkout"
  obtain out c' where r: "?run = (Inr out, c')"
    by (simp add: finish_log_def fs_append_def sample_checkout_def)
  have "plain (concat [''a'' @ [newline], ''b'' @ [newline]] @ concat [''c''])"
    "int (length (concat [''a'' @ [newline], ''b'' @ [newline]] @ concat [''c''])) \<le> MAX_FEEDBACK_BYTES"
    by code_simp+
  from plain_feedback_is_last_lines [OF r this] show ?thesis
    using r by (auto simp: str_lines_def newline_def strip_cr_def Let_def)
qed



section \<open>The verdict\<close>

definition command_passes :: "exec \<Rightarrow> string \<Rightarrow> bool" where
  "command_passes exec cmd = (trim cmd = [] \<or> (\<exists>out err. exec cmd = Inr (True, out, err)))"

lemma run_command_passed:
  assumes "run_command exec cmd log_path m c = (Inr result, c')"
  shows "cr_command result = cmd" "cr_passed result = command_passes exec cmd"
  using assms
  by (auto simp: run_command_def command_passes_def split: if_splits sum.splits prod.splits option.splits)

lemma run_each_results:
  assumes "run_each exec cmds log_path m passed results c = (Inr result, c')"
  shows "\<exists>more. ck_commands result = results @ more \<and> map cr_command more = cmds \<and>
    list_all (\<lambda>r. cr_passed r = command_passes exec (cr_command r)) more \<and>
    ck_passed result = (passed \<and> list_all (command_passes exec) cmds)"
  using assms
proof (induction cmds arbitrary: passed results c)
  case (Cons cmd cmds)
  then obtain r c1 where r: "run_command exec cmd log_path m c = (Inr r, c1)"
    by (auto split: prod.splits sum.splits)
  note first = run_command_passed [OF r]
  obtain more where more: "ck_commands result = (results @ [r]) @ more" "map cr_command more = cmds"
    "list_all (\<lambda>r. cr_passed r = command_passes exec (cr_command r)) more"
    "ck_passed result = ((passed \<and> cr_passed r) \<and> list_all (command_passes exec) cmds)"
    using Cons.IH [of "passed \<and> cr_passed r" "results @ [r]" c1] Cons.prems r by auto
  then show ?case using first by (intro exI [of _ "r # more"]) auto
qed auto

text \<open>The gate runs every command and passes exactly when all of them do; otherwise it names the failed ones.\<close>

lemma gate_verdict:
  assumes "check_gate_run exec commands m attempt log_scope ts pid sequence c = (Inr verdict, c')"
  shows "(case verdict of
      GatePassed \<Rightarrow> list_all (command_passes exec) commands
    | GateFailed f \<Rightarrow> \<not> list_all (command_passes exec) commands \<and>
        cf_failure_reason f = ''Commands failed: '' @ join_with '', '' (filter (\<lambda>cmd. \<not> command_passes exec cmd) commands))"
proof (cases "commands = []")
  case False
  let ?scope = "log_scope @ ''-'' @ show_u32 pid @ ''-'' @ show_nat (unat sequence)"
  obtain p c1 where p: "write_check_log attempt ts ?scope [] c = (Inr p, c1)"
    using assms False by (auto simp: check_gate_run_def Let_def split: prod.splits sum.splits)
  obtain result c2 where run: "run_checks_logged exec commands p m c1 = (Inr result, c2)"
    using assms False p by (auto simp: check_gate_run_def Let_def split: prod.splits sum.splits)
  from run obtain more where more: "ck_commands result = more" "map cr_command more = commands"
    "list_all (\<lambda>r. cr_passed r = command_passes exec (cr_command r)) more"
    "ck_passed result = list_all (command_passes exec) commands"
    using run_each_results [of exec commands "Some p" m True "[]" c1 result c2]
    by (auto simp: run_checks_logged_def run_checks_with_cwd_def)
  have "map cr_command (filter (\<lambda>c. \<not> cr_passed c) more) =
      filter (\<lambda>cmd. \<not> command_passes exec cmd) (map cr_command more)"
    using more(3) by (induction more) auto
  then show ?thesis
    using assms False p run more by (auto simp: check_gate_run_def Let_def split: if_splits)
qed (use assms in \<open>auto simp: check_gate_run_def\<close>)

end
