(* ===== verification/Tools.thy ===== *)
theory Tools
  imports Sessions Checks
begin

text \<open>
  The tools through which agents and the human drive a task, \<open>src/src/server/tools\<close>: the shared guards, the
  queue tools (create, enqueue, wait for work or review, heartbeat, reset), and the two kinds of pauses
  (consultations and questions to the human) with the tools that wait for their end.

  A tool acts on a \<open>world\<close>: the runtime database, the artifacts of the checkout, and the references that keep
  submitted trees alive. It is a sequence of steps, each of which may fail; what the earlier steps did stays
  (\<open>tbind\<close>), unless a step runs as a transaction. \<open>env\<close> collects what a call reads from outside: the
  configuration, the clock, the task the process was started for.

  A tool that waits polls until its time is up. Between two polls anything may happen; the loop is a recursion
  over the polls that follow the first one, each with what happened before it, and ends with the timeout.
\<close>

section \<open>Worlds and steps\<close>

record Config =
  cfg_commands :: "string list"
  cfg_max_check_retries :: "32 word"
  cfg_max_review_cycles :: "32 word"
  cfg_max_feedback_lines :: nat
  cfg_max_executor_dispatches :: "32 word"
  cfg_max_parallel_tasks :: nat
  cfg_ttl_secs :: "64 word"

record env =
  e_config :: Config
  e_chrono :: chrono
  e_now :: datetime
  e_now' :: datetime
  e_ts :: string
  e_task_id :: "string option"

record world =
  w_db :: db
  w_files :: checkout
  w_pins :: "string \<rightharpoonup> Digest"

type_synonym 'a tool = "world \<Rightarrow> 'a res \<times> world"

definition tool_ret :: "'a \<Rightarrow> 'a tool" where
  "tool_ret a w = (Inr a, w)"

definition tool_res :: "'a res \<Rightarrow> 'a tool" where
  "tool_res r w = (r, w)"

definition tbind :: "'a tool \<Rightarrow> ('a \<Rightarrow> 'b tool) \<Rightarrow> 'b tool" where
  "tbind m f w = (case m w of (Inl e, w1) \<Rightarrow> (Inl e, w1) | (Inr a, w1) \<Rightarrow> f a w1)"

definition on_db :: "(db \<Rightarrow> 'a res \<times> db) \<Rightarrow> 'a tool" where
  "on_db f w = (case f (w_db w) of (r, d) \<Rightarrow> (r, w \<lparr> w_db := d \<rparr>))"

definition on_files :: "(checkout \<Rightarrow> 'a res \<times> checkout) \<Rightarrow> 'a tool" where
  "on_files f w = (case f (w_files w) of (r, c) \<Rightarrow> (r, w \<lparr> w_files := c \<rparr>))"

definition read_db :: "(db \<Rightarrow> 'a res) \<Rightarrow> 'a tool" where
  "read_db f w = (f (w_db w), w)"

definition read_files :: "(checkout \<Rightarrow> 'a res) \<Rightarrow> 'a tool" where
  "read_files f w = (f (w_files w), w)"

text \<open>One transaction that returns nothing.\<close>

definition db_step :: "(db \<Rightarrow> db res) \<Rightarrow> unit tool" where
  "db_step f = on_db (run_tx (\<lambda>d. res_bind (f d) (\<lambda>d'. Inr ((), d'))))"

text \<open>An error is logged and forgotten; what the step did stays.\<close>

definition best_effort :: "'a tool \<Rightarrow> unit tool" where
  "best_effort m w = (Inr (), snd (m w))"

definition runtime_event :: "string option \<Rightarrow> string \<Rightarrow> json \<Rightarrow> unit tool" where
  "runtime_event run_id kind payload =
    best_effort (on_db (\<lambda>d. case record_runtime_event run_id kind payload d of
      Inl e \<Rightarrow> (Inl e, d) | Inr d' \<Rightarrow> (Inr (), d')))"


section \<open>Shared guards\<close>

definition no_task_message :: "string \<Rightarrow> string" where
  "no_task_message agent =
    ''No SQLite runtime task is assigned to '' @ agent @ ''. Call the appropriate wait tool first.''"

definition require_runtime_task_context :: "string \<Rightarrow> RuntimeTaskContext tool" where
  "require_runtime_task_context agent = read_db (\<lambda>d.
    res_bind (runtime_task_context_for_agent agent d) (\<lambda>context.
      case context of None \<Rightarrow> Inl (Bail (no_task_message agent)) | Some c \<Rightarrow> Inr c))"

definition runtime_task_context_for_agent_best_effort :: "string \<Rightarrow> db \<Rightarrow> RuntimeTaskContext option" where
  "runtime_task_context_for_agent_best_effort agent d =
    (case runtime_task_context_for_agent agent d of Inl _ \<Rightarrow> None | Inr context \<Rightarrow> context)"

definition lease_held_message :: "string \<Rightarrow> string \<Rightarrow> string" where
  "lease_held_message claimed_by agent =
    ''Cannot modify task: lease is held by '' @ claimed_by @ '', not '' @ agent"

definition ensure_lease_owner_or_reclaim :: "env \<Rightarrow> string \<Rightarrow> unit tool" where
  "ensure_lease_owner_or_reclaim E agent =
    tbind (require_runtime_task_context agent) (\<lambda>context.
    tbind (on_db (claim_task_in_database (e_chrono E) (e_now E) (e_now' E) (x_task_id context) (x_task_path context)
             agent (cfg_ttl_secs (e_config E)))) (\<lambda>claim.
      case claim of
        TaskClaimed \<Rightarrow> tool_ret ()
      | TaskAlreadyClaimed \<Rightarrow> tool_ret ()
      | ClaimedByOther claimed_by \<Rightarrow> tool_res (Inl (Bail (lease_held_message claimed_by agent)))))"

text \<open>\<open>context.status.parse::<TaskStatus>()?\<close>.\<close>

definition context_status :: "RuntimeTaskContext \<Rightarrow> TaskStatus res" where
  "context_status context = from_str (x_status context)"

definition wrong_state :: "string \<Rightarrow> RuntimeTaskContext \<Rightarrow> string \<Rightarrow> 'a res" where
  "wrong_state before context after = Inl (Bail (before @ x_status context @ after))"

definition runtime_task_id :: "env \<Rightarrow> string option" where
  "runtime_task_id E =
    (case e_task_id E of None \<Rightarrow> None | Some v \<Rightarrow> if trim v = [] then None else Some (trim v))"


section \<open>Consultations\<close>

text \<open>\<open>str::contains\<close>.\<close>

fun contains :: "string \<Rightarrow> string \<Rightarrow> bool" where
  "contains [] pat = (pat = [])"
| "contains (c # s) pat = (has_prefix pat (c # s) \<or> contains s pat)"

definition required_sections :: "string list" where
  "required_sections = [''## Problem'', ''## What I tried'', ''## Options (if any)'', ''## Question'']"

definition missing_section :: "string \<Rightarrow> string" where
  "missing_section section =
    ''Consultation request must follow ferrus://consult_template exactly. Missing section: '' @ section"

definition validate_consult_request :: "string \<Rightarrow> unit res" where
  "validate_consult_request question =
    (let trimmed = trim question in
     if trimmed = []
     then Inl (Bail ''Consultation request cannot be empty. Read ferrus://consult_template and follow it exactly.'')
     else case find (\<lambda>section. \<not> contains trimmed section) required_sections of
         Some section \<Rightarrow> Inl (Bail (missing_section section))
       | None \<Rightarrow> Inr ())"

definition consult_message :: "RuntimeTaskContext \<Rightarrow> string" where
  "consult_message context =
    ''Consultation requested in `'' @ x_run_dir context @ ''/CONSULT_REQUEST.md`.'' @ [newline] @
    ''State is now Consultation (paused from '' @ x_status context @ '').'' @ [newline] @
    ''HQ should spawn the configured Supervisor in consultation mode.'' @ [newline] @
    ''Call /wait_for_consult to block until the response is ready.''"

definition consult :: "env \<Rightarrow> string \<Rightarrow> string \<Rightarrow> string tool" where
  "consult E agent question =
    tbind (require_runtime_task_context agent) (\<lambda>context.
    tbind (tool_res (context_status context)) (\<lambda>current_status.
    if current_status \<notin> {Executing, Addressing} then tool_res (wrong_state ''Cannot consult from state '' context
      ''. Consultation is only available while executing work.'')
    else
      tbind (ensure_lease_owner_or_reclaim E agent) (\<lambda>_.
      tbind (tool_res (validate_consult_request question)) (\<lambda>_.
      tbind (on_files (write_consult_request_for_run_dir (x_run_dir context) question)) (\<lambda>_.
      tbind (on_files (clear_consult_response_for_run_dir (x_run_dir context))) (\<lambda>_.
      tbind (db_step (task_consultation_in_transaction (x_task_id context) current_status)) (\<lambda>_.
        tool_ret (consult_message context))))))))"

text \<open>\<open>staged\<close> is the fresh name under which the response is prepared.\<close>

definition respond_consult_run_for_context :: "string \<Rightarrow> RuntimeTaskContext \<Rightarrow> string \<Rightarrow> string tool" where
  "respond_consult_run_for_context staged context response =
    (if x_status context = ''consultation'' \<and> trim response \<noteq> []
     then tbind (on_files (write_consult_response_for_run_dir staged (x_run_dir context) response)) (\<lambda>_.
            tool_ret (''Consultation response recorded in `'' @ x_run_dir context @ ''/CONSULT_RESPONSE.md`.''))
     else tool_res (Inl (Bail ''Invalid consultation response'')))"

definition respond_consult :: "env \<Rightarrow> string \<Rightarrow> string \<Rightarrow> string \<Rightarrow> string tool" where
  "respond_consult E staged agent response =
    (if trim response = [] then tool_res (Inl (Bail ''Consultation response cannot be empty.''))
     else
       tbind (\<lambda>w. case runtime_task_context_for_agent_best_effort agent (w_db w) of
                 Some context \<Rightarrow> (Inr (Some context), w)
               | None \<Rightarrow>
                   (case on_db (run_tx (attach_running_run_to_next_consultation (e_ts E) agent)) w of
                      (Inl e, w1) \<Rightarrow> (Inr None, w1)
                    | (Inr context, w1) \<Rightarrow> (Inr context, w1))) (\<lambda>runtime_context.
       case runtime_context of
         None \<Rightarrow> tool_res (Inl (Bail ''Cannot respond to consultation without a SQLite runtime task context.''))
       | Some context \<Rightarrow>
           tbind (tool_res (context_status context)) (\<lambda>status.
           if status \<noteq> Consultation then tool_res (wrong_state ''Cannot respond to consultation from state '' context
             ''. /respond_consult is only valid in Consultation state.'')
           else respond_consult_run_for_context staged context response)))"

text \<open>One poll of \<open>wait_for_consult\<close>: \<open>None\<close> when there is no response yet.\<close>

definition poll_consult :: "RuntimeTaskContext \<Rightarrow> string option tool" where
  "poll_consult context w =
    (case read_consult_response_for_run_dir (x_run_dir context) (w_files w) of
       Inl e \<Rightarrow> (Inr None, w)
     | Inr response \<Rightarrow>
         if trim response = [] then (Inr None, w)
         else
           tbind (on_db (run_tx (task_restore_consultation_in_transaction (x_task_id context)))) (\<lambda>restored.
           tbind (on_files (clear_consult_response_for_run_dir (x_run_dir context))) (\<lambda>_.
           tbind (on_files (clear_consult_request_for_run_dir (x_run_dir context))) (\<lambda>_.
             tool_ret (Some (trim response))))) w)"

text \<open>\<open>later\<close> lists, for every poll after the first, what happened in between and the environment of the poll.\<close>

type_synonym polls = "((world \<Rightarrow> world) \<times> env) list"

fun wait_until :: "(env \<Rightarrow> 'a option tool) \<Rightarrow> 'a res \<Rightarrow> env \<Rightarrow> polls \<Rightarrow> 'a tool" where
  "wait_until poll timeout E later w =
    (case poll E w of
       (Inl e, w1) \<Rightarrow> (Inl e, w1)
     | (Inr (Some a), w1) \<Rightarrow> (Inr a, w1)
     | (Inr None, w1) \<Rightarrow>
         (case later of
            [] \<Rightarrow> (timeout, w1)
          | (change, E') # rest \<Rightarrow> wait_until poll timeout E' rest (change w1)))"

declare wait_until.simps [simp del]

definition wait_for_consult :: "env \<Rightarrow> string \<Rightarrow> polls \<Rightarrow> string tool" where
  "wait_for_consult E agent later =
    tbind (require_runtime_task_context agent) (\<lambda>context.
    tbind (tool_res (context_status context)) (\<lambda>status.
    if status \<noteq> Consultation then tool_res (wrong_state ''Cannot wait for consultation from state '' context
      ''. Call /consult first.'')
    else
      tbind (ensure_lease_owner_or_reclaim E agent) (\<lambda>_.
        wait_until (\<lambda>_. poll_consult context)
          (Inl (Bail ''Timed out waiting for CONSULT_RESPONSE.md. Call /wait_for_consult again to keep waiting.''))
          E later)))"



section \<open>Questions to the human\<close>

definition can_ask_from_context :: "RuntimeTaskContext \<Rightarrow> bool" where
  "can_ask_from_context context =
    (case context_status context of
       Inl _ \<Rightarrow> False
     | Inr s \<Rightarrow> s \<in> {Executing, Addressing, Consultation, Reviewing})"

definition is_supervisor :: "string \<Rightarrow> bool" where
  "is_supervisor agent = has_prefix ''supervisor:'' agent"

definition can_supervisor_ask_during_consultation :: "RuntimeTaskContext \<Rightarrow> string \<Rightarrow> bool" where
  "can_supervisor_ask_during_consultation context agent =
    (is_supervisor agent \<and> context_status context = Inr Consultation)"

definition ensure_can_ask_human :: "env \<Rightarrow> RuntimeTaskContext \<Rightarrow> string \<Rightarrow> unit tool" where
  "ensure_can_ask_human E context agent =
    (if \<not> can_ask_from_context context
     then tool_res (wrong_state ''Cannot ask human from state '' context
            ''. /ask_human is only available while active work is in progress.'')
     else if can_supervisor_ask_during_consultation context agent then tool_ret ()
     else ensure_lease_owner_or_reclaim E agent)"

definition human_pause_context :: "RuntimeTaskContext \<Rightarrow> (TaskStatus \<times> TaskStatus option) res" where
  "human_pause_context context =
    res_bind (context_status context) (\<lambda>current_status.
      if current_status = Consultation
      then res_bind (opt_res from_str (x_paused_status context)) (\<lambda>paused_status. Inr (Consultation, paused_status))
      else Inr (current_status, Some current_status))"

definition ask_message :: "RuntimeTaskContext \<Rightarrow> string" where
  "ask_message context =
    ''Your question has been written to `'' @ x_run_dir context @ ''/QUESTION.md`.'' @ [newline] @
    ''State is now AwaitingHuman (paused from '' @ x_status context @ '').'' @ [newline] @
    ''Call /wait_for_answer immediately to block until the human responds.'' @ [newline] @
    ''Do NOT call any other tools while waiting.''"

definition ask_human :: "env \<Rightarrow> string \<Rightarrow> string \<Rightarrow> string tool" where
  "ask_human E agent question =
    tbind (require_runtime_task_context agent) (\<lambda>context.
    tbind (ensure_can_ask_human E context agent) (\<lambda>_.
    tbind (on_files (write_question_for_run_dir (x_run_dir context) question)) (\<lambda>_.
    tbind (on_files (clear_answer_for_run_dir (x_run_dir context))) (\<lambda>_.
    tbind (tool_res (human_pause_context context)) (\<lambda>(resume_status, paused_status).
    tbind (db_step (task_human_question_in_transaction (x_task_id context) resume_status paused_status agent)) (\<lambda>_.
      tool_ret (ask_message context)))))))"

definition answered_message :: "HumanQuestion \<Rightarrow> string" where
  "answered_message q =
    ''Response recorded for `'' @ hq_task_id q @ ''` in `'' @ hq_run_dir q @
    ''/ANSWER.md`. The waiting agent can call /wait_for_answer and continue.''"

text \<open>The answer file is written only once the answer is recorded; a failed write takes the record back.\<close>

definition record_answer_in_world :: "HumanQuestion \<Rightarrow> string \<Rightarrow> unit tool" where
  "record_answer_in_world q response w =
    (case record_task_human_answer (hq_task_id q) (w_db w) of
       (Inl e, d1) \<Rightarrow> (Inl e, w \<lparr> w_db := d1 \<rparr>)
     | (Inr _, d1) \<Rightarrow>
         (case write_answer_for_run_dir (hq_run_dir q) response (w_files w) of
            (written, c1) \<Rightarrow>
              (case record_scoped_human_answer (hq_task_id q) written (w_db w) of
                 (r, d2) \<Rightarrow> (r, w \<lparr> w_db := d2, w_files := c1 \<rparr>))))"

definition answer :: "string \<Rightarrow> string tool" where
  "answer response =
    (if trim response = [] then tool_res (Inl (Bail ''Human answer cannot be empty.''))
     else (\<lambda>w. case list_human_questions (w_files w) (w_db w) of
         [] \<Rightarrow> (Inl (Bail ''No task is currently waiting for a human answer.''), w)
       | q # _ \<Rightarrow> tbind (record_answer_in_world q response) (\<lambda>_. tool_ret (answered_message q)) w))"

definition is_consultation_supervisor_human_wait :: "RuntimeTaskContext \<Rightarrow> string \<Rightarrow> db \<Rightarrow> bool" where
  "is_consultation_supervisor_human_wait context agent d =
    (is_supervisor agent \<and> task_awaiting_human_status (x_task_id context) d = Some (as_str Consultation))"

definition other_asker_message :: "string \<Rightarrow> string \<Rightarrow> string" where
  "other_asker_message owner agent =
    ''Cannot wait for answer: question was asked by '' @ owner @ '', not '' @ agent"

definition ensure_scoped_answer_waiter :: "env \<Rightarrow> RuntimeTaskContext \<Rightarrow> string \<Rightarrow> unit tool" where
  "ensure_scoped_answer_waiter E context agent w =
    (case task_human_question_owner (x_task_id context) (w_db w) of
       Some owner \<Rightarrow>
         if owner = agent
         then (if is_consultation_supervisor_human_wait context agent (w_db w) then (Inr (), w)
               else ensure_lease_owner_or_reclaim E agent w)
         else (Inl (Bail (other_asker_message owner agent)), w)
     | None \<Rightarrow> ensure_lease_owner_or_reclaim E agent w)"

definition poll_answer :: "RuntimeTaskContext \<Rightarrow> json option tool" where
  "poll_answer context w =
    (case read_answer_for_run_dir (x_run_dir context) (w_files w) of
       Inl e \<Rightarrow> (Inr None, w)
     | Inr ans \<Rightarrow>
         if trim ans = [] then (Inr None, w)
         else
           tbind (on_db (run_tx (task_restore_human_in_transaction (x_task_id context)))) (\<lambda>restored.
           tbind (on_files (clear_answer_for_run_dir (x_run_dir context))) (\<lambda>_.
           tbind (on_files (clear_question_for_run_dir (x_run_dir context))) (\<lambda>_.
             tool_ret (Some (JObj [(''status'', JStr ''answered''), (''answer'', JStr (trim ans)),
               (''resumed_state'', JStr (case restored of
                  HumanRestored status \<Rightarrow> status | NotAwaitingHuman \<Rightarrow> x_status context))]))))) w)"

definition timeout_json :: json where
  "timeout_json = JObj [(''status'', JStr ''timeout'')]"

definition wait_for_answer :: "env \<Rightarrow> string \<Rightarrow> polls \<Rightarrow> json tool" where
  "wait_for_answer E agent later =
    tbind (require_runtime_task_context agent) (\<lambda>context.
    tbind (tool_res (context_status context)) (\<lambda>status.
    if status \<noteq> AwaitingHuman
    then tool_res (wrong_state (''Cannot wait for answer from task status '' @ [CHR 0x22]) context
           ([CHR 0x22] @ ''; expected awaiting_human''))
    else
      tbind (ensure_scoped_answer_waiter E context agent) (\<lambda>_.
        wait_until (\<lambda>_. poll_answer context) (Inr timeout_json) E later)))"



section \<open>The queues\<close>

definition claimed_lease :: "ReadyTaskClaim \<Rightarrow> TaskLease option" where
  "claimed_lease claim =
    (case claim of Claimed task \<Rightarrow> Some task | AlreadyClaimed task \<Rightarrow> Some task | NoAvailable \<Rightarrow> None)"

definition claim_ready_task :: "env \<Rightarrow> string \<Rightarrow> TaskLease option tool" where
  "claim_ready_task E agent =
    tbind (on_db (case runtime_task_id E of
        Some tid \<Rightarrow> claim_ready_task_by_id (e_chrono E) (e_now E) (e_ts E) tid agent (cfg_ttl_secs (e_config E))
      | None \<Rightarrow> claim_next_ready_task (e_chrono E) (e_now E) (e_ts E) agent (cfg_ttl_secs (e_config E))))
      (\<lambda>claim. tool_ret (claimed_lease claim))"

definition claim_review_task :: "env \<Rightarrow> string \<Rightarrow> TaskLease option tool" where
  "claim_review_task E agent =
    tbind (on_db (case runtime_task_id E of
        Some tid \<Rightarrow> claim_review_task_by_id (e_chrono E) (e_now E) (e_ts E) tid agent (cfg_ttl_secs (e_config E))
      | None \<Rightarrow> claim_next_review_task (e_chrono E) (e_now E) (e_ts E) agent (cfg_ttl_secs (e_config E))))
      (\<lambda>claim. tool_ret (claimed_lease claim))"

definition attach_best_effort :: "env \<Rightarrow> string \<Rightarrow> TaskLease \<Rightarrow> unit tool" where
  "attach_best_effort E agent claim =
    best_effort (on_db (attach_running_run_to_task (e_ts E) agent (l_task_id claim) (l_task_path claim)))"

definition state_name_for_task_status :: "string \<Rightarrow> string" where
  "state_name_for_task_status status = (if status = ''addressing'' then ''Addressing'' else ''Executing'')"

definition claim_fields :: "TaskLease \<Rightarrow> (string \<times> json) list" where
  "claim_fields claim =
    [(''status'', JStr ''claimed''), (''task_id'', JStr (l_task_id claim)), (''task_path'', JStr (l_task_path claim)),
     (''run_dir'', JStr (run_dir_for_task (l_task_id claim))), (''claimed_by'', JStr (l_claimed_by claim)),
     (''lease_until'', JTime (l_lease_until claim))]"

definition poll_task :: "env \<Rightarrow> string \<Rightarrow> json option tool" where
  "poll_task E agent =
    tbind (claim_ready_task E agent) (\<lambda>claim.
      case claim of
        None \<Rightarrow> tool_ret None
      | Some claim \<Rightarrow>
          tbind (attach_best_effort E agent claim) (\<lambda>_.
          tbind (read_files (read_task_at (l_task_path claim))) (\<lambda>task.
          tbind (read_files (read_review_for_run_dir (run_dir_for_task (l_task_id claim)))) (\<lambda>review.
            tool_ret (Some (JObj (claim_fields claim @
              [(''state'', JStr (state_name_for_task_status (l_status claim))), (''task'', JStr task),
               (''review'', JStr review), (''check_retries_used'', JInt (uint (l_check_retries claim))),
               (''review_cycles_used'', JInt (uint (l_review_cycles claim)))])))))))"

definition unavailable_json :: json where
  "unavailable_json = JObj [(''status'', JStr ''timeout''), (''state'', JStr ''unavailable'')]"

text \<open>The claim is tried anew at every poll, with the clock of that poll.\<close>

definition wait_for_task :: "env \<Rightarrow> string \<Rightarrow> polls \<Rightarrow> json tool" where
  "wait_for_task E agent later = wait_until (\<lambda>E. poll_task E agent) (Inr unavailable_json) E later"

definition poll_review :: "env \<Rightarrow> string \<Rightarrow> json option tool" where
  "poll_review E agent =
    tbind (claim_review_task E agent) (\<lambda>claim.
      case claim of
        None \<Rightarrow> tool_ret None
      | Some claim \<Rightarrow>
          tbind (attach_best_effort E agent claim) (\<lambda>_.
          tbind (read_files (read_task_at (l_task_path claim))) (\<lambda>task.
          tbind (read_files (read_submission_for_run_dir (run_dir_for_task (l_task_id claim)))) (\<lambda>submission.
          tbind (read_files (read_review_for_run_dir (run_dir_for_task (l_task_id claim)))) (\<lambda>review.
          tbind (read_files (read_patch_for_run_dir (run_dir_for_task (l_task_id claim)))) (\<lambda>patch.
            tool_ret (Some (JObj (claim_fields claim @
              [(''state'', JStr ''Reviewing''), (''task'', JStr task), (''submission'', JStr submission),
               (''review'', JStr review), (''patch'', JStr patch),
               (''review_cycles_used'', JInt (uint (l_review_cycles claim))),
               (''check_retries_used'', JInt (uint (l_check_retries claim)))])))))))))"

definition wait_for_review :: "env \<Rightarrow> string \<Rightarrow> polls \<Rightarrow> json tool" where
  "wait_for_review E agent later = wait_until (\<lambda>E. poll_review E agent) (Inr unavailable_json) E later"

definition poll_consultation :: "env \<Rightarrow> string \<Rightarrow> json option tool" where
  "poll_consultation E agent =
    tbind (on_db (run_tx (case runtime_task_id E of
        Some tid \<Rightarrow> attach_running_run_to_consultation (e_ts E) tid agent
      | None \<Rightarrow> attach_running_run_to_next_consultation (e_ts E) agent))) (\<lambda>context.
      case context of
        None \<Rightarrow> tool_ret None
      | Some context \<Rightarrow>
          tbind (read_files (read_task_at (x_task_path context))) (\<lambda>task.
          tbind (read_files (read_consult_request_for_run_dir (x_run_dir context))) (\<lambda>consult_request w.
            let review = unwrap_or_default (read_review_for_run_dir (x_run_dir context) (w_files w)) in
            (Inr (Some (JObj
              [(''status'', JStr ''claimed''), (''task_id'', JStr (x_task_id context)),
               (''task_path'', JStr (x_task_path context)), (''run_dir'', JStr (x_run_dir context)),
               (''state'', JStr ''Consultation''), (''paused_state'', jopt (x_paused_status context)),
               (''task'', JStr task), (''consult_request'', JStr consult_request), (''review'', JStr review),
               (''review_cycles_used'', JInt (uint (x_review_cycles context))),
               (''check_retries_used'', JInt (uint (x_check_retries context)))])), w))))"

definition wait_for_consultation :: "env \<Rightarrow> string \<Rightarrow> polls \<Rightarrow> json tool" where
  "wait_for_consultation E agent later =
    wait_until (\<lambda>E. poll_consultation E agent)
      (Inr (JObj [(''status'', JStr ''timeout''), (''state'', JStr ''NoConsultation'')])) E later"

definition heartbeat :: "env \<Rightarrow> string \<Rightarrow> json tool" where
  "heartbeat E agent w =
    (case on_db (renew_claimed_task_lease (e_chrono E) (e_now E) agent (cfg_ttl_secs (e_config E))) w of
       (Inr (Renewed task_id task_path claimed_by lease_until), w1) \<Rightarrow>
         (Inr (JObj [(''status'', JStr ''renewed''), (''task_id'', JStr task_id), (''task_path'', JStr task_path),
            (''claimed_by'', JStr claimed_by), (''lease_until'', JTime lease_until)]), w1)
     | (Inr Expired, w1) \<Rightarrow>
         (Inr (JObj [(''status'', JStr ''error''), (''code'', JStr ''expired''),
            (''message'', JStr ''Your lease expired before renewal'')]), w1)
     | (_, w1) \<Rightarrow>
         (Inr (JObj [(''status'', JStr ''error''), (''code'', JStr ''not_claimed''),
            (''message'', JStr ''No active lease exists'')]), w1))"


section \<open>Creating and resetting tasks\<close>

text \<open>\<open>names\<close> is the listing of the task directory.\<close>

definition create_pending_in_world ::
  "string list res \<Rightarrow> string \<Rightarrow> string option \<Rightarrow> string option \<Rightarrow> TaskArtifact tool" where
  "create_pending_in_world names description spec_path milestone_id w =
    (case create_pending_task_artifact names description spec_path milestone_id (w_files w) (w_db w) of
       (r, c, d) \<Rightarrow> (r, w \<lparr> w_files := c, w_db := d \<rparr>))"

definition created_payload :: "TaskArtifact \<Rightarrow> string option \<Rightarrow> string option \<Rightarrow> string \<Rightarrow> json" where
  "created_payload a spec_path milestone_id description =
    JObj [(''task_id'', JStr (ta_id a)), (''path'', JStr (ta_path a)), (''run_dir'', JStr (ta_run_dir a)),
      (''spec_path'', jopt spec_path), (''milestone_id'', jopt milestone_id),
      (''description_bytes'', JInt (int (length description)))]"

definition create_task :: "string list res \<Rightarrow> string \<Rightarrow> string tool" where
  "create_task names description =
    (if trim description = [] then tool_res (Inl (Bail ''Cannot create task: description is empty.''))
     else
       tbind (create_pending_in_world names description None None) (\<lambda>artifact.
       tbind (runtime_event None ''task_created'' (created_payload artifact None None description)) (\<lambda>_.
         tool_ret (''Task '' @ ta_id artifact @ '' created. State: pending. Artifact: '' @ ta_path artifact))))"

definition normalize_optional :: "string option \<Rightarrow> string option" where
  "normalize_optional value =
    (case value of None \<Rightarrow> None | Some v \<Rightarrow> if trim v = [] then None else Some (trim v))"

definition existing_task_message :: "string \<Rightarrow> string \<Rightarrow> TaskRecord \<Rightarrow> string" where
  "existing_task_message milestone_id spec_path existing =
    ''Cannot enqueue task: milestone '' @ milestone_id @ '' from '' @ spec_path @ '' already has task '' @ tr_id existing @
    '' ('' @ tr_path existing @ '') in status '' @ tr_status existing @ ''.''"

definition existing_task :: "string option \<Rightarrow> string option \<Rightarrow> db \<Rightarrow> unit res" where
  "existing_task spec_path milestone_id d =
    (case (spec_path, milestone_id) of
       (Some s, Some m) \<Rightarrow>
         (case find_non_terminal_task_by_origin s m d of
            Some existing \<Rightarrow> Inl (Bail (existing_task_message m s existing))
          | None \<Rightarrow> Inr ())
     | _ \<Rightarrow> Inr ())"

definition enqueue_task ::
  "string list res \<Rightarrow> string \<Rightarrow> string option \<Rightarrow> string option \<Rightarrow> string tool" where
  "enqueue_task names description spec milestone =
    (if trim description = [] then tool_res (Inl (Bail ''Cannot enqueue task: description is empty.''))
     else
       let spec_path = normalize_optional spec; milestone_id = normalize_optional milestone in
       if (spec_path = None) \<noteq> (milestone_id = None)
       then tool_res (Inl (Bail ''Cannot enqueue task: spec_path and milestone_id must be provided together.''))
       else
         tbind (read_db (existing_task spec_path milestone_id)) (\<lambda>_.
         tbind (create_pending_in_world names description spec_path milestone_id) (\<lambda>artifact.
         tbind (runtime_event None ''task_enqueued'' (created_payload artifact spec_path milestone_id description)) (\<lambda>_.
           tool_ret (''Task '' @ ta_id artifact @ '' enqueued. State: pending. Artifact: '' @ ta_path artifact)))))"

definition reset_message :: "RuntimeTaskContext \<Rightarrow> string" where
  "reset_message context =
    ''Cannot reset task '' @ x_task_id context @ '' from status '' @ x_status context @
    ''. Reset is only available for failed tasks.''"

definition reset_runtime_task :: "RuntimeTaskContext \<Rightarrow> string tool" where
  "reset_runtime_task context =
    tbind (tool_res (context_status context)) (\<lambda>status.
    if status \<noteq> Failed then tool_res (Inl (Bail (reset_message context)))
    else
      tbind (on_db (\<lambda>d. case record_task_status_on_connection (x_task_id context) (x_task_path context) Reset None None d of
          Inl e \<Rightarrow> (Inl e, d) | Inr d' \<Rightarrow> (Inr (), d'))) (\<lambda>_.
      tbind (runtime_event (x_run_id context) ''reset'' (JObj [(''task_id'', JStr (x_task_id context))])) (\<lambda>_.
        tool_ret (''Task '' @ x_task_id context @ '' reset. State: reset. The task artifact remains at '' @
          x_task_path context @ ''.''))))"

definition reset :: "string \<Rightarrow> string tool" where
  "reset agent = tbind (require_runtime_task_context agent) reset_runtime_task"



section \<open>Steps of a tool\<close>

lemma tbind_Inr: "m w = (Inr a, w1) \<Longrightarrow> tbind m f w = f a w1"
  by (simp add: tbind_def)

lemma tbind_Inl: "m w = (Inl e, w1) \<Longrightarrow> tbind m f w = (Inl e, w1)"
  by (simp add: tbind_def)

lemma tbind_ret [simp]: "tbind (tool_ret a) f = f a" "tbind (tool_res (Inr a)) f = f a"
  by (simp_all add: tbind_def tool_ret_def tool_res_def fun_eq_iff)

definition quiet_io :: "checkout \<Rightarrow> bool" where
  "quiet_io c = (\<forall>p. io c p = Done)"

lemma write_path_done: "quiet_io c \<Longrightarrow> write_path p s c = (Inr (), set_file (resolve_project_path p c) s c)"
  by (simp add: quiet_io_def write_path_def fs_write_def create_parent_def ensure_def Let_def)

lemma quiet_set_file [simp]: "quiet_io (set_file p s c) = quiet_io c"
  by (simp add: quiet_io_def)

lemma resolve_set_file [simp]: "resolve_project_path q (set_file p s c) = resolve_project_path q c"
  by (rule resolve_project_path_frame) simp_all

lemma read_path_done:
  "quiet_io c \<Longrightarrow> files c (resolve_project_path p c) = Some s \<Longrightarrow> read_path p c = Inr s"
  by (simp add: quiet_io_def read_path_def read_resolved_def Let_def)

text \<open>The agent's claim on a task is its only one.\<close>

definition sole_claim :: "string \<Rightarrow> string \<Rightarrow> db \<Rightarrow> bool" where
  "sole_claim agent tid d =
    ((\<exists>t. find_task tid d = Some t \<and> t_claimed_by t = Some agent) \<and>
     (\<forall>k u. find_task k d = Some u \<longrightarrow> t_claimed_by u = Some agent \<longrightarrow> k = tid))"

lemma sole_claim_latest:
  assumes "keys_ok d" "sole_claim agent tid d" "find_task tid d = Some t"
  shows "latest_claimed_task agent d = Some t"
proof -
  have "t \<in> set (filter (\<lambda>t. t_claimed_by t = Some agent) (tasks d))"
    using assms by (auto simp: sole_claim_def find_task_iff)
  then have "filter (\<lambda>t. t_claimed_by t = Some agent) (tasks d) \<noteq> []" by force
  then obtain u where u: "latest_claimed_task agent d = Some u"
    by (cases "latest_claimed_task agent d") (simp_all add: latest_claimed_task_def limit_1_def split: list.splits)
  with latest_claimed_task_in [OF assms(1) u] assms show ?thesis by (auto simp: sole_claim_def)
qed

lemma claimed_context:
  assumes inv: "db_inv d" and claim: "sole_claim agent tid d" and t: "find_task tid d = Some t"
  obtains ctx where "runtime_task_context_for_agent agent d = Inr (Some ctx)" "x_task_id ctx = tid"
    "x_task_path ctx = t_path t" "x_status ctx = t_status t" "x_paused_status ctx = t_paused_status t"
    "x_run_dir ctx = run_dir_for_task tid"
proof -
  have id: "t_id t = tid" using t by (rule task_table.get_key)
  have "view_cols_ok (t_view t)" using db_inv_task_ok [OF inv t] by (simp add: task_ok_def)
  then obtain v where v: "repository_view_reference_from_database (t_view t) = Inr v"
    by (auto simp: view_cols_ok_def is_ok_iff)
  have "\<exists>run. latest_run_for_agent_task agent tid d = Inr run"
  proof (cases "limit_1 (order_by run_recency_le (filter (\<lambda>r. r_agent r = agent \<and> r_task_id r = tid) (runs d)))")
    case (Some r)
    then have "r \<in> set (runs d)" using run_recency.limit_1_least by fastforce
    then have "view_cols_ok (r_view r)" using inv by (auto simp: db_inv_def run_ok_def)
    then show ?thesis using Some by (auto simp: latest_run_for_agent_task_def view_cols_ok_def is_ok_iff)
  qed (simp add: latest_run_for_agent_task_def order_by_def limit_1_def)
  then obtain run where run: "latest_run_for_agent_task agent (t_id t) d = Inr run" using id by blast
  have "latest_claimed_task agent d = Some t" using sole_claim_latest [OF db_inv_keys [OF inv] claim t] .
  then show ?thesis
    using that v run id
    by (auto simp: runtime_task_context_for_agent_def claimed_task_context_def context_of_task_def Let_def)
qed


lemma renew_row_more [simp]:
  "t_status (renew_row u b t) = t_status t" "t_path (renew_row u b t) = t_path t"
  "t_paused_status (renew_row u b t) = t_paused_status t"
  by (simp_all add: renew_row_def)

definition deadlines_ok :: "env \<Rightarrow> bool" where
  "deadlines_ok E =
    (is_ok (lease_deadline (e_chrono E) (e_now E) (cfg_ttl_secs (e_config E))) \<and>
     is_ok (lease_deadline (e_chrono E) (e_now' E) (cfg_ttl_secs (e_config E))))"

lemma reclaim_row:
  assumes t: "find_task tid d = Some t" "t_claimed_by t = Some agent" and dl: "deadlines_ok E"
  obtains r d' u where "claim_task_in_database (e_chrono E) (e_now E) (e_now' E) tid path agent (cfg_ttl_secs (e_config E)) d = (Inr r, d')"
    "r = TaskClaimed \<or> r = TaskAlreadyClaimed" "u = t \<or> (\<exists>l b. u = renew_row l b t)" "runs d' = runs d"
    "\<And>k. find_task k d' = (if k = tid then Some u else find_task k d)"
proof -
  let ?C = "e_chrono E" and ?ttl = "cfg_ttl_secs (e_config E)"
  have e: "ensure_task_exists tid path d = d" using t by (simp add: ensure_task_exists_def)
  show ?thesis
  proof (cases "lease_active ?C (e_now E) (t_lease_until t)")
    case True
    obtain until where until: "lease_deadline ?C (e_now' E) ?ttl = Inr until" using dl by (auto simp: deadlines_ok_def is_ok_iff)
    obtain r d' where r: "renew_task_lease_in_transaction ?C (e_now' E) tid agent ?ttl (t_lease_until t) d = Inr (r, d')"
    proof -
      have "\<exists>p. renew_task_lease_in_transaction ?C (e_now' E) tid agent ?ttl (t_lease_until t) d = Inr p"
        using until by (auto simp: renew_task_lease_in_transaction_def Let_def split: option.split)
      then show ?thesis using that by fast
    qed
    let ?u = "case find_task tid d' of Some u \<Rightarrow> u | None \<Rightarrow> t"
    show ?thesis
    proof (rule that)
      show "claim_task_in_database ?C (e_now E) (e_now' E) tid path agent ?ttl d = (Inr TaskAlreadyClaimed, d')"
        using r True t by (simp add: claim_task_in_database_def claim_task_tx_def e Let_def run_tx_def)
      have rows: "d' = d \<or> (\<exists>l b. \<forall>k. find_task k d' = (if k = tid then Some (renew_row l b t) else find_task k d))"
        using r until t
        by (cases "parse_lease_until ?C (t_lease_until t)")
           (auto simp: renew_task_lease_in_transaction_def Let_def row_simps split: if_splits, blast)
      then show "?u = t \<or> (\<exists>l b. ?u = renew_row l b t)" using t by (elim disjE exE) (simp, force)
      show "runs d' = runs d" using r by (rule renew_other_task(2))
      show "find_task k d' = (if k = tid then Some ?u else find_task k d)" for k using rows t by auto
    qed blast
  next
    case False
    obtain until where until: "lease_deadline ?C (e_now E) ?ttl = Inr until" using dl by (auto simp: deadlines_ok_def is_ok_iff)
    obtain d' where d': "claim_task_in_transaction ?C tid agent until (e_now E) d = Inr d'" by (rule claim_task_total)
    have row: "claim_row agent (to_rfc3339_secs ?C until) (to_rfc3339_secs ?C (e_now E)) t =
        renew_row (to_rfc3339_secs ?C until) (to_rfc3339_secs ?C (e_now E)) t"
      using t(2) by (simp add: claim_row_def renew_row_def)
    show ?thesis
    proof (rule that)
      show "claim_task_in_database ?C (e_now E) (e_now' E) tid path agent ?ttl d = (Inr TaskClaimed, d')"
        using d' until False t by (simp add: claim_task_in_database_def claim_task_tx_def e Let_def run_tx_def)
      show "runs d' = runs d" by (rule claim_task_row(2) [OF d'])
      show "find_task k d' = (if k = tid
          then Some (renew_row (to_rfc3339_secs ?C until) (to_rfc3339_secs ?C (e_now E)) t) else find_task k d)" for k
        using claim_task_row(1) [OF d'] t row by simp
    qed blast+
  qed
qed


text \<open>Steps that change one task row and keep the invariant.\<close>

definition row_step :: "string \<Rightarrow> task_row \<Rightarrow> db \<Rightarrow> db \<Rightarrow> bool" where
  "row_step tid u d d' =
    (db_inv d' \<and> runs d' = runs d \<and> (\<forall>k. find_task k d' = (if k = tid then Some u else find_task k d)))"

lemma row_stepD:
  assumes "row_step tid u d d'"
  shows "db_inv d'" "find_task tid d' = Some u" "k \<noteq> tid \<Longrightarrow> find_task k d' = find_task k d" "runs d' = runs d"
  using assms by (simp_all add: row_step_def)

lemma row_step_trans: "row_step tid u d d' \<Longrightarrow> row_step tid v d' d'' \<Longrightarrow> row_step tid v d d''"
  by (auto simp: row_step_def)

lemma sole_claim_step:
  "sole_claim agent tid d \<Longrightarrow> row_step tid u d d' \<Longrightarrow> t_claimed_by u = Some agent \<Longrightarrow> sole_claim agent tid d'"
  by (auto simp: sole_claim_def row_step_def split: if_splits)

definition same_but_lease :: "task_row \<Rightarrow> task_row \<Rightarrow> bool" where
  "same_but_lease t u = (u = t \<or> (\<exists>l b. u = renew_row l b t))"

lemma same_but_leaseD:
  "same_but_lease t u \<Longrightarrow> t_id u = t_id t" "same_but_lease t u \<Longrightarrow> t_status u = t_status t"
  "same_but_lease t u \<Longrightarrow> t_claimed_by u = t_claimed_by t" "same_but_lease t u \<Longrightarrow> t_path u = t_path t"
  "same_but_lease t u \<Longrightarrow> t_paused_status u = t_paused_status t"
  by (auto simp: same_but_lease_def)

lemma lease_ensured:
  assumes inv: "db_inv (w_db w)" and claim: "sole_claim agent tid (w_db w)" and t: "find_task tid (w_db w) = Some t"
    and dl: "deadlines_ok E"
  obtains w' u where "ensure_lease_owner_or_reclaim E agent w = (Inr (), w')" "same_but_lease t u"
    "row_step tid u (w_db w) (w_db w')" "w_files w' = w_files w"
proof -
  obtain ctx where c: "runtime_task_context_for_agent agent (w_db w) = Inr (Some ctx)" "x_task_id ctx = tid"
    by (rule claimed_context [OF inv claim t])
  have "t_claimed_by t = Some agent" using claim t by (auto simp: sole_claim_def)
  from reclaim_row [OF t this dl, of "x_task_path ctx"] obtain r d' u where
    r: "claim_task_in_database (e_chrono E) (e_now E) (e_now' E) tid (x_task_path ctx) agent (cfg_ttl_secs (e_config E)) (w_db w) = (Inr r, d')"
      "r = TaskClaimed \<or> r = TaskAlreadyClaimed" "u = t \<or> (\<exists>l b. u = renew_row l b t)" "runs d' = runs (w_db w)"
      "\<And>k. find_task k d' = (if k = tid then Some u else find_task k (w_db w))" by metis
  have "db_inv d'" using r(1) inv db_inv_claim_task by (auto simp: claim_task_in_database_def run_tx_Inr)
  then have "row_step tid u (w_db w) d'" using r(4,5) by (simp add: row_step_def)
  moreover have "ensure_lease_owner_or_reclaim E agent w = (Inr (), w \<lparr> w_db := d' \<rparr>)"
    using r(1,2) c
    by (auto simp: ensure_lease_owner_or_reclaim_def require_runtime_task_context_def tbind_def read_db_def on_db_def tool_ret_def)
  ultimately show ?thesis using that r(3) by (simp add: same_but_lease_def)
qed

definition asked :: "TaskStatus \<Rightarrow> string option \<Rightarrow> string \<Rightarrow> int \<Rightarrow> task_row \<Rightarrow> task_row" where
  "asked resume paused agent n t =
    t \<lparr> t_status := as_str AwaitingHuman, t_paused_status := paused, t_awaiting_human_by := Some agent,
        t_awaiting_human_status := Some (as_str resume), t_human_answer_recorded := False,
        t_human_question_order := Some n \<rparr>"

lemma question_step:
  assumes "db_inv d" "find_task tid d = Some t"
  obtains d' n where "task_human_question_in_transaction tid resume p agent d = Inr d'"
    "row_step tid (asked resume (map_option as_str p) agent n t) d d'"
proof -
  obtain n ty payload where d': "task_human_question_in_transaction tid resume p agent d =
      Inr (update_task tid (\<lambda>t. t \<lparr> t_human_question_order := Some n \<rparr>) (append_event None ty payload
        (update_task tid (\<lambda>t. t \<lparr> t_status := as_str AwaitingHuman, t_paused_status := map_option as_str p,
           t_awaiting_human_by := Some agent, t_awaiting_human_status := Some (as_str resume),
           t_human_answer_recorded := False \<rparr>) d)))" (is "_ = Inr ?d'")
    by (simp add: task_human_question_in_transaction_def Let_def)
  have "db_inv ?d'" by (rule db_inv_question [OF d' assms(1)])
  moreover have "runs ?d' = runs d" by simp
  moreover have "find_task k ?d' = (if k = tid then Some (asked resume (map_option as_str p) agent n t) else find_task k d)" for k
    using assms(2) by (simp add: row_simps asked_def)
  ultimately show ?thesis using d' that by (simp add: row_step_def)
qed

end
