(* ===== verification/Pauses.thy ===== *)
theory Pauses
  imports Tools
begin

text \<open>
  The two pauses of a task end to end: a question to the human and a consultation of the supervisor, each from the
  tool that starts the pause to the tool that returns with the answer. The lemmas follow the task's row and the
  artifacts through every tool; the properties put them together.
\<close>

section \<open>A question to the human\<close>

definition pause_text :: "TaskStatus \<Rightarrow> task_row \<Rightarrow> string option" where
  "pause_text s t = (if s = Consultation then t_paused_status t else Some (as_str s))"

definition question_path :: "string \<Rightarrow> checkout \<Rightarrow> string" where
  "question_path tid c = resolve_project_path (run_file (run_dir_for_task tid) ''QUESTION.md'') c"

definition answer_path :: "string \<Rightarrow> checkout \<Rightarrow> string" where
  "answer_path tid c = resolve_project_path (run_file (run_dir_for_task tid) ''ANSWER.md'') c"

lemma human_pause_context_ok:
  assumes "x_status ctx = as_str s" "x_paused_status ctx = t_paused_status t" "task_ok t"
  obtains p where "human_pause_context ctx = Inr (s, p)" "map_option as_str p = pause_text s t"
proof (cases "s = Consultation")
  case True
  have "opt_status_text (t_paused_status t)" using assms(3) by (simp add: task_ok_def)
  then obtain p where "opt_res from_str (t_paused_status t) = Inr p" "map_option as_str p = t_paused_status t"
    by (cases "t_paused_status t") (auto simp: opt_status_text_def status_text_iff)
  then show ?thesis
    using that True assms by (simp add: human_pause_context_def context_status_def pause_text_def)
next
  case False
  then show ?thesis
    using that [of "Some s"] assms by (simp add: human_pause_context_def context_status_def pause_text_def)
qed

lemma ask_human_ok:
  assumes inv: "db_inv (w_db w)" and claim: "sole_claim agent tid (w_db w)" and t: "find_task tid (w_db w) = Some t"
    and s: "t_status t = as_str s" "s \<in> {Executing, Addressing, Consultation, Reviewing}"
    and io: "quiet_io (w_files w)" and dl: "deadlines_ok E"
  obtains m w1 u n where "ask_human E agent question w = (Inr m, w1)" "same_but_lease t u"
    "row_step tid (asked s (pause_text s t) agent n u) (w_db w) (w_db w1)"
    "w_files w1 = set_file (answer_path tid (w_files w)) [] (set_file (question_path tid (w_files w)) question (w_files w))"
proof -
  obtain ctx where ctx: "runtime_task_context_for_agent agent (w_db w) = Inr (Some ctx)" "x_task_id ctx = tid"
    "x_status ctx = t_status t" "x_paused_status ctx = t_paused_status t" "x_run_dir ctx = run_dir_for_task tid"
    by (rule claimed_context [OF inv claim t])
  have st: "context_status ctx = Inr s" using ctx(3) s by (simp add: context_status_def)
  have "\<exists>w' u. ensure_can_ask_human E ctx agent w = (Inr (), w') \<and> same_but_lease t u \<and>
      row_step tid u (w_db w) (w_db w') \<and> w_files w' = w_files w"
  proof (cases "can_supervisor_ask_during_consultation ctx agent")
    case True
    have "row_step tid t (w_db w) (w_db w)" using inv t by (simp add: row_step_def)
    then show ?thesis
      using True st s by (auto simp: ensure_can_ask_human_def can_ask_from_context_def tool_ret_def same_but_lease_def)
  next
    case False
    obtain w' u where "ensure_lease_owner_or_reclaim E agent w = (Inr (), w')" "same_but_lease t u"
      "row_step tid u (w_db w) (w_db w')" "w_files w' = w_files w" by (rule lease_ensured [OF inv claim t dl])
    then show ?thesis using False st s by (auto simp: ensure_can_ask_human_def can_ask_from_context_def)
  qed
  then obtain w' u where w': "ensure_can_ask_human E ctx agent w = (Inr (), w')" "same_but_lease t u"
    "row_step tid u (w_db w) (w_db w')" "w_files w' = w_files w" by blast
  obtain p where p: "human_pause_context ctx = Inr (s, p)" "map_option as_str p = pause_text s t"
    using human_pause_context_ok [of ctx s t] ctx(3,4) s db_inv_task_ok [OF inv t] by metis
  obtain d' n where d': "task_human_question_in_transaction tid s p agent (w_db w') = Inr d'"
    "row_step tid (asked s (map_option as_str p) agent n u) (w_db w') d'"
    by (rule question_step [OF row_stepD(1,2) [OF w'(3)]])
  let ?c = "set_file (answer_path tid (w_files w)) [] (set_file (question_path tid (w_files w)) question (w_files w))"
  have "ask_human E agent question w = (Inr (ask_message ctx), w' \<lparr> w_db := d', w_files := ?c \<rparr>)"
    using ctx w' p d' io
    by (simp add: ask_human_def require_runtime_task_context_def tbind_def read_db_def on_files_def on_db_def db_step_def
        tool_res_def tool_ret_def run_tx_def write_question_for_run_dir_def clear_answer_for_run_dir_def write_path_done
        answer_path_def question_path_def)
  moreover have "row_step tid (asked s (pause_text s t) agent n u) (w_db w) d'"
    using row_step_trans [OF w'(3) d'(2)] p(2) by simp
  ultimately show ?thesis using that w'(2) by simp
qed


definition no_open_question :: "string \<Rightarrow> db \<Rightarrow> bool" where
  "no_open_question tid d = (\<forall>k u. find_task k d = Some u \<longrightarrow> unanswered u \<longrightarrow> k = tid)"

lemma record_answer_step:
  assumes "db_inv d" "find_task tid d = Some t" "t_status t = as_str AwaitingHuman"
  obtains d' where "record_task_human_answer tid d = (Inr (), d')"
    "row_step tid (t \<lparr> t_human_answer_recorded := True \<rparr>) d d'"
proof -
  let ?P = "\<lambda>t. t_id t = tid \<and> t_status t = as_str AwaitingHuman"
  have "t \<in> set (tasks d)" "t_id t = tid"
    using assms(2) find_task_in task_table.get_key by blast+
  then have "count_by ?P (tasks d) \<noteq> 0" using assms(3) by (auto simp: count_by_def filter_empty_conv)
  then obtain payload where d': "record_task_human_answer_tx tid d = Inr ((),
      append_event None ''task_human_answer_recorded'' payload (update_tasks ?P (\<lambda>t. t \<lparr> t_human_answer_recorded := True \<rparr>) d))"
    (is "_ = Inr ((), ?d')") by (simp add: record_task_human_answer_tx_def Let_def)
  have "db_inv ?d'" by (rule db_inv_answer [OF d' assms(1)])
  moreover have "find_task k ?d' = (if k = tid then Some (t \<lparr> t_human_answer_recorded := True \<rparr>) else find_task k d)" for k
    using assms(2,3) by (cases "find_task k d") (auto simp: row_simps dest: task_table.get_key)
  ultimately show ?thesis
    using that d' by (simp add: row_step_def record_task_human_answer_def run_tx_def)
qed

lemma answer_ok:
  assumes inv: "db_inv (w_db w)" and t: "find_task tid (w_db w) = Some t" "unanswered t"
    and sole: "no_open_question tid (w_db w)" and io: "quiet_io (w_files w)" and r: "trim response \<noteq> []"
  obtains m w1 where "answer response w = (Inr m, w1)"
    "row_step tid (t \<lparr> t_human_answer_recorded := True \<rparr>) (w_db w) (w_db w1)"
    "w_files w1 = set_file (answer_path tid (w_files w)) response (w_files w)"
proof -
  have id: "t_id t = tid" using t(1) by (rule task_table.get_key)
  have all: "u = t" if "u \<in> set (order_by question_order_le (filter unanswered (tasks (w_db w))))" for u
  proof -
    have "find_task (t_id u) (w_db w) = Some u" "unanswered u"
      using that find_task_iff [OF db_inv_keys [OF inv], of "t_id u" u] by auto
    then show ?thesis using sole t by (auto simp: no_open_question_def)
  qed
  have "t \<in> set (filter unanswered (tasks (w_db w)))" using t find_task_in by auto
  then obtain rest where q: "list_human_questions (w_files w) (w_db w) = human_question (w_files w) t # rest"
    using all by (cases "order_by question_order_le (filter unanswered (tasks (w_db w)))")
      (auto simp: list_human_questions_def simp del: set_filter)
  have st: "t_status t = as_str AwaitingHuman" using t(2) by (simp add: unanswered_def)
  obtain d' where d': "record_task_human_answer tid (w_db w) = (Inr (), d')"
    "row_step tid (t \<lparr> t_human_answer_recorded := True \<rparr>) (w_db w) d'"
    by (rule record_answer_step [OF inv t(1) st])
  have "answer response w = (Inr (answered_message (human_question (w_files w) t)),
      w \<lparr> w_db := d', w_files := set_file (answer_path tid (w_files w)) response (w_files w) \<rparr>)"
    using q d' r io id
    by (simp add: answer_def tbind_def record_answer_in_world_def record_scoped_human_answer_def human_question_def
        write_answer_for_run_dir_def write_path_done answer_path_def tool_ret_def Let_def)
  then show ?thesis using that d'(2) by simp
qed

text \<open>The row after the human's answer was taken.\<close>

definition human_restored :: "TaskStatus \<Rightarrow> task_row \<Rightarrow> task_row" where
  "human_restored s t =
    t \<lparr> t_status := as_str s, t_paused_status := (if s = Consultation then t_paused_status t else None),
        t_awaiting_human_by := None, t_awaiting_human_status := None, t_human_question_order := None,
        t_human_answer_recorded := False \<rparr>"

lemma restore_human_step:
  assumes "db_inv d" "find_task tid d = Some t" "t_status t = as_str AwaitingHuman" "t_awaiting_human_status t = Some (as_str s)"
  obtains d' where "run_tx (task_restore_human_in_transaction tid) d = (Inr (HumanRestored (as_str s)), d')"
    "row_step tid (human_restored s t) d d'"
proof -
  obtain payload where d': "task_restore_human_in_transaction tid d = Inr (HumanRestored (as_str s),
      append_event None ''task_human_answered'' payload (update_task tid (\<lambda>u. u \<lparr> t_status := as_str s,
        t_paused_status := (if s = Consultation then t_paused_status t else None), t_awaiting_human_by := None,
        t_awaiting_human_status := None, t_human_question_order := None, t_human_answer_recorded := False \<rparr>) d))"
    (is "_ = Inr (_, ?d')")
    using assms by (simp add: task_restore_human_in_transaction_def human_resume_status_def Let_def)
  have "db_inv ?d'" by (rule db_inv_restore_human [OF d' assms(1)])
  moreover have "find_task k ?d' = (if k = tid then Some (human_restored s t) else find_task k d)" for k
    using assms(2) by (simp add: row_simps human_restored_def)
  ultimately show ?thesis using that d' by (simp add: row_step_def run_tx_def)
qed


text \<open>Polls that find nothing, up to the change that brings the answer.\<close>

lemma wait_idle:
  assumes "\<And>E. poll E w = (Inr None, w)" "\<forall>p\<in>set idle. fst p = id"
  shows "wait_until poll timeout E (idle @ (change, E') # rest) w = wait_until poll timeout E' rest (change w)"
  using assms(2)
proof (induction idle arbitrary: E)
  case Nil
  show ?case using assms(1) by (subst wait_until.simps) simp
next
  case (Cons p idle)
  obtain E1 where p: "p = (id, E1)" using Cons.prems by (metis list.set_intros(1) prod.collapse)
  have "wait_until poll timeout E ((p # idle) @ (change, E') # rest) w =
      wait_until poll timeout E1 (idle @ (change, E') # rest) w"
    using assms(1) p by (subst wait_until.simps) simp
  then show ?case using Cons by simp
qed

lemma trim_Nil [simp]: "trim [] = []"
  by code_simp

lemma poll_answer_empty:
  assumes "quiet_io (w_files w)" "x_run_dir ctx = run_dir_for_task tid" "files (w_files w) (answer_path tid (w_files w)) = Some []"
  shows "poll_answer ctx w = (Inr None, w)"
proof -
  have "read_answer_for_run_dir (x_run_dir ctx) (w_files w) = Inr []"
    unfolding read_answer_for_run_dir_def using assms by (intro read_path_done) (simp_all add: answer_path_def)
  then show ?thesis by (simp add: poll_answer_def)
qed

definition answered_json :: "string \<Rightarrow> TaskStatus \<Rightarrow> json" where
  "answered_json response s =
    JObj [(''status'', JStr ''answered''), (''answer'', JStr (trim response)), (''resumed_state'', JStr (as_str s))]"

lemma poll_answer_done:
  assumes inv: "db_inv (w_db w)" and t: "find_task tid (w_db w) = Some t" "t_status t = as_str AwaitingHuman"
      "t_awaiting_human_status t = Some (as_str s)"
    and ctx: "x_task_id ctx = tid" "x_run_dir ctx = run_dir_for_task tid" and io: "quiet_io (w_files w)"
    and r: "files (w_files w) (answer_path tid (w_files w)) = Some response" "trim response \<noteq> []"
  obtains w1 where "poll_answer ctx w = (Inr (Some (answered_json response s)), w1)"
    "row_step tid (human_restored s t) (w_db w) (w_db w1)"
    "w_files w1 = set_file (question_path tid (w_files w)) [] (set_file (answer_path tid (w_files w)) [] (w_files w))"
proof -
  have read: "read_answer_for_run_dir (run_dir_for_task tid) (w_files w) = Inr response"
    unfolding read_answer_for_run_dir_def using io r by (intro read_path_done) (simp_all add: answer_path_def)
  obtain d' where d': "run_tx (task_restore_human_in_transaction tid) (w_db w) = (Inr (HumanRestored (as_str s)), d')"
    "row_step tid (human_restored s t) (w_db w) d'"
    by (rule restore_human_step [OF inv t])
  let ?c = "set_file (question_path tid (w_files w)) [] (set_file (answer_path tid (w_files w)) [] (w_files w))"
  have "poll_answer ctx w = (Inr (Some (answered_json response s)), w \<lparr> w_db := d', w_files := ?c \<rparr>)"
    using read d'(1) ctx io r(2)
    by (simp add: poll_answer_def tbind_def on_db_def on_files_def tool_ret_def clear_answer_for_run_dir_def
        clear_question_for_run_dir_def write_path_done answer_path_def question_path_def answered_json_def)
  then show ?thesis using that d'(2) by simp
qed

lemma answer_waiter_ok:
  assumes inv: "db_inv (w_db w)" and claim: "sole_claim agent tid (w_db w)" and t: "find_task tid (w_db w) = Some t"
      "t_status t = as_str AwaitingHuman" "t_awaiting_human_by t = Some agent" and dl: "deadlines_ok E"
  obtains ctx w1 u where "wait_for_answer E agent later w = wait_until (\<lambda>_. poll_answer ctx) (Inr timeout_json) E later w1"
    "same_but_lease t u" "row_step tid u (w_db w) (w_db w1)" "w_files w1 = w_files w"
    "x_task_id ctx = tid" "x_run_dir ctx = run_dir_for_task tid"
proof -
  obtain ctx where ctx: "runtime_task_context_for_agent agent (w_db w) = Inr (Some ctx)" "x_task_id ctx = tid"
    "x_status ctx = t_status t" "x_run_dir ctx = run_dir_for_task tid"
    by (rule claimed_context [OF inv claim t(1)])
  have "\<exists>w1 u. ensure_scoped_answer_waiter E ctx agent w = (Inr (), w1) \<and> same_but_lease t u \<and>
      row_step tid u (w_db w) (w_db w1) \<and> w_files w1 = w_files w"
  proof (cases "is_consultation_supervisor_human_wait ctx agent (w_db w)")
    case True
    have "row_step tid t (w_db w) (w_db w)" using inv t by (simp add: row_step_def)
    then show ?thesis
      using True t ctx
      by (auto simp: ensure_scoped_answer_waiter_def task_human_question_owner_def same_but_lease_def)
  next
    case False
    obtain w1 u where "ensure_lease_owner_or_reclaim E agent w = (Inr (), w1)" "same_but_lease t u"
      "row_step tid u (w_db w) (w_db w1)" "w_files w1 = w_files w" by (rule lease_ensured [OF inv claim t(1) dl])
    then show ?thesis
      using False t ctx by (auto simp: ensure_scoped_answer_waiter_def task_human_question_owner_def)
  qed
  then obtain w1 u where w1: "ensure_scoped_answer_waiter E ctx agent w = (Inr (), w1)" "same_but_lease t u"
      "row_step tid u (w_db w) (w_db w1)" "w_files w1 = w_files w" by blast
  have "wait_for_answer E agent later w = wait_until (\<lambda>_. poll_answer ctx) (Inr timeout_json) E later w1"
    using ctx t w1(1)
    by (simp add: wait_for_answer_def require_runtime_task_context_def tbind_def read_db_def tool_res_def context_status_def)
  then show ?thesis using that w1 ctx by blast
qed


lemma asked_simps [simp]:
  "t_status (asked s p a n t) = as_str AwaitingHuman" "t_awaiting_human_by (asked s p a n t) = Some a"
  "t_awaiting_human_status (asked s p a n t) = Some (as_str s)" "t_claimed_by (asked s p a n t) = t_claimed_by t"
  "t_human_answer_recorded (asked s p a n t) = False"
  by (simp_all add: asked_def)

lemma same_but_lease_asked:
  assumes "same_but_lease (asked s p a n t) u"
  obtains v where "u = asked s p a n v" "same_but_lease t v"
proof -
  from assms consider "u = asked s p a n t" | l b where "u = renew_row l b (asked s p a n t)"
    by (auto simp: same_but_lease_def)
  then show ?thesis
  proof cases
    case (2 l b)
    then have "u = asked s p a n (renew_row l b t)" by (simp add: asked_def renew_row_def)
    then show ?thesis using that by (auto simp: same_but_lease_def)
  qed (use that in \<open>auto simp: same_but_lease_def\<close>)
qed

lemma same_but_lease_trans: "same_but_lease t u \<Longrightarrow> same_but_lease u v \<Longrightarrow> same_but_lease t v"
  by (auto simp: same_but_lease_def renew_row_def) blast

lemma human_restored_asked:
  "human_restored s ((asked s (pause_text s t) a n t) \<lparr> t_human_answer_recorded := True \<rparr>) = human_restored s t"
  by (simp add: human_restored_def asked_def pause_text_def)

text \<open>The wait of the asking agent, with the human answering between two polls.\<close>

lemma wait_for_answer_answered:
  assumes inv: "db_inv (w_db w)" and claim: "sole_claim agent tid (w_db w)"
    and t: "find_task tid (w_db w) = Some (asked s p agent n t)"
    and sole: "no_open_question tid (w_db w)" and io: "quiet_io (w_files w)" and dl: "deadlines_ok E"
    and empty: "files (w_files w) (answer_path tid (w_files w)) = Some []"
    and r: "trim response \<noteq> []" and idle: "\<forall>p\<in>set idle. fst p = id"
  obtains w2 u where
    "wait_for_answer E agent (idle @ (\<lambda>w. snd (answer response w), E') # rest) w = (Inr (answered_json response s), w2)"
    "same_but_lease t u"
    "row_step tid (human_restored s ((asked s p agent n u) \<lparr> t_human_answer_recorded := True \<rparr>)) (w_db w) (w_db w2)"
    "files (w_files w2) (answer_path tid (w_files w)) = Some []" "files (w_files w2) (question_path tid (w_files w)) = Some []"
proof -
  let ?polls = "idle @ (\<lambda>w. snd (answer response w), E') # rest"
  obtain ctx w1 x where wait: "wait_for_answer E agent ?polls w =
      wait_until (\<lambda>_. poll_answer ctx) (Inr timeout_json) E ?polls w1"
    and x: "same_but_lease (asked s p agent n t) x" "row_step tid x (w_db w) (w_db w1)" and files1: "w_files w1 = w_files w"
    and ctx: "x_task_id ctx = tid" "x_run_dir ctx = run_dir_for_task tid"
    by (rule answer_waiter_ok [OF inv claim t asked_simps(1,2) dl])
  obtain v where v: "x = asked s p agent n v" "same_but_lease t v" by (rule same_but_lease_asked [OF x(1)])
  have "poll_answer ctx w1 = (Inr None, w1)"
    using io ctx(2) empty files1 by (intro poll_answer_empty) simp_all
  then have idle_polls: "wait_until (\<lambda>_. poll_answer ctx) (Inr timeout_json) E ?polls w1 =
      wait_until (\<lambda>_. poll_answer ctx) (Inr timeout_json) E' rest (snd (answer response w1))"
    using idle by (intro wait_idle)
  have sole1: "no_open_question tid (w_db w1)"
    using sole row_stepD(3) [OF x(2)] unfolding no_open_question_def by metis
  obtain m2 w2 where ans: "answer response w1 = (Inr m2, w2)"
    "row_step tid (x \<lparr> t_human_answer_recorded := True \<rparr>) (w_db w1) (w_db w2)"
    "w_files w2 = set_file (answer_path tid (w_files w)) response (w_files w)"
    by (rule answer_ok [OF row_stepD(1,2) [OF x(2)] _ sole1 _ r]) (use files1 io in \<open>simp_all add: v(1) unanswered_def\<close>)
  have paths: "answer_path tid (w_files w2) = answer_path tid (w_files w)" "question_path tid (w_files w2) = question_path tid (w_files w)"
    using ans(3) by (simp_all add: answer_path_def question_path_def)
  obtain w3 where poll: "poll_answer ctx w2 = (Inr (Some (answered_json response s)), w3)"
    "row_step tid (human_restored s (x \<lparr> t_human_answer_recorded := True \<rparr>)) (w_db w2) (w_db w3)"
    "w_files w3 = set_file (question_path tid (w_files w2)) [] (set_file (answer_path tid (w_files w2)) [] (w_files w2))"
    by (rule poll_answer_done [OF row_stepD(1,2) [OF ans(2)] _ _ ctx _ _ r])
       (use ans(3) paths io in \<open>simp_all add: v(1)\<close>)
  have "wait_until (\<lambda>_. poll_answer ctx) (Inr timeout_json) E' rest w2 = (Inr (answered_json response s), w3)"
    by (subst wait_until.simps) (simp add: poll(1))
  then have "wait_for_answer E agent ?polls w = (Inr (answered_json response s), w3)"
    unfolding wait idle_polls ans(1) by simp
  moreover have "row_step tid (human_restored s (x \<lparr> t_human_answer_recorded := True \<rparr>)) (w_db w) (w_db w3)"
    using row_step_trans [OF row_step_trans [OF x(2) ans(2)] poll(2)] .
  ultimately show ?thesis using that v poll(3) paths by (simp add: fun_upd_apply)
qed

text \<open>C35: A question to the human is answered and the task goes on where it stopped. When the agent that alone
  holds the task asks from any working phase and then waits, and the human answers at some moment between two of
  its polls, the wait returns the trimmed answer and the phase the task was in. The task's row is as it was
  before the question, up to a renewed lease and the cleared pause columns, no other task has changed, and the
  question and answer files are empty again.\<close>

theorem human_question_answered:
  assumes inv: "db_inv (w_db w)" and claim: "sole_claim agent tid (w_db w)" and t: "find_task tid (w_db w) = Some t"
    and s: "t_status t = as_str s" "s \<in> {Executing, Addressing, Consultation, Reviewing}"
    and sole: "no_open_question tid (w_db w)" and io: "quiet_io (w_files w)" and dl: "deadlines_ok E" "deadlines_ok E'"
    and r: "trim response \<noteq> []" and idle: "\<forall>p\<in>set idle. fst p = id"
  shows "\<exists>m w1 w2 u. ask_human E agent question w = (Inr m, w1) \<and>
    wait_for_answer E' agent (idle @ (\<lambda>w. snd (answer response w), E'') # rest) w1 = (Inr (answered_json response s), w2) \<and>
    same_but_lease t u \<and> row_step tid (human_restored s u) (w_db w) (w_db w2) \<and>
    files (w_files w2) (answer_path tid (w_files w)) = Some [] \<and>
    files (w_files w2) (question_path tid (w_files w)) = Some []"
proof -
  obtain m w1 u n where ask: "ask_human E agent question w = (Inr m, w1)" "same_but_lease t u"
    "row_step tid (asked s (pause_text s t) agent n u) (w_db w) (w_db w1)"
    "w_files w1 = set_file (answer_path tid (w_files w)) [] (set_file (question_path tid (w_files w)) question (w_files w))"
    by (rule ask_human_ok [OF inv claim t s io dl(1), of question])
  have "t_claimed_by t = Some agent" using claim t by (auto simp: sole_claim_def)
  then have claim1: "sole_claim agent tid (w_db w1)"
    using sole_claim_step [OF claim ask(3)] same_but_leaseD(3) [OF ask(2)] by simp
  have sole1: "no_open_question tid (w_db w1)"
    using sole row_stepD(3) [OF ask(3)] unfolding no_open_question_def by metis
  have paths: "answer_path tid (w_files w1) = answer_path tid (w_files w)" "question_path tid (w_files w1) = question_path tid (w_files w)"
    using ask(4) by (simp_all add: answer_path_def question_path_def)
  have io1: "quiet_io (w_files w1)" and empty: "files (w_files w1) (answer_path tid (w_files w1)) = Some []"
    using io ask(4) paths by simp_all
  obtain w2 v where wait:
    "wait_for_answer E' agent (idle @ (\<lambda>w. snd (answer response w), E'') # rest) w1 = (Inr (answered_json response s), w2)"
    "same_but_lease u v"
    "row_step tid (human_restored s ((asked s (pause_text s t) agent n v) \<lparr> t_human_answer_recorded := True \<rparr>)) (w_db w1) (w_db w2)"
    "files (w_files w2) (answer_path tid (w_files w1)) = Some []" "files (w_files w2) (question_path tid (w_files w1)) = Some []"
    by (rule wait_for_answer_answered [OF row_stepD(1) [OF ask(3)] claim1 row_stepD(2) [OF ask(3)] sole1 io1 dl(2) empty r idle])
  have tv: "same_but_lease t v" by (rule same_but_lease_trans [OF ask(2) wait(2)])
  then have "pause_text s t = pause_text s v" using same_but_leaseD(5) by (simp add: pause_text_def)
  then have "row_step tid (human_restored s v) (w_db w) (w_db w2)"
    using row_step_trans [OF ask(3) wait(3)] human_restored_asked [of s v agent n] by simp
  then show ?thesis using ask(1) wait tv paths by auto
qed

section \<open>A consultation of the supervisor\<close>

definition request_path :: "string \<Rightarrow> checkout \<Rightarrow> string" where
  "request_path tid c = resolve_project_path (run_file (run_dir_for_task tid) ''CONSULT_REQUEST.md'') c"

definition response_path :: "string \<Rightarrow> checkout \<Rightarrow> string" where
  "response_path tid c = resolve_project_path (run_file (run_dir_for_task tid) ''CONSULT_RESPONSE.md'') c"

definition consulting :: "TaskStatus \<Rightarrow> task_row \<Rightarrow> task_row" where
  "consulting s t = t \<lparr> t_status := as_str Consultation, t_paused_status := Some (as_str s) \<rparr>"

definition consult_restored :: "TaskStatus \<Rightarrow> task_row \<Rightarrow> task_row" where
  "consult_restored s t = t \<lparr> t_status := as_str s, t_paused_status := None \<rparr>"

lemma consulting_simps [simp]:
  "t_status (consulting s t) = as_str Consultation" "t_paused_status (consulting s t) = Some (as_str s)"
  "t_claimed_by (consulting s t) = t_claimed_by t" "consult_restored s (consulting s t) = consult_restored s t"
  by (simp_all add: consulting_def consult_restored_def)

lemma consultation_step:
  assumes "db_inv d" "find_task tid d = Some t"
  obtains d' where "task_consultation_in_transaction tid s d = Inr d'" "row_step tid (consulting s t) d d'"
proof -
  obtain payload where d': "task_consultation_in_transaction tid s d = Inr (append_event None ''task_consultation_requested'' payload
      (update_task tid (\<lambda>t. t \<lparr> t_status := as_str Consultation, t_paused_status := Some (as_str s) \<rparr>) d))"
    (is "_ = Inr ?d'") by (simp add: task_consultation_in_transaction_def)
  have "db_inv ?d'" by (rule db_inv_consultation [OF d' assms(1)])
  moreover have "find_task k ?d' = (if k = tid then Some (consulting s t) else find_task k d)" for k
    using assms(2) by (simp add: row_simps consulting_def)
  ultimately show ?thesis using that d' by (simp add: row_step_def)
qed

lemma restore_consultation_step:
  assumes "db_inv d" "find_task tid d = Some t" "t_status t = as_str Consultation" "t_paused_status t = Some (as_str s)"
  obtains d' where "run_tx (task_restore_consultation_in_transaction tid) d = (Inr (ConsultRestored (as_str s)), d')"
    "row_step tid (consult_restored s t) d d'"
proof -
  obtain payload where d': "task_restore_consultation_in_transaction tid d = Inr (ConsultRestored (as_str s),
      append_event None ''task_consultation_resolved'' payload
        (update_task tid (\<lambda>t. t \<lparr> t_status := as_str s, t_paused_status := None \<rparr>) d))" (is "_ = Inr (_, ?d')")
    using assms by (simp add: task_restore_consultation_in_transaction_def Let_def)
  have "db_inv ?d'" by (rule db_inv_restore_consultation [OF d' assms(1)])
  moreover have "find_task k ?d' = (if k = tid then Some (consult_restored s t) else find_task k d)" for k
    using assms(2) by (simp add: row_simps consult_restored_def)
  ultimately show ?thesis using that d' by (simp add: row_step_def run_tx_def)
qed

lemma consult_ok:
  assumes inv: "db_inv (w_db w)" and claim: "sole_claim agent tid (w_db w)" and t: "find_task tid (w_db w) = Some t"
    and s: "t_status t = as_str s" "s \<in> {Executing, Addressing}" and q: "validate_consult_request question = Inr ()"
    and io: "quiet_io (w_files w)" and dl: "deadlines_ok E"
  obtains m w1 u where "consult E agent question w = (Inr m, w1)" "same_but_lease t u"
    "row_step tid (consulting s u) (w_db w) (w_db w1)"
    "w_files w1 = set_file (response_path tid (w_files w)) [] (set_file (request_path tid (w_files w)) question (w_files w))"
proof -
  obtain ctx where ctx: "runtime_task_context_for_agent agent (w_db w) = Inr (Some ctx)" "x_task_id ctx = tid"
    "x_status ctx = t_status t" "x_run_dir ctx = run_dir_for_task tid"
    by (rule claimed_context [OF inv claim t])
  obtain w' u where w': "ensure_lease_owner_or_reclaim E agent w = (Inr (), w')" "same_but_lease t u"
      "row_step tid u (w_db w) (w_db w')" "w_files w' = w_files w" by (rule lease_ensured [OF inv claim t dl])
  obtain d' where d': "task_consultation_in_transaction tid s (w_db w') = Inr d'" "row_step tid (consulting s u) (w_db w') d'"
    by (rule consultation_step [OF row_stepD(1,2) [OF w'(3)]])
  let ?c = "set_file (response_path tid (w_files w)) [] (set_file (request_path tid (w_files w)) question (w_files w))"
  have "consult E agent question w = (Inr (consult_message ctx), w' \<lparr> w_db := d', w_files := ?c \<rparr>)"
    using ctx w' d' io s q
    by (auto simp: consult_def require_runtime_task_context_def tbind_def read_db_def on_files_def on_db_def db_step_def
        tool_res_def tool_ret_def run_tx_def write_consult_request_for_run_dir_def clear_consult_response_for_run_dir_def
        write_path_done context_status_def response_path_def request_path_def)
  moreover have "row_step tid (consulting s u) (w_db w) d'" by (rule row_step_trans [OF w'(3) d'(2)])
  ultimately show ?thesis using that w'(2) by simp
qed

text \<open>A supervisor that holds no task and whose active runs all work on this one.\<close>

definition supervising :: "string \<Rightarrow> string \<Rightarrow> db \<Rightarrow> bool" where
  "supervising agent tid d =
    ((\<forall>k u. find_task k d = Some u \<longrightarrow> t_claimed_by u \<noteq> Some agent) \<and>
     (\<exists>r\<in>set (runs d). r_agent r = agent \<and> active_run_status (r_status r)) \<and>
     (\<forall>r\<in>set (runs d). r_agent r = agent \<longrightarrow> active_run_status (r_status r) \<longrightarrow> r_task_id r = tid))"

lemma supervising_step:
  "supervising agent tid d \<Longrightarrow> row_step k u d d' \<Longrightarrow> t_claimed_by u \<noteq> Some agent \<Longrightarrow> supervising agent tid d'"
  by (auto simp: supervising_def row_step_def split: if_splits)

lemma supervising_context:
  assumes inv: "db_inv d" and sup: "supervising agent tid d" and t: "find_task tid d = Some t"
  obtains ctx where "runtime_task_context_for_agent agent d = Inr (Some ctx)" "x_task_id ctx = tid"
    "x_status ctx = t_status t" "x_run_dir ctx = run_dir_for_task tid"
proof -
  let ?runs = "filter (\<lambda>r. r_agent r = agent \<and> active_run_status (r_status r) \<and> find_task (r_task_id r) d \<noteq> None) (runs d)"
  have id: "t_id t = tid" using t by (rule task_table.get_key)
  have "latest_claimed_task agent d = None"
  proof (cases "latest_claimed_task agent d")
    case (Some u)
    then show ?thesis using latest_claimed_task_in [OF db_inv_keys [OF inv] Some] sup by (auto simp: supervising_def)
  qed
  moreover obtain r where r: "limit_1 (order_by run_recency_le ?runs) = Some r"
  proof -
    have "?runs \<noteq> []" using sup t by (auto simp: supervising_def filter_empty_conv)
    then show ?thesis
      using that by (cases "limit_1 (order_by run_recency_le ?runs)") (auto simp: limit_1_def split: list.splits)
  qed
  moreover have in_runs: "r \<in> set ?runs" using r run_recency.limit_1_least by fastforce
  then have "r_task_id r = tid" using sup by (auto simp: supervising_def)
  moreover have "view_cols_ok (r_view r)" using inv in_runs by (auto simp: db_inv_def run_ok_def)
  then obtain v where "repository_view_reference_from_database (r_view r) = Inr v"
    by (auto simp: view_cols_ok_def is_ok_iff)
  ultimately show ?thesis
    using that t id by (auto simp: runtime_task_context_for_agent_def active_run_context_def context_of_task_def Let_def)
qed

lemma respond_consult_ok:
  assumes inv: "db_inv (w_db w)" and sup: "supervising agent tid (w_db w)" and t: "find_task tid (w_db w) = Some t"
    and s: "t_status t = as_str Consultation" and io: "quiet_io (w_files w)" and r: "trim response \<noteq> []"
    and staged: "files (w_files w) staged = None" "staged \<noteq> response_path tid (w_files w)"
  shows "\<exists>m. respond_consult E staged agent response w =
    (Inr m, w \<lparr> w_files := unset_file staged (set_file (response_path tid (w_files w)) response (w_files w)) \<rparr>)"
proof -
  obtain ctx where ctx: "runtime_task_context_for_agent agent (w_db w) = Inr (Some ctx)" "x_task_id ctx = tid"
    "x_status ctx = t_status t" "x_run_dir ctx = run_dir_for_task tid"
    by (rule supervising_context [OF inv sup t])
  have publish: "write_consult_response_for_run_dir staged (run_dir_for_task tid) response (w_files w) =
      (Inr (), unset_file staged (set_file (response_path tid (w_files w)) response (w_files w)))"
    using io staged
    by (simp add: write_consult_response_for_run_dir_def write_path_atomically_def create_parent_def quiet_io_def
        publish_stage_def discard_stage_def response_path_def ensure_def fs_write_def set_file_def unset_file_def fun_upd_twist)
  have "as_str Consultation = ''consultation''" "from_str ''consultation'' = Inr Consultation" by code_simp+
  then show ?thesis
    using ctx s r publish
    by (simp add: respond_consult_def respond_consult_run_for_context_def runtime_task_context_for_agent_best_effort_def
        tbind_def on_files_def tool_res_def tool_ret_def context_status_def)
qed

lemma poll_consult_empty:
  assumes "quiet_io (w_files w)" "x_run_dir ctx = run_dir_for_task tid" "files (w_files w) (response_path tid (w_files w)) = Some []"
  shows "poll_consult ctx w = (Inr None, w)"
proof -
  have "read_consult_response_for_run_dir (x_run_dir ctx) (w_files w) = Inr []"
    unfolding read_consult_response_for_run_dir_def using assms by (intro read_path_done) (simp_all add: response_path_def)
  then show ?thesis by (simp add: poll_consult_def)
qed

lemma poll_consult_done:
  assumes inv: "db_inv (w_db w)" and t: "find_task tid (w_db w) = Some t" "t_status t = as_str Consultation"
      "t_paused_status t = Some (as_str s)"
    and ctx: "x_task_id ctx = tid" "x_run_dir ctx = run_dir_for_task tid" and io: "quiet_io (w_files w)"
    and r: "files (w_files w) (response_path tid (w_files w)) = Some response" "trim response \<noteq> []"
  obtains w1 where "poll_consult ctx w = (Inr (Some (trim response)), w1)"
    "row_step tid (consult_restored s t) (w_db w) (w_db w1)"
    "w_files w1 = set_file (request_path tid (w_files w)) [] (set_file (response_path tid (w_files w)) [] (w_files w))"
proof -
  have read: "read_consult_response_for_run_dir (run_dir_for_task tid) (w_files w) = Inr response"
    unfolding read_consult_response_for_run_dir_def using io r by (intro read_path_done) (simp_all add: response_path_def)
  obtain d' where d': "run_tx (task_restore_consultation_in_transaction tid) (w_db w) = (Inr (ConsultRestored (as_str s)), d')"
    "row_step tid (consult_restored s t) (w_db w) d'"
    by (rule restore_consultation_step [OF inv t])
  let ?c = "set_file (request_path tid (w_files w)) [] (set_file (response_path tid (w_files w)) [] (w_files w))"
  have "poll_consult ctx w = (Inr (Some (trim response)), w \<lparr> w_db := d', w_files := ?c \<rparr>)"
    using read d'(1) ctx io r(2)
    by (simp add: poll_consult_def tbind_def on_db_def on_files_def tool_ret_def clear_consult_response_for_run_dir_def
        clear_consult_request_for_run_dir_def write_path_done response_path_def request_path_def)
  then show ?thesis using that d'(2) by simp
qed

lemma consult_waiter_ok:
  assumes inv: "db_inv (w_db w)" and claim: "sole_claim agent tid (w_db w)"
    and t: "find_task tid (w_db w) = Some (consulting s t)" and dl: "deadlines_ok E"
  obtains ctx w1 u where "wait_for_consult E agent later w = wait_until (\<lambda>_. poll_consult ctx)
      (Inl (Bail ''Timed out waiting for CONSULT_RESPONSE.md. Call /wait_for_consult again to keep waiting.'')) E later w1"
    "same_but_lease t u" "row_step tid (consulting s u) (w_db w) (w_db w1)" "w_files w1 = w_files w"
    "x_task_id ctx = tid" "x_run_dir ctx = run_dir_for_task tid"
proof -
  obtain ctx where ctx: "runtime_task_context_for_agent agent (w_db w) = Inr (Some ctx)" "x_task_id ctx = tid"
    "x_status ctx = t_status (consulting s t)" "x_run_dir ctx = run_dir_for_task tid"
    by (rule claimed_context [OF inv claim t])
  obtain w1 x where w1: "ensure_lease_owner_or_reclaim E agent w = (Inr (), w1)" "same_but_lease (consulting s t) x"
      "row_step tid x (w_db w) (w_db w1)" "w_files w1 = w_files w" by (rule lease_ensured [OF inv claim t dl])
  obtain u where u: "x = consulting s u" "same_but_lease t u"
  proof (cases "x = consulting s t")
    case False
    then obtain l b where "x = renew_row l b (consulting s t)" using w1(2) by (auto simp: same_but_lease_def)
    then have "x = consulting s (renew_row l b t)" by (simp add: consulting_def renew_row_def)
    then show ?thesis using that by (auto simp: same_but_lease_def)
  qed (use that in \<open>auto simp: same_but_lease_def\<close>)
  show ?thesis
  proof (rule that)
    show "wait_for_consult E agent later w = wait_until (\<lambda>_. poll_consult ctx)
        (Inl (Bail ''Timed out waiting for CONSULT_RESPONSE.md. Call /wait_for_consult again to keep waiting.'')) E later w1"
      using ctx w1(1)
      by (simp add: wait_for_consult_def require_runtime_task_context_def tbind_def read_db_def tool_res_def context_status_def)
  qed (use u w1 ctx in simp_all)
qed

lemma wait_for_consult_answered:
  assumes inv: "db_inv (w_db w)" and claim: "sole_claim agent tid (w_db w)" and mentor: "supervising mentor tid (w_db w)"
    and t: "find_task tid (w_db w) = Some (consulting s t)" "t_claimed_by t = Some agent" and sup_ne: "mentor \<noteq> agent"
    and io: "quiet_io (w_files w)" and dl: "deadlines_ok E"
    and empty: "files (w_files w) (response_path tid (w_files w)) = Some []" and r: "trim response \<noteq> []"
    and staged: "files (w_files w) staged = None" and idle: "\<forall>p\<in>set idle. fst p = id"
  obtains w2 u where
    "wait_for_consult E agent (idle @ (\<lambda>w. snd (respond_consult E' staged mentor response w), E'') # rest) w =
      (Inr (trim response), w2)"
    "same_but_lease t u" "row_step tid (consult_restored s u) (w_db w) (w_db w2)"
    "files (w_files w2) (response_path tid (w_files w)) = Some []" "files (w_files w2) (request_path tid (w_files w)) = Some []"
proof -
  let ?polls = "idle @ (\<lambda>w. snd (respond_consult E' staged mentor response w), E'') # rest"
  let ?late = "Inl (Bail ''Timed out waiting for CONSULT_RESPONSE.md. Call /wait_for_consult again to keep waiting.'')"
  obtain ctx w1 u where wait: "wait_for_consult E agent ?polls w = wait_until (\<lambda>_. poll_consult ctx) ?late E ?polls w1"
    and u: "same_but_lease t u" "row_step tid (consulting s u) (w_db w) (w_db w1)" and files1: "w_files w1 = w_files w"
    and ctx: "x_task_id ctx = tid" "x_run_dir ctx = run_dir_for_task tid"
    by (rule consult_waiter_ok [OF inv claim t(1) dl])
  have "poll_consult ctx w1 = (Inr None, w1)"
    using io ctx(2) empty files1 by (intro poll_consult_empty) simp_all
  then have idle_polls: "wait_until (\<lambda>_. poll_consult ctx) ?late E ?polls w1 =
      wait_until (\<lambda>_. poll_consult ctx) ?late E'' rest (snd (respond_consult E' staged mentor response w1))"
    using idle by (intro wait_idle)
  have "t_claimed_by u \<noteq> Some mentor" using same_but_leaseD(3) [OF u(1)] t(2) sup_ne by simp
  then have sup1: "supervising mentor tid (w_db w1)" by (intro supervising_step [OF mentor u(2)]) simp
  have ne: "staged \<noteq> response_path tid (w_files w)" using staged empty by auto
  let ?c = "unset_file staged (set_file (response_path tid (w_files w)) response (w_files w))"
  obtain m where resp: "respond_consult E' staged mentor response w1 = (Inr m, w1 \<lparr> w_files := ?c \<rparr>)"
    using respond_consult_ok [OF row_stepD(1) [OF u(2)] sup1 row_stepD(2) [OF u(2)] _ _ r, of staged E']
      io staged ne files1 by auto
  have res: "resolve_project_path p ?c = resolve_project_path p (w_files w)" for p
    by (rule resolve_project_path_frame) simp_all
  then have paths: "response_path tid ?c = response_path tid (w_files w)" "request_path tid ?c = request_path tid (w_files w)"
    by (simp_all add: response_path_def request_path_def)
  obtain w3 where poll: "poll_consult ctx (w1 \<lparr> w_files := ?c \<rparr>) = (Inr (Some (trim response)), w3)"
    "row_step tid (consult_restored s (consulting s u)) (w_db w1) (w_db w3)"
    "w_files w3 = set_file (request_path tid (w_files w)) [] (set_file (response_path tid (w_files w)) [] ?c)"
    using poll_consult_done [of "w1 \<lparr> w_files := ?c \<rparr>" tid "consulting s u" s ctx response]
      row_stepD(1,2) [OF u(2)] ctx io paths ne r by (auto simp: quiet_io_def)
  have "wait_until (\<lambda>_. poll_consult ctx) ?late E'' rest (w1 \<lparr> w_files := ?c \<rparr>) = (Inr (trim response), w3)"
    by (subst wait_until.simps) (simp add: poll(1))
  then have "wait_for_consult E agent ?polls w = (Inr (trim response), w3)"
    unfolding wait idle_polls resp by simp
  moreover have "row_step tid (consult_restored s u) (w_db w) (w_db w3)"
    using row_step_trans [OF u(2) poll(2)] by simp
  ultimately show ?thesis using that u(1) poll(3) by (simp add: fun_upd_apply)
qed

text \<open>C36: A consultation is answered and the executor goes on where it stopped. When the executor that alone holds
  a task it works on consults with a complete request and waits, and a supervisor working on the task responds
  between two of its polls, the wait returns the trimmed response. The task is back in the phase it was in, its
  row unchanged up to a renewed lease and a cleared pause, no other task and no run has changed, and the request
  and response files are empty again.\<close>

theorem consultation_answered:
  assumes inv: "db_inv (w_db w)" and claim: "sole_claim agent tid (w_db w)" and t: "find_task tid (w_db w) = Some t"
    and s: "t_status t = as_str s" "s \<in> {Executing, Addressing}" and q: "validate_consult_request question = Inr ()"
    and mentor: "supervising mentor tid (w_db w)" and io: "quiet_io (w_files w)" and dl: "deadlines_ok E" "deadlines_ok E'"
    and staged: "files (w_files w) staged = None" "staged \<noteq> request_path tid (w_files w)" "staged \<noteq> response_path tid (w_files w)"
    and r: "trim response \<noteq> []" and idle: "\<forall>p\<in>set idle. fst p = id"
  shows "\<exists>m w1 w2 u. consult E agent question w = (Inr m, w1) \<and>
    wait_for_consult E' agent (idle @ (\<lambda>w. snd (respond_consult E1 staged mentor response w), E2) # rest) w1 =
      (Inr (trim response), w2) \<and>
    same_but_lease t u \<and> row_step tid (consult_restored s u) (w_db w) (w_db w2) \<and>
    files (w_files w2) (response_path tid (w_files w)) = Some [] \<and>
    files (w_files w2) (request_path tid (w_files w)) = Some []"
proof -
  obtain m w1 u where ask: "consult E agent question w = (Inr m, w1)" "same_but_lease t u"
    "row_step tid (consulting s u) (w_db w) (w_db w1)"
    "w_files w1 = set_file (response_path tid (w_files w)) [] (set_file (request_path tid (w_files w)) question (w_files w))"
    by (rule consult_ok [OF inv claim t s q io dl(1)])
  have "t_claimed_by t = Some agent" using claim t by (auto simp: sole_claim_def)
  then have owner: "t_claimed_by u = Some agent" using same_but_leaseD(3) [OF ask(2)] by simp
  then have claim1: "sole_claim agent tid (w_db w1)" using sole_claim_step [OF claim ask(3)] by simp
  have ne: "mentor \<noteq> agent" using mentor claim by (auto simp: supervising_def sole_claim_def)
  then have sup1: "supervising mentor tid (w_db w1)" using owner by (intro supervising_step [OF mentor ask(3)]) simp
  have paths: "response_path tid (w_files w1) = response_path tid (w_files w)" "request_path tid (w_files w1) = request_path tid (w_files w)"
    using ask(4) by (simp_all add: response_path_def request_path_def)
  have io1: "quiet_io (w_files w1)" "files (w_files w1) (response_path tid (w_files w1)) = Some []" "files (w_files w1) staged = None"
    using io ask(4) paths staged by simp_all
  obtain w2 v where wait:
    "wait_for_consult E' agent (idle @ (\<lambda>w. snd (respond_consult E1 staged mentor response w), E2) # rest) w1 = (Inr (trim response), w2)"
    "same_but_lease u v" "row_step tid (consult_restored s v) (w_db w1) (w_db w2)"
    "files (w_files w2) (response_path tid (w_files w1)) = Some []" "files (w_files w2) (request_path tid (w_files w1)) = Some []"
    by (rule wait_for_consult_answered [OF row_stepD(1) [OF ask(3)] claim1 sup1 row_stepD(2) [OF ask(3)] owner ne io1(1) dl(2)
          io1(2) r io1(3) idle])
  have "same_but_lease t v" by (rule same_but_lease_trans [OF ask(2) wait(2)])
  then show ?thesis using ask(1) wait row_step_trans [OF ask(3) wait(3)] paths by auto
qed

definition sample_config :: Config where
  "sample_config = \<lparr> cfg_commands = [''make''], cfg_max_check_retries = 3, cfg_max_review_cycles = 3, cfg_max_feedback_lines = 2,
    cfg_max_executor_dispatches = 3, cfg_max_parallel_tasks = 1, cfg_ttl_secs = 60 \<rparr>"

definition sample_env :: env where
  "sample_env = \<lparr> e_config = sample_config, e_chrono = unary_chrono, e_now = 0, e_now' = 0, e_ts = ''now'', e_task_id = None \<rparr>"

definition sample_world :: world where
  "sample_world = \<lparr> w_db = leased_db, w_files = sample_checkout, w_pins = (\<lambda>_. None) \<rparr>"

lemma find_leased: "find_task k leased_db = (if k = ''t-001'' then Some leased_task else None)"
proof -
  have "t_id leased_task = ''t-001''" by code_simp
  then show ?thesis by (simp add: find_task_def leased_db_def find_by_def)
qed

lemma sample_world_ok:
  "db_inv (w_db sample_world)" "sole_claim ''a'' ''t-001'' (w_db sample_world)" "find_task ''t-001'' (w_db sample_world) = Some leased_task"
  "no_open_question ''t-001'' (w_db sample_world)" "quiet_io (w_files sample_world)" "deadlines_ok sample_env"
proof -
  show "db_inv (w_db sample_world)" "find_task ''t-001'' (w_db sample_world) = Some leased_task" "deadlines_ok sample_env"
    by code_simp+
  have "t_claimed_by leased_task = Some ''a''" by code_simp
  then show "sole_claim ''a'' ''t-001'' (w_db sample_world)" "no_open_question ''t-001'' (w_db sample_world)"
    by (simp_all add: sole_claim_def no_open_question_def sample_world_def find_leased)
  show "quiet_io (w_files sample_world)" by (simp add: quiet_io_def sample_world_def sample_checkout_def)
qed

theorem human_question_answered_witness:
  "\<exists>m w1 w2 u. ask_human sample_env ''a'' ''which?'' sample_world = (Inr m, w1) \<and>
    wait_for_answer sample_env ''a'' [(id, sample_env), (\<lambda>w. snd (answer '' this '' w), sample_env)] w1 =
      (Inr (answered_json '' this '' Executing), w2) \<and>
    row_step ''t-001'' (human_restored Executing u) leased_db (w_db w2)"
proof -
  have "t_status leased_task = as_str Executing" "trim '' this '' \<noteq> []" by code_simp+
  with human_question_answered [OF sample_world_ok(1-3) _ _ sample_world_ok(4,5,6,6),
      of Executing "'' this ''" "[(id, sample_env)]" "''which?''" sample_env "[]"]
  show ?thesis by (fastforce simp: sample_world_def)
qed

definition advised_world :: world where
  "advised_world = sample_world \<lparr> w_db := leased_db \<lparr> runs := [sample_run \<lparr> r_agent := ''b'', r_role := ''supervisor'' \<rparr>] \<rparr> \<rparr>"

definition sample_request :: string where
  "sample_request = ''## Problem ## What I tried ## Options (if any) ## Question''"

theorem consultation_answered_witness:
  "\<exists>m w1 w2 u. consult sample_env ''a'' sample_request advised_world = (Inr m, w1) \<and>
    wait_for_consult sample_env ''a'' [(id, sample_env), (\<lambda>w. snd (respond_consult sample_env ''stage'' ''b'' '' do '' w), sample_env)] w1 =
      (Inr ''do'', w2) \<and> row_step ''t-001'' (consult_restored Executing u) (w_db advised_world) (w_db w2)"
proof -
  have ok: "db_inv (w_db advised_world)" "find_task ''t-001'' (w_db advised_world) = Some leased_task"
    "t_status leased_task = as_str Executing" "trim '' do '' = ''do''" "validate_consult_request sample_request = Inr ()"
    "''stage'' \<noteq> request_path ''t-001'' (w_files advised_world)" "''stage'' \<noteq> response_path ''t-001'' (w_files advised_world)"
    by code_simp+
  have find: "find_task k (w_db advised_world) = find_task k leased_db" for k by (simp add: advised_world_def find_task_def)
  have row: "t_claimed_by leased_task = Some ''a''" by code_simp
  have "sole_claim ''a'' ''t-001'' (w_db advised_world)"
    unfolding sole_claim_def find using row by (simp add: find_leased)
  moreover have "supervising ''b'' ''t-001'' (w_db advised_world)"
    unfolding supervising_def find using row
    by (simp add: find_leased advised_world_def sample_run_def active_run_status_def)
  ultimately show ?thesis
    using consultation_answered [of advised_world "''a''" "''t-001''" leased_task Executing sample_request "''b''" sample_env sample_env
        "''stage''" "'' do ''" "[(id, sample_env)]" sample_env sample_env "[]"] ok sample_world_ok(5,6)
    by (fastforce simp: advised_world_def sample_world_def sample_checkout_def)
qed

end
