(* ===== verification/Patches.thy ===== *)
theory Patches
  imports Tools
begin

text \<open>
  The patch of a submission, \<open>src/src/server/tools/submit.rs\<close>: where the baseline tree comes from, the diff of a
  frozen tree against it, and the diff of a live workspace, which is assembled from the tracked files (in batches
  that fit a command line), the baseline files that are no longer tracked, and new files.

  Git is outside the program. \<open>git\<close> gives the output of each command the code runs, or its failure; the process
  environment and the baseline file of a task are fields of it too.
\<close>

section \<open>Git\<close>

text \<open>\<open>g_diff\<close> is \<open>git diff --binary <baseline> -- <paths>\<close>, \<open>g_tree_diff\<close> the diff of two trees in a working
  directory, \<open>g_show\<close> the content of a file in a tree, \<open>g_no_index\<close> the diff of a temporary file and a path, where
  \<open>None\<close> stands for \<open>/dev/null\<close>. \<open>g_inventory\<close> lists the tracked, the baseline and the untracked paths.\<close>

record git =
  g_baseline_env :: "string option"
  g_baseline_file :: "string \<Rightarrow> string option"
  g_cwd :: "string res"
  g_inventory :: "string \<Rightarrow> Digest \<Rightarrow> (string list \<times> string list \<times> string list) res"
  g_diff :: "string \<Rightarrow> string list \<Rightarrow> string res"
  g_tree_diff :: "string \<Rightarrow> string \<Rightarrow> string \<Rightarrow> string res"
  g_show :: "string \<Rightarrow> string \<Rightarrow> string res"
  g_write_temporary :: "string \<Rightarrow> unit res"
  g_exists :: "string \<Rightarrow> bool res"
  g_no_index :: "string option \<Rightarrow> string option \<Rightarrow> string res"

definition parse_git_tree_digest :: "string \<Rightarrow> Digest res" where
  "parse_git_tree_digest value =
    (let value = trim value in
     if length value = 40 then with_context ''invalid Git tree'' (Digest_new ''git-tree-sha1'' value)
     else if length value = 64 then with_context ''invalid Git tree'' (Digest_new ''git-tree-sha256'' value)
     else Inl (Bail ''invalid Git tree''))"

definition validate_git_tree_digest :: "Digest \<Rightarrow> unit res" where
  "validate_git_tree_digest d =
    ensure ((digest_algorithm d = ''git-tree-sha1'' \<and> length (digest_value d) = 40) \<or>
            (digest_algorithm d = ''git-tree-sha256'' \<and> length (digest_value d) = 64)) (Bail ''invalid Git tree'')"

definition nonempty_trimmed :: "string option \<Rightarrow> string option" where
  "nonempty_trimmed v = (case v of None \<Rightarrow> None | Some s \<Rightarrow> if trim s = [] then None else Some (trim s))"

definition baseline_tree_from_env :: "git \<Rightarrow> string option" where
  "baseline_tree_from_env g = nonempty_trimmed (g_baseline_env g)"

definition baseline_tree_from_project_data :: "git \<Rightarrow> string \<Rightarrow> string option" where
  "baseline_tree_from_project_data g task_id = nonempty_trimmed (g_baseline_file g task_id)"

definition baseline_tree :: "git \<Rightarrow> RuntimeTaskContext \<Rightarrow> string option" where
  "baseline_tree g context =
    (case baseline_tree_from_env g of
       Some b \<Rightarrow> Some b | None \<Rightarrow> baseline_tree_from_project_data g (x_task_id context))"

definition baseline_or_head :: "git \<Rightarrow> RuntimeTaskContext \<Rightarrow> string" where
  "baseline_or_head g context = (case baseline_tree g context of Some b \<Rightarrow> b | None \<Rightarrow> ''HEAD'')"


section \<open>Text of a patch\<close>

text \<open>\<open>Utf8Error::valid_up_to\<close>: the length of the longest well-formed beginning.\<close>

function valid_up_to :: "string \<Rightarrow> nat" where
  "valid_up_to [] = 0"
| "valid_up_to (c # s) =
    (case utf8_step (c # s) of (n, ok) \<Rightarrow> if ok then n + valid_up_to (drop n (c # s)) else 0)"
  by pat_completeness auto

termination
  by (relation "measure length") (auto dest: utf8_step_pos [OF sym])

declare valid_up_to.simps(2) [simp del]

definition non_utf8_message :: "nat \<Rightarrow> string" where
  "non_utf8_message offset =
    ''Cannot store submitted patch because Git emitted non-UTF-8 bytes at byte offset '' @ show_nat offset"

definition submitted_patch_from_utf8 :: "string \<Rightarrow> string res" where
  "submitted_patch_from_utf8 bytes =
    (if valid_up_to bytes = length bytes then Inr bytes else Inl (Bail (non_utf8_message (valid_up_to bytes))))"

text \<open>\<open>str::split_inclusive\<close> on newlines.\<close>

fun split_inclusive :: "string \<Rightarrow> string list" where
  "split_inclusive [] = []"
| "split_inclusive (c # s) =
    (if c = newline then [c] # split_inclusive s
     else case split_inclusive s of [] \<Rightarrow> [[c]] | w # ws \<Rightarrow> (c # w) # ws)"

definition trim_end_newlines :: "string \<Rightarrow> string" where
  "trim_end_newlines s = rev (dropWhile (\<lambda>c. c = newline) (rev s))"

definition rewrite_patch_line :: "string \<Rightarrow> bool \<Rightarrow> bool \<Rightarrow> string \<Rightarrow> string" where
  "rewrite_patch_line path old_null new_null line =
    (let without_newline = trim_end_newlines line;
         end_of_line = (if line \<noteq> [] \<and> last line = newline then [newline] else []) in
     if has_prefix ''diff --git '' without_newline then ''diff --git a/'' @ path @ '' b/'' @ path @ end_of_line
     else if has_prefix ''--- '' without_newline
     then ''--- '' @ (if old_null then ''/dev/null'' else ''a/'' @ path) @ end_of_line
     else if has_prefix ''+++ '' without_newline
     then ''+++ '' @ (if new_null then ''/dev/null'' else ''b/'' @ path) @ end_of_line
     else line)"

definition rewrite_no_index_patch_paths :: "string \<Rightarrow> string \<Rightarrow> bool \<Rightarrow> bool \<Rightarrow> string" where
  "rewrite_no_index_patch_paths patch path old_null new_null =
    concat (map (rewrite_patch_line path old_null new_null) (split_inclusive patch))"


section \<open>The diff of a workspace\<close>

definition PATHSPEC_ARGV_BUDGET :: int where
  "PATHSPEC_ARGV_BUDGET = 24000"

definition path_cost :: "string \<Rightarrow> int" where
  "path_cost path = int (length path) + 1"

text \<open>The loop over the paths: \<open>batch\<close> is the slice that has been started, \<open>used\<close> its cost.\<close>

fun batches_from :: "string list \<Rightarrow> int \<Rightarrow> string list \<Rightarrow> string list list" where
  "batches_from batch used [] = [batch]"
| "batches_from batch used (path # paths) =
    (if batch \<noteq> [] \<and> used + path_cost path > PATHSPEC_ARGV_BUDGET
     then batch # batches_from [path] (path_cost path) paths
     else batches_from (batch @ [path]) (used + path_cost path) paths)"

definition tracked_pathspec_batches :: "string list \<Rightarrow> string list list" where
  "tracked_pathspec_batches tracked = batches_from [] 0 tracked"

fun collect_patches :: "('a \<Rightarrow> string res) \<Rightarrow> 'a list \<Rightarrow> string res" where
  "collect_patches f [] = Inr []"
| "collect_patches f (x # xs) = res_bind (f x) (\<lambda>p. res_bind (collect_patches f xs) (\<lambda>q. Inr (p @ q)))"

definition tracked_workspace_patch :: "git \<Rightarrow> string \<Rightarrow> string list \<Rightarrow> string res" where
  "tracked_workspace_patch g baseline tracked =
    (if tracked = [] then Inr []
     else collect_patches (\<lambda>batch. res_bind (g_diff g baseline batch) submitted_patch_from_utf8)
       (tracked_pathspec_batches tracked))"

definition no_index_patch :: "git \<Rightarrow> string option \<Rightarrow> string option \<Rightarrow> string \<Rightarrow> bool \<Rightarrow> bool \<Rightarrow> string res" where
  "no_index_patch g old new path old_null new_null =
    res_bind (g_no_index g old new) (\<lambda>output.
    res_bind (submitted_patch_from_utf8 output) (\<lambda>patch.
      Inr (rewrite_no_index_patch_paths patch path old_null new_null)))"

definition baseline_untracked_path_patch :: "git \<Rightarrow> string \<Rightarrow> string \<Rightarrow> string res" where
  "baseline_untracked_path_patch g baseline path =
    res_bind (g_show g baseline path) (\<lambda>content.
    res_bind (g_write_temporary g content) (\<lambda>_.
    res_bind (g_exists g path) (\<lambda>present.
      if present then no_index_patch g (Some content) (Some path) path False False
      else no_index_patch g (Some content) None path False True)))"

definition new_file_patch :: "git \<Rightarrow> string \<Rightarrow> string res" where
  "new_file_patch g path = no_index_patch g None (Some path) path True False"

definition workspace_patch_against_baseline :: "git \<Rightarrow> string \<Rightarrow> string res" where
  "workspace_patch_against_baseline g baseline =
    res_bind (g_cwd g) (\<lambda>root.
    res_bind (parse_git_tree_digest baseline) (\<lambda>baseline_digest.
    res_bind (g_inventory g root baseline_digest) (\<lambda>(tracked, baseline_files, untracked).
    res_bind (tracked_workspace_patch g baseline tracked) (\<lambda>patch.
    res_bind (collect_patches (baseline_untracked_path_patch g baseline)
        (filter (\<lambda>path. path \<notin> set tracked) baseline_files)) (\<lambda>removed.
    res_bind (collect_patches (new_file_patch g)
        (filter (\<lambda>path. path \<notin> set baseline_files) untracked)) (\<lambda>added.
      Inr (patch @ removed @ added)))))))"

definition workspace_patch :: "git \<Rightarrow> RuntimeTaskContext \<Rightarrow> string res" where
  "workspace_patch g context = workspace_patch_against_baseline g (baseline_or_head g context)"

definition tree_patch_between :: "git \<Rightarrow> string \<Rightarrow> Digest \<Rightarrow> Digest \<Rightarrow> string res" where
  "tree_patch_between g workspace_root baseline source_tree =
    res_bind (g_tree_diff g workspace_root (digest_value baseline) (digest_value source_tree)) submitted_patch_from_utf8"

text \<open>The current directory is asked for even when the context names the workspace.\<close>

definition frozen_tree_patch :: "git \<Rightarrow> RuntimeTaskContext \<Rightarrow> Digest \<Rightarrow> string res" where
  "frozen_tree_patch g context source_tree =
    res_bind (parse_git_tree_digest (baseline_or_head g context)) (\<lambda>baseline.
    res_bind (g_cwd g) (\<lambda>cwd.
      tree_patch_between g (case x_workspace_path context of Some p \<Rightarrow> p | None \<Rightarrow> cwd) baseline source_tree))"


section \<open>Batches\<close>

definition batch_cost :: "string list \<Rightarrow> int" where
  "batch_cost batch = sum_list (map path_cost batch)"

definition batch_fits :: "string list \<Rightarrow> bool" where
  "batch_fits batch = (batch_cost batch \<le> PATHSPEC_ARGV_BUDGET \<or> length batch = 1)"

lemma batches_concat: "concat (batches_from batch used paths) = batch @ paths"
  by (induction batch used paths rule: batches_from.induct) auto

lemma batches_fit:
  assumes "batch = [] \<or> batch_fits batch" "used = batch_cost batch"
  shows "\<forall>b\<in>set (batches_from batch used paths). b = [] \<or> batch_fits b"
  using assms
proof (induction paths arbitrary: batch used)
  case (Cons path paths)
  show ?case
  proof (cases "batch \<noteq> [] \<and> used + path_cost path > PATHSPEC_ARGV_BUDGET")
    case True
    have "\<forall>b\<in>set (batches_from [path] (path_cost path) paths). b = [] \<or> batch_fits b"
      by (rule Cons.IH) (simp_all add: batch_fits_def batch_cost_def)
    then show ?thesis using True Cons.prems(1) by simp
  next
    case False
    have cost: "batch_cost (batch @ [path]) = used + path_cost path" using Cons.prems(2) by (simp add: batch_cost_def)
    have "batch_fits (batch @ [path])" using False cost by (cases "batch = []") (simp_all add: batch_fits_def)
    then have "\<forall>b\<in>set (batches_from (batch @ [path]) (used + path_cost path) paths). b = [] \<or> batch_fits b"
      using cost by (intro Cons.IH) simp_all
    then show ?thesis unfolding batches_from.simps if_not_P [OF False] .
  qed
qed simp

lemma batches_nonempty: "batch \<noteq> [] \<or> paths \<noteq> [] \<Longrightarrow> [] \<notin> set (batches_from batch used paths)"
  by (induction batch used paths rule: batches_from.induct) auto

lemma collect_batches:
  assumes "\<And>xs ys. f (xs @ ys) = res_bind (f xs) (\<lambda>p. res_bind (f ys) (\<lambda>q. Inr (p @ q)))" "f [] = Inr []"
    and "collect_patches (\<lambda>b. res_bind (f b) check) bs = Inr p" "\<And>s t. check s = Inr t \<Longrightarrow> t = s"
  shows "f (concat bs) = Inr p"
  using assms(3)
proof (induction bs arbitrary: p)
  case (Cons b bs)
  then obtain s q where "f b = Inr s" "collect_patches (\<lambda>b. res_bind (f b) check) bs = Inr q" "p = s @ q"
    by (auto simp: res_bind_Inr_iff dest: assms(4))
  then show ?case using Cons.IH assms(1) by simp
qed (simp add: assms(2))

lemma submitted_patch_same: "submitted_patch_from_utf8 s = Inr t \<Longrightarrow> t = s"
  by (simp add: submitted_patch_from_utf8_def split: if_splits)



definition sample_git :: git where
  "sample_git = \<lparr> g_baseline_env = None, g_baseline_file = (\<lambda>_. None), g_cwd = Inr ''/w'',
    g_inventory = (\<lambda>_ _. Inr ([], [], [])), g_diff = (\<lambda>_ paths. Inr (concat paths)), g_tree_diff = (\<lambda>_ _ _. Inr []),
    g_show = (\<lambda>_ _. Inr []), g_write_temporary = (\<lambda>_. Inr ()), g_exists = (\<lambda>_. Inr True), g_no_index = (\<lambda>_ _. Inr []) \<rparr>"



section \<open>The rewriting of paths\<close>

text \<open>A patch whose lines do not look like file headers is not changed; a line of the file itself may look like
  one, and is then lost.\<close>

definition header_line :: "string \<Rightarrow> bool" where
  "header_line line =
    (has_prefix ''diff --git '' (trim_end_newlines line) \<or> has_prefix ''--- '' (trim_end_newlines line) \<or>
     has_prefix ''+++ '' (trim_end_newlines line))"

lemma concat_split_inclusive: "concat (split_inclusive s) = s"
  by (induction s) (auto split: list.split)

lemma rewrite_keeps_other_lines:
  assumes "\<forall>line\<in>set (split_inclusive patch). \<not> header_line line"
  shows "rewrite_no_index_patch_paths patch path old_null new_null = patch"
proof -
  have "map (rewrite_patch_line path old_null new_null) (split_inclusive patch) = split_inclusive patch"
    using assms by (intro map_idI) (auto simp: rewrite_patch_line_def header_line_def Let_def)
  then show ?thesis by (simp add: rewrite_no_index_patch_paths_def concat_split_inclusive)
qed

lemma added_line_overwritten:
  assumes "newline \<notin> set content"
  shows "rewrite_no_index_patch_paths (''+++ '' @ content @ [newline]) path old_null False = ''+++ b/'' @ path @ [newline]"
proof -
  have split: "newline \<notin> set s \<Longrightarrow> split_inclusive (s @ [newline]) = [s @ [newline]]" for s
    by (induction s) auto
  have nl: "newline \<notin> set ''+++ ''" by code_simp
  have "split_inclusive ((''+++ '' @ content) @ [newline]) = [(''+++ '' @ content) @ [newline]]"
    by (rule split) (use assms nl in auto)
  moreover have "trim_end_newlines ((''+++ '' @ content) @ [newline]) = ''+++ '' @ content"
  proof -
    have "dropWhile (\<lambda>c. c = newline) (rev (''+++ '' @ content)) = rev (''+++ '' @ content)"
      using assms nl by (intro dropWhile_eq_self_iff [THEN iffD2])
        (metis append_is_Nil_conv hd_rev in_set_conv_nth last_in_set list.distinct(1) rev_is_Nil_conv set_append Un_iff)
    then show ?thesis by (simp add: trim_end_newlines_def)
  qed
  ultimately show ?thesis by (simp add: rewrite_no_index_patch_paths_def rewrite_patch_line_def Let_def)
qed

text \<open>Without a recorded baseline tree the patch is taken against \<open>HEAD\<close>, which is not a tree digest: it fails.\<close>

lemma no_baseline_no_patch:
  assumes "baseline_tree g context = None"
  shows "\<not> is_ok (frozen_tree_patch g context tree)" "\<not> is_ok (workspace_patch g context)"
proof -
  have head: "parse_git_tree_digest ''HEAD'' = Inl (Bail ''invalid Git tree'')" by code_simp
  show "\<not> is_ok (frozen_tree_patch g context tree)"
    using assms head by (simp add: frozen_tree_patch_def baseline_or_head_def)
  show "\<not> is_ok (workspace_patch g context)"
    using assms head by (cases "g_cwd g") (simp_all add: workspace_patch_def workspace_patch_against_baseline_def baseline_or_head_def)
qed

end
