(* ===== verification/Gate_Tools.thy ===== *)
theory Gate_Tools
  imports Pauses Patches
begin

text \<open>
  The tools around the review of a task: \<open>check.rs\<close>, \<open>submit.rs\<close>, \<open>review_pending.rs\<close>, \<open>reject.rs\<close> and
  \<open>status.rs\<close> of \<open>src/src/server/tools\<close>, with the refresh of a task's repository view they trigger
  (\<open>src/src/repository_graph_runtime.rs\<close>) and the freeze of the submitted view
  (\<open>src/src/repository_graph_runtime/task_view.rs\<close>).

  The indexer of the repository graph and Git stay outside: \<open>site\<close> collects what they answer. A refresh takes
  time, in which other processes may use the database; \<open>h_meanwhile\<close> is what they did. The reference that keeps
  a submitted tree alive is \<open>w_pins\<close> of the world, one per task.
\<close>

section \<open>The site\<close>

text \<open>The outcome of indexing a task's overlay: a new overlay revision and snapshot, nothing to index, a refresh of
  somebody else in progress, or an error of the indexer or its thread.\<close>

datatype indexing = Indexed string string | Unchanged | Busy | IndexFailed err

record site =
  h_git :: git
  h_exec :: exec
  h_commands_sha256 :: "string list \<Rightarrow> string res"
  h_log :: "64 word \<times> 32 word \<times> 64 word"
  h_graph_enabled :: "bool res"
  h_sidecar_path :: "unit res"
  h_query_sidecar_path :: "unit res"
  h_index :: "string \<Rightarrow> string \<Rightarrow> indexing"
  h_meanwhile :: "db \<Rightarrow> db"
  h_data_dir :: "unit res"
  h_capture :: "Digest res"
  h_pin :: bool
  h_release :: bool
  h_matches :: "Digest \<Rightarrow> string \<Rightarrow> bool res"
  h_project_root :: "unit res"
  h_canonicalize :: "string \<Rightarrow> string"


section \<open>Refreshing the view of a task\<close>

definition current_view :: "string \<Rightarrow> RepositoryViewReference tool" where
  "current_view tid = read_db (\<lambda>d. res_bind (owner_repository_view_at Tasks tid d) (\<lambda>view.
     case view of None \<Rightarrow> Inl (Bail ''task repository view disappeared during refresh'') | Some v \<Rightarrow> Inr v))"

definition mark_stale :: "string \<Rightarrow> RepositoryViewReference \<Rightarrow> err \<Rightarrow> RepositoryViewReference tool" where
  "mark_stale tid existing error =
    tbind (on_db (compare_and_record_task_repository_view_at tid existing
             ((mutable_successor existing) \<lparr> view_status := Stale \<rparr>))) (\<lambda>recorded.
      if recorded then tool_res (Inl error) else current_view tid)"

definition record_refreshed :: "string \<Rightarrow> RepositoryViewReference \<Rightarrow> RepositoryViewReference res \<Rightarrow> RepositoryViewReference tool" where
  "record_refreshed tid existing refreshed =
    tbind (tool_res refreshed) (\<lambda>view.
    tbind (on_db (compare_and_record_task_repository_view_at tid existing view)) (\<lambda>recorded.
      if recorded then tool_ret view else current_view tid))"

definition refresh_task_overlay_with_context ::
  "site \<Rightarrow> string \<Rightarrow> string \<Rightarrow> RepositoryViewReference \<Rightarrow> bool \<Rightarrow> RepositoryViewReference tool" where
  "refresh_task_overlay_with_context H tid tree existing enabled =
    (if \<not> enabled then tool_ret existing
     else case view_baseline_snapshot_id existing of
       None \<Rightarrow> tool_res (Inl (Bail ''task repository graph baseline is unavailable''))
     | Some baseline \<Rightarrow>
         tbind (tool_res (h_query_sidecar_path H)) (\<lambda>_.
         tbind (tool_res (parse_git_tree_digest tree)) (\<lambda>_.
         tbind (tool_res (opaque_id_new ''task view id'' tid)) (\<lambda>_.
         tbind (on_db (\<lambda>d. (Inr (), h_meanwhile H d))) (\<lambda>_.
           case h_index H tid baseline of
             Indexed overlay snapshot \<Rightarrow>
               record_refreshed tid existing (materialized baseline (Some overlay) snapshot Available)
           | Unchanged \<Rightarrow>
               record_refreshed tid existing (materialized baseline None baseline Available)
           | Busy \<Rightarrow> tool_res (Inl (Bail ''refresh already in progress''))
           | IndexFailed e \<Rightarrow> mark_stale tid existing e)))))"

text \<open>The maintenance of the graph after a refresh works on the graph's own database only.\<close>

definition refresh_task_overlay :: "site \<Rightarrow> string \<Rightarrow> string \<Rightarrow> RepositoryViewReference tool" where
  "refresh_task_overlay H tid tree =
    tbind (read_db (owner_repository_view_at Tasks tid)) (\<lambda>view.
      case view of
        None \<Rightarrow> tool_res (Inl (Bail ''task repository view has not been initialized''))
      | Some existing \<Rightarrow>
          tbind (tool_res (h_graph_enabled H)) (\<lambda>enabled.
          tbind (tool_res (h_data_dir H)) (\<lambda>_.
            refresh_task_overlay_with_context H tid tree existing enabled)))"

definition refresh_task_overlay_best_effort_for_context :: "site \<Rightarrow> RuntimeTaskContext \<Rightarrow> unit tool" where
  "refresh_task_overlay_best_effort_for_context H context =
    (case (x_workspace_path context, baseline_tree_from_env (h_git H)) of
       (Some _, Some baseline) \<Rightarrow> best_effort (refresh_task_overlay H (x_task_id context) baseline)
     | _ \<Rightarrow> tool_ret ())"


section \<open>Freezing the submitted view\<close>

datatype RepositoryViewFreeze = NotAttempted | Frozen RepositoryViewReference | FreezeFailed

definition pin_submitted_tree :: "site \<Rightarrow> string \<Rightarrow> Digest \<Rightarrow> unit tool" where
  "pin_submitted_tree H tid tree w =
    (case validate_git_tree_digest tree of
       Inl e \<Rightarrow> (Inl e, w)
     | Inr _ \<Rightarrow> if h_pin H then (Inr (), w \<lparr> w_pins := (w_pins w)(tid \<mapsto> tree) \<rparr>)
               else (Inl (Bail ''pin submitted tree''), w))"

definition release_submitted_tree_pin :: "site \<Rightarrow> string \<Rightarrow> unit tool" where
  "release_submitted_tree_pin H tid w =
    (if h_release H then (Inr (), w \<lparr> w_pins := (w_pins w)(tid := None) \<rparr>)
     else (Inl (Bail ''release submitted tree pin''), w))"

definition release_submitted_tree_pin_for_task_best_effort :: "site \<Rightarrow> string \<Rightarrow> unit tool" where
  "release_submitted_tree_pin_for_task_best_effort H tid =
    best_effort (tbind (tool_res (h_project_root H)) (\<lambda>_. release_submitted_tree_pin H tid))"

definition capture_matching_submitted_tree :: "site \<Rightarrow> string \<Rightarrow> string \<Rightarrow> Digest tool" where
  "capture_matching_submitted_tree H tid snapshot_id =
    tbind (tool_res (h_capture H)) (\<lambda>source_tree.
    tbind (pin_submitted_tree H tid source_tree) (\<lambda>_.
      case h_matches H source_tree snapshot_id of
        Inr True \<Rightarrow> tool_ret source_tree
      | Inr False \<Rightarrow> tbind (release_submitted_tree_pin H tid) (\<lambda>_.
          tool_res (Inl (Bail ''submitted source tree does not match the indexed task view'')))
      | Inl e \<Rightarrow> tbind (release_submitted_tree_pin H tid) (\<lambda>_. tool_res (Inl e))))"

text \<open>Every failure on the way only means that the submission goes on without a frozen view.\<close>

definition or_failed :: "'a tool \<Rightarrow> ('a \<Rightarrow> RepositoryViewFreeze tool) \<Rightarrow> RepositoryViewFreeze tool" where
  "or_failed m f w = (case m w of (Inl _, w1) \<Rightarrow> (Inr FreezeFailed, w1) | (Inr a, w1) \<Rightarrow> f a w1)"

definition prepare_submitted_repository_view :: "site \<Rightarrow> RuntimeTaskContext \<Rightarrow> RepositoryViewFreeze tool" where
  "prepare_submitted_repository_view H context =
    (case (x_workspace_path context, baseline_tree_from_env (h_git H)) of
       (Some _, Some baseline) \<Rightarrow>
         or_failed (tool_res (h_graph_enabled H)) (\<lambda>enabled.
         if \<not> enabled then tool_ret NotAttempted
         else
           or_failed (tool_res (h_sidecar_path H)) (\<lambda>_.
           or_failed (refresh_task_overlay H (x_task_id context) baseline) (\<lambda>mutable_view.
             case view_view_snapshot_id mutable_view of
               None \<Rightarrow> tool_ret FreezeFailed
             | Some snapshot_id \<Rightarrow>
                 or_failed (capture_matching_submitted_tree H (x_task_id context) snapshot_id) (\<lambda>source_tree.
                   case frozen mutable_view source_tree of
                     Inr view \<Rightarrow> tool_ret (Frozen view)
                   | Inl _ \<Rightarrow> tbind (release_submitted_tree_pin_for_task_best_effort H (x_task_id context)) (\<lambda>_.
                       tool_ret FreezeFailed)))))
     | _ \<Rightarrow> tool_ret NotAttempted)"


section \<open>Submitting\<close>

definition write_submission :: "RuntimeTaskContext \<Rightarrow> string \<Rightarrow> unit tool" where
  "write_submission context content =
    tbind (on_files (clear_integration_error_for_run_dir (x_run_dir context))) (\<lambda>_.
      on_files (write_submission_for_run_dir (x_run_dir context) content))"

definition project_root_for_isolation :: "checkout \<Rightarrow> string option" where
  "project_root_for_isolation c =
    (case project_root_from_env c of Some root \<Rightarrow> Some root | None \<Rightarrow> local_root c)"

definition is_isolated_executor_workspace :: "site \<Rightarrow> RuntimeTaskContext \<Rightarrow> checkout \<Rightarrow> bool" where
  "is_isolated_executor_workspace H context c =
    (case project_root_for_isolation c of
       None \<Rightarrow> False
     | Some root \<Rightarrow>
         (case (x_workspace_path context, g_cwd (h_git H)) of
            (Some workspace, _) \<Rightarrow> h_canonicalize H workspace \<noteq> h_canonicalize H root
          | (None, Inr cwd) \<Rightarrow> h_canonicalize H cwd \<noteq> h_canonicalize H root
          | (None, Inl _) \<Rightarrow> False))"

definition submission_patch :: "site \<Rightarrow> RuntimeTaskContext \<Rightarrow> RepositoryViewFreeze \<Rightarrow> string res" where
  "submission_patch H context freeze =
    (case freeze of
       Frozen view \<Rightarrow>
         (case view_frozen_source_tree view of
            None \<Rightarrow> Inl (Bail ''frozen repository view is missing its source tree'')
          | Some tree \<Rightarrow> frozen_tree_patch (h_git H) context tree)
     | _ \<Rightarrow> workspace_patch (h_git H) context)"

definition write_submission_patch :: "site \<Rightarrow> RuntimeTaskContext \<Rightarrow> RepositoryViewFreeze \<Rightarrow> unit tool" where
  "write_submission_patch H context freeze w =
    (if \<not> is_isolated_executor_workspace H context (w_files w)
     then on_files (clear_patch_for_run_dir (x_run_dir context)) w
     else tbind (tool_res (submission_patch H context freeze)) (\<lambda>patch.
       on_files (write_patch_for_run_dir (x_run_dir context) patch)) w)"

definition record_submission :: "RuntimeTaskContext \<Rightarrow> RepositoryViewFreeze \<Rightarrow> bool \<Rightarrow> string \<Rightarrow> unit tool" where
  "record_submission context freeze passed check_digest =
    on_db (record_task_submitted (x_task_id context) (x_task_path context) (x_run_id context)
      (case freeze of Frozen view \<Rightarrow> Some view | _ \<Rightarrow> None) (freeze = FreezeFailed)
      \<lparr> checks_passed = passed, checks_commands_sha256 = Some check_digest \<rparr>)"

text \<open>The guard that releases the pinned tree when the submission does not go through.\<close>

definition drop_pin_cleanup :: "site \<Rightarrow> RuntimeTaskContext \<Rightarrow> RepositoryViewFreeze \<Rightarrow> unit tool" where
  "drop_pin_cleanup H context freeze =
    (case (freeze, x_workspace_path context) of
       (Frozen _, Some _) \<Rightarrow> best_effort (release_submitted_tree_pin H (x_task_id context))
     | _ \<Rightarrow> tool_ret ())"

definition persist_submission ::
  "site \<Rightarrow> RuntimeTaskContext \<Rightarrow> string \<Rightarrow> RepositoryViewFreeze \<Rightarrow> bool \<Rightarrow> string \<Rightarrow> unit tool" where
  "persist_submission H context content freeze passed check_digest w =
    (case tbind (db_step (task_check_passed_in_transaction (x_task_id context))) (\<lambda>_.
          tbind (write_submission context content) (\<lambda>_.
          tbind (write_submission_patch H context freeze) (\<lambda>_.
            record_submission context freeze passed check_digest))) w of
       (Inr _, w1) \<Rightarrow> (Inr (), w1)
     | (Inl e, w1) \<Rightarrow> (Inl e, snd (drop_pin_cleanup H context freeze w1)))"

definition log_scope :: "RuntimeTaskContext \<Rightarrow> string" where
  "log_scope context = (case x_run_id context of Some r \<Rightarrow> r | None \<Rightarrow> x_task_id context)"

definition run_gate :: "site \<Rightarrow> env \<Rightarrow> RuntimeTaskContext \<Rightarrow> CheckGateResult tool" where
  "run_gate H E context =
    (case h_log H of (ts, pid, sequence) \<Rightarrow>
       on_files (check_gate_run (h_exec H) (cfg_commands (e_config E)) (cfg_max_feedback_lines (e_config E))
         (x_check_retries context + 1) (log_scope context) ts pid sequence))"

definition failed_payload :: "RuntimeTaskContext \<Rightarrow> 32 word \<Rightarrow> 32 word \<Rightarrow> (string \<times> json) list \<Rightarrow> json" where
  "failed_payload context retries max_retries rest =
    JObj ([(''task_id'', JStr (x_task_id context)), (''retries'', JInt (uint retries)),
           (''max_retries'', JInt (uint max_retries))] @ rest)"

definition retry_text :: "32 word \<Rightarrow> 32 word \<Rightarrow> string" where
  "retry_text retries max_retries = show_u32 retries @ ''/'' @ show_u32 max_retries"

text \<open>The handling of a failed gate, shared by the two tools up to their texts.\<close>

definition gate_failed ::
  "env \<Rightarrow> RuntimeTaskContext \<Rightarrow> CheckFailure \<Rightarrow> string \<Rightarrow> string \<Rightarrow> (string \<Rightarrow> string) \<Rightarrow> (string \<Rightarrow> string) \<Rightarrow> string tool" where
  "gate_failed E context failure failed_event limit_event failed_text limit_text =
    (let max_retries = cfg_max_check_retries (e_config E) in
     tbind (on_db (record_task_check_failed (x_task_id context) (cf_failure_reason failure) max_retries)) (\<lambda>outcome.
       case outcome of
         CheckFailed retries \<Rightarrow>
           tbind (runtime_event (x_run_id context) failed_event
             (failed_payload context retries max_retries [(''state'', JStr (x_status context))])) (\<lambda>_.
             tool_ret (failed_text (retry_text retries max_retries)))
       | CheckLimitExceeded retries \<Rightarrow>
           tbind (runtime_event (x_run_id context) limit_event (failed_payload context retries max_retries [])) (\<lambda>_.
             tool_ret (limit_text (retry_text retries max_retries)))))"

definition blank :: string where
  "blank = [newline, newline]"

definition check_tool :: "site \<Rightarrow> env \<Rightarrow> string \<Rightarrow> string tool" where
  "check_tool H E agent =
    tbind (require_runtime_task_context agent) (\<lambda>context.
    tbind (tool_res (context_status context)) (\<lambda>status.
    if \<not> is_executor_working status
    then tool_res (wrong_state ''Cannot run checks from state '' context
      ''. Checks are only valid in Executing or Addressing state.'')
    else
      tbind (ensure_lease_owner_or_reclaim E agent) (\<lambda>_.
      if cfg_commands (e_config E) = []
      then
        tbind (refresh_task_overlay_best_effort_for_context H context) (\<lambda>_.
        tbind (db_step (task_check_passed_in_transaction (x_task_id context))) (\<lambda>_.
        tbind (runtime_event (x_run_id context) ''check_passed'' (JObj [(''commands'', JInt 0)])) (\<lambda>_.
          tool_ret ''All checks passed. Warning: no check commands are configured in ferrus.toml. State remains unchanged.'')))
      else
        tbind (run_gate H E context) (\<lambda>gate.
        tbind (refresh_task_overlay_best_effort_for_context H context) (\<lambda>_.
          case gate of
            GatePassed \<Rightarrow>
              tbind (db_step (task_check_passed_in_transaction (x_task_id context))) (\<lambda>_.
              tbind (runtime_event (x_run_id context) ''check_passed''
                (JObj [(''commands'', JInt (int (length (cfg_commands (e_config E)))))])) (\<lambda>_.
                tool_ret (''All checks passed. State remains '' @ x_status context @
                  ''. Continue working or call /submit when the task is ready for review.'')))
          | GateFailed failure \<Rightarrow>
              gate_failed E context failure ''check_failed'' ''check_limit_exceeded''
                (\<lambda>n. ''Checks failed (retry '' @ n @ '').'' @ blank @ cf_report failure @ blank @ ''State remains '' @
                  x_status context @ ''. Fix the issues and call /check again.'')
                (\<lambda>n. ''Check retry limit reached ('' @ n @ '').'' @ blank @ cf_report failure @ blank @
                  ''State is now Failed. A human must call /reset to recover.''))))))"

definition submit_passed ::
  "site \<Rightarrow> RuntimeTaskContext \<Rightarrow> string \<Rightarrow> bool \<Rightarrow> string \<Rightarrow> string \<Rightarrow> string tool" where
  "submit_passed H context content passed check_digest reply =
    tbind (prepare_submitted_repository_view H context) (\<lambda>frozen_view.
    tbind (persist_submission H context content frozen_view passed check_digest) (\<lambda>_.
    tbind (runtime_event (x_run_id context) ''submitted''
      (JObj [(''content_bytes'', JInt (int (length content))),
             (''check_gate'', JStr (if passed then ''passed'' else ''skipped''))])) (\<lambda>_.
      tool_ret reply)))"

definition submit :: "site \<Rightarrow> env \<Rightarrow> string \<Rightarrow> string \<Rightarrow> string tool" where
  "submit H E agent content =
    tbind (tool_res (h_commands_sha256 H (cfg_commands (e_config E)))) (\<lambda>check_digest.
    tbind (require_runtime_task_context agent) (\<lambda>context.
    tbind (tool_res (context_status context)) (\<lambda>status.
    if \<not> is_executor_working status
    then tool_res (wrong_state ''Cannot submit from state '' context
      ''. Submit is only valid from Executing or Addressing after the implementation is ready.'')
    else
      tbind (ensure_lease_owner_or_reclaim E agent) (\<lambda>_.
      if cfg_commands (e_config E) = []
      then submit_passed H context content False check_digest
        ''Submitted for review. Warning: no check commands are configured in ferrus.toml, so the final check gate was treated as a pass. State: Reviewing.''
      else
        tbind (run_gate H E context) (\<lambda>gate.
          case gate of
            GatePassed \<Rightarrow> submit_passed H context content True check_digest
              ''Submitted for review. State: Reviewing. The Supervisor can now call /review_pending.''
          | GateFailed failure \<Rightarrow>
              gate_failed E context failure ''submit_check_failed'' ''submit_check_limit_exceeded''
                (\<lambda>n. ''Final review gate failed during /submit (retry '' @ n @ '').'' @ blank @ cf_report failure @ blank @
                  ''State remains '' @ x_status context @ ''. Fix the issues and run /check or /submit again.'')
                (\<lambda>n. ''Final review gate failed during /submit and hit the retry limit ('' @ n @ '').'' @ blank @
                  cf_report failure @ blank @ ''State is now Failed. A human must call /reset to recover.''))))))"



section \<open>Reviewing\<close>

definition section_unless_blank :: "string \<Rightarrow> string \<Rightarrow> string \<Rightarrow> string" where
  "section_unless_blank title body text = (if trim body = [] then [] else [newline] @ title @ blank @ text)"

definition end_line :: "string \<Rightarrow> string" where
  "end_line s = (if s \<noteq> [] \<and> last s = newline then [] else [newline])"

definition review_text :: "env \<Rightarrow> RuntimeTaskContext \<Rightarrow> string \<Rightarrow> string \<Rightarrow> string \<Rightarrow> string \<Rightarrow> string \<Rightarrow> string" where
  "review_text E context task submission review patch integration_error =
    ''## Task'' @ blank @ task @ [newline] @
    section_unless_blank ''## Submission Notes'' submission submission @
    section_unless_blank ''## Previous Review Notes'' review review @
    section_unless_blank ''## Implementation Patch'' patch
      (''```diff'' @ [newline] @ patch @ end_line patch @ ''```'' @ [newline]) @
    section_unless_blank ''## Integration Error'' integration_error (integration_error @ end_line integration_error) @
    [newline] @ ''---'' @ [newline] @ ''Review cycles used: '' @
    retry_text (x_review_cycles context) (cfg_max_review_cycles (e_config E)) @ ''  '' @ [newline] @
    ''Check retries used: '' @ retry_text (x_check_retries context) (cfg_max_check_retries (e_config E))"

definition review_pending :: "env \<Rightarrow> string \<Rightarrow> string tool" where
  "review_pending E agent =
    tbind (require_runtime_task_context agent) (\<lambda>context.
    tbind (tool_res (context_status context)) (\<lambda>status.
    if status \<noteq> Reviewing
    then tool_res (wrong_state ''No submission pending review. Current state: '' context
      ''. Wait for the Executor to call /submit.'')
    else
      tbind (ensure_lease_owner_or_reclaim E agent) (\<lambda>_.
      tbind (read_files (read_task_at (x_task_path context))) (\<lambda>task.
      tbind (read_files (read_submission_for_run_dir (x_run_dir context))) (\<lambda>submission.
      tbind (read_files (read_review_for_run_dir (x_run_dir context))) (\<lambda>review.
      tbind (read_files (read_patch_for_run_dir (x_run_dir context))) (\<lambda>patch.
      tbind (read_files (read_integration_error_for_run_dir (x_run_dir context))) (\<lambda>integration_error.
        tool_ret (review_text E context task submission review patch integration_error)))))))))"

definition rejected_payload :: "env \<Rightarrow> RuntimeTaskContext \<Rightarrow> 32 word \<Rightarrow> string \<Rightarrow> json" where
  "rejected_payload E context cycles notes =
    JObj [(''task_id'', JStr (x_task_id context)), (''review_cycles'', JInt (uint cycles)),
      (''max_review_cycles'', JInt (uint (cfg_max_review_cycles (e_config E)))),
      (''notes_bytes'', JInt (int (length notes)))]"

text \<open>The rejection of an unmanaged session; a managed one rejects through \<open>reject_supervisor_session\<close>.\<close>

definition reject_run_for_context :: "site \<Rightarrow> env \<Rightarrow> RuntimeTaskContext \<Rightarrow> string \<Rightarrow> string tool" where
  "reject_run_for_context H E context notes =
    (let max_cycles = cfg_max_review_cycles (e_config E) in
     tbind (on_files (write_review_for_run_dir (x_run_dir context) notes)) (\<lambda>_.
     tbind (on_db (record_task_review_rejected (x_task_id context) max_cycles)) (\<lambda>rejection.
     tbind (release_submitted_tree_pin_for_task_best_effort H (x_task_id context)) (\<lambda>_.
       case rejection of
         RejectedAddressing cycles \<Rightarrow>
           tbind (runtime_event (x_run_id context) ''rejected'' (rejected_payload E context cycles notes)) (\<lambda>_.
             tool_ret (''Submission rejected (cycle '' @ retry_text cycles max_cycles @ '').'' @ blank @
               ''**Review notes written.** State: Addressing. The Executor should call /wait_for_task to see the notes and /check after addressing them.''))
       | RejectionLimitExceeded cycles \<Rightarrow>
           tbind (runtime_event (x_run_id context) ''review_limit_exceeded'' (rejected_payload E context cycles notes)) (\<lambda>_.
             tool_ret (''Review cycle limit reached ('' @ retry_text cycles max_cycles @ '').'' @ blank @
               ''State is now Failed. A human must call /reset to recover.''))))))"

definition reject :: "site \<Rightarrow> env \<Rightarrow> string \<Rightarrow> string \<Rightarrow> string tool" where
  "reject H E agent notes =
    tbind (require_runtime_task_context agent) (\<lambda>context.
    tbind (tool_res (context_status context)) (\<lambda>status.
    if status \<noteq> Reviewing
    then tool_res (wrong_state ''Cannot reject from state '' context ''. Call /review_pending first.'')
    else
      tbind (ensure_lease_owner_or_reclaim E agent) (\<lambda>_. reject_run_for_context H E context notes)))"


section \<open>Status\<close>

definition status_of :: "TaskRecord \<Rightarrow> TaskStatus option" where
  "status_of task = (case from_str (tr_status task) of Inl _ \<Rightarrow> None | Inr s \<Rightarrow> Some s)"

definition count_status :: "TaskStatus set \<Rightarrow> TaskRecord list \<Rightarrow> nat" where
  "count_status S ts = length (filter (\<lambda>task. status_of task \<in> Some ` S) ts)"

definition task_line :: "TaskRecord \<Rightarrow> string" where
  "task_line task =
    ''- '' @ tr_id task @ '' '' @ tr_status task @ '' ('' @ tr_path task @ '')'' @
    (case tr_claimed_by task of None \<Rightarrow> [] | Some agent \<Rightarrow> '' claimed_by='' @ agent)"

definition sqlite_status_lines :: "db \<Rightarrow> string list" where
  "sqlite_status_lines d =
    (let ts = list_tasks d in
     [''**State:** sqlite-runtime'',
      ''**Tasks:** '' @ show_nat (count_status {Executing, Addressing, Consultation, Reviewing} ts) @ '' running, '' @
      show_nat (count_status {AwaitingHuman} ts) @ '' awaiting human, '' @ show_nat (count_status {Pending} ts) @
      '' pending, '' @ show_nat (count_status {Complete} ts) @ '' complete''] @
     map task_line (filter (\<lambda>task. case status_of task of None \<Rightarrow> False | Some s \<Rightarrow> \<not> is_terminal s) ts))"

definition opt_line :: "string \<Rightarrow> string option \<Rightarrow> string list" where
  "opt_line label v = (case v of None \<Rightarrow> [] | Some s \<Rightarrow> [''**'' @ label @ '':** '' @ s])"

definition status_tool :: "string \<Rightarrow> db \<Rightarrow> string res" where
  "status_tool agent d =
    res_bind (runtime_task_context_for_agent agent d) (\<lambda>context.
      let lines = (case context of
          None \<Rightarrow> sqlite_status_lines d
        | Some c \<Rightarrow>
            [''**State:** '' @ x_status c, ''**Check retries:** '' @ show_u32 (x_check_retries c),
             ''**Review cycles:** '' @ show_u32 (x_review_cycles c)] @
            opt_line ''Failure reason'' (x_failure_reason c) @
            [[], ''**Agent:** '' @ agent, ''**Task:** '' @ x_task_id c, ''**Task status:** '' @ x_status c,
             ''**Task path:** '' @ x_task_path c, ''**Run dir:** '' @ x_run_dir c,
             ''**Task check retries:** '' @ show_u32 (x_check_retries c),
             ''**Task review cycles:** '' @ show_u32 (x_review_cycles c)] @
            opt_line ''Run'' (x_run_id c) @ opt_line ''Workspace'' (x_workspace_path c) @
            opt_line ''Task failure reason'' (x_failure_reason c))
      in Inr (join_with [newline] lines))"

end
