(* ===== verification/Lifecycle.thy ===== *)
theory Lifecycle
  imports Gate_Tools
begin

text \<open>
  The life of a task, as the tools promise it. An abstract task is in one phase and moves along a small graph; a
  pause remembers the phase it interrupts. The database keeps the same information in the status, the paused status
  and the status a human question interrupts, and \<open>phase_of_row\<close> reads it back. The lemmas show for every
  database operation which moves it makes, and for every tool that it only makes moves of the graph.
\<close>

section \<open>Phases and moves\<close>

datatype work = Fresh | Rework

datatype phase =
    Absent
  | Reserved
  | Queued
  | Working work
  | Consulting work
  | UnderReview
  | Asking phase
  | Finished
  | Broken
  | Discarded

inductive moves :: "phase \<Rightarrow> phase \<Rightarrow> bool" where
  reserve: "moves Absent Reserved"
| withdraw: "moves Reserved Absent"
| enqueue: "moves Reserved Queued"
| start: "moves Queued (Working Fresh)"
| consult: "moves (Working w) (Consulting w)"
| advise: "moves (Consulting w) (Working w)"
| ask: "p \<in> {Working w, Consulting w, UnderReview} \<Longrightarrow> moves p (Asking p)"
| answer: "moves (Asking p) p"
| hand_in: "moves (Working w) UnderReview"
| give_up: "moves (Working w) Broken"
| send_back: "moves UnderReview (Working Rework)"
| turn_down: "moves UnderReview Broken"
| accept: "moves UnderReview Finished"
| discard: "moves Broken Discarded"

inductive_simps moves_from_simps:
  "moves Absent q" "moves Reserved q" "moves Queued q" "moves (Working w) q" "moves (Consulting w) q"
  "moves UnderReview q" "moves (Asking p) q" "moves Finished q" "moves Broken q" "moves Discarded q"


section \<open>Reading the phase of a row\<close>

definition work_status :: "work \<Rightarrow> TaskStatus" where
  "work_status w = (case w of Fresh \<Rightarrow> Executing | Rework \<Rightarrow> Addressing)"

definition work_of :: "string option \<Rightarrow> work option" where
  "work_of s =
    (if s = Some (as_str Executing) then Some Fresh
     else if s = Some (as_str Addressing) then Some Rework else None)"

text \<open>The phase of a task that is neither waiting for a human nor outside the work.\<close>

definition base_phase :: "TaskStatus \<Rightarrow> string option \<Rightarrow> phase option" where
  "base_phase s paused =
    (case s of
       Executing \<Rightarrow> Some (Working Fresh)
     | Addressing \<Rightarrow> Some (Working Rework)
     | Reviewing \<Rightarrow> Some UnderReview
     | Consultation \<Rightarrow> map_option Consulting (work_of paused)
     | _ \<Rightarrow> None)"

definition phase_of_columns :: "string \<Rightarrow> string option \<Rightarrow> string option \<Rightarrow> phase option" where
  "phase_of_columns status paused awaiting =
    (case from_str status of
       Inl _ \<Rightarrow> None
     | Inr s \<Rightarrow>
         (case s of
            Unknown \<Rightarrow> Some Reserved
          | Pending \<Rightarrow> Some Queued
          | Complete \<Rightarrow> Some Finished
          | Failed \<Rightarrow> Some Broken
          | Reset \<Rightarrow> Some Discarded
          | AwaitingHuman \<Rightarrow>
              (case awaiting of
                 None \<Rightarrow> None
               | Some a \<Rightarrow> (case from_str a of Inl _ \<Rightarrow> None | Inr r \<Rightarrow> map_option Asking (base_phase r paused)))
          | _ \<Rightarrow> base_phase s paused))"

definition phase_of_row :: "task_row \<Rightarrow> phase option" where
  "phase_of_row t = phase_of_columns (t_status t) (t_paused_status t) (t_awaiting_human_status t)"

definition phase_of :: "string \<Rightarrow> db \<Rightarrow> phase option" where
  "phase_of tid d = (case find_task tid d of None \<Rightarrow> Some Absent | Some t \<Rightarrow> phase_of_row t)"

text \<open>A database is well formed when its rows are and every task has a phase.\<close>

definition well :: "db \<Rightarrow> bool" where
  "well d = (db_inv d \<and> (\<forall>k. phase_of k d \<noteq> None))"

definition follows :: "db \<Rightarrow> db \<Rightarrow> bool" where
  "follows d d' = (\<forall>k. moves\<^sup>*\<^sup>* (the (phase_of k d)) (the (phase_of k d')))"

text \<open>A change that moves no task, except that a missing one may be reserved.\<close>

definition quiet :: "db \<Rightarrow> db \<Rightarrow> bool" where
  "quiet d d' = (\<forall>k. phase_of k d' = phase_of k d \<or> (phase_of k d = Some Absent \<and> phase_of k d' = Some Reserved))"

named_theorems phase_simps

lemma phase_of_columns_as_str [phase_simps]:
  "phase_of_columns (as_str Unknown) p a = Some Reserved"
  "phase_of_columns (as_str Pending) p a = Some Queued"
  "phase_of_columns (as_str Executing) p a = Some (Working Fresh)"
  "phase_of_columns (as_str Addressing) p a = Some (Working Rework)"
  "phase_of_columns (as_str Reviewing) p a = Some UnderReview"
  "phase_of_columns (as_str Complete) p a = Some Finished"
  "phase_of_columns (as_str Failed) p a = Some Broken"
  "phase_of_columns (as_str Reset) p a = Some Discarded"
  "phase_of_columns (as_str Consultation) p a = map_option Consulting (work_of p)"
  "phase_of_columns (as_str AwaitingHuman) p (Some (as_str s)) = map_option Asking (base_phase s p)"
  "phase_of_columns (as_str AwaitingHuman) p None = None"
  by (simp_all add: phase_of_columns_def base_phase_def)

lemma work_of_work_status [simp]: "work_of (Some (as_str (work_status w))) = Some w"
  by (cases w) (simp_all add: work_of_def work_status_def)

lemma work_of_Some: "work_of p = Some w \<longleftrightarrow> p = Some (as_str (work_status w))"
  by (cases w) (auto simp: work_of_def work_status_def)

lemma quiet_refl [simp]: "quiet d d"
  by (simp add: quiet_def)

lemma quiet_trans: "quiet d d' \<Longrightarrow> quiet d' d'' \<Longrightarrow> quiet d d''"
  unfolding quiet_def by (metis phase.distinct(1) option.inject)

lemma follows_refl [simp]: "follows d d"
  by (simp add: follows_def)

lemma follows_trans: "follows d d' \<Longrightarrow> follows d' d'' \<Longrightarrow> follows d d''"
  unfolding follows_def by (meson rtranclp_trans)

lemma quiet_follows: "quiet d d' \<Longrightarrow> follows d d'"
  unfolding follows_def quiet_def
proof (rule allI)
  fix k assume q: "\<forall>k. phase_of k d' = phase_of k d \<or> (phase_of k d = Some Absent \<and> phase_of k d' = Some Reserved)"
  then consider "phase_of k d' = phase_of k d" | "phase_of k d = Some Absent" "phase_of k d' = Some Reserved" by blast
  then show "moves\<^sup>*\<^sup>* (the (phase_of k d)) (the (phase_of k d'))"
    by cases (simp, simp add: moves.reserve r_into_rtranclp)
qed

text \<open>One row changes.\<close>

lemma row_change:
  assumes "well d" "db_inv d'" and rows: "\<And>k. find_task k d' = (if k = tid then Some u else find_task k d)"
    and "phase_of tid d = Some p" "phase_of_row u = Some q" "moves\<^sup>*\<^sup>* p q"
  shows "well d'" "follows d d'" "phase_of tid d' = Some q"
proof -
  have phases: "phase_of k d' = (if k = tid then Some q else phase_of k d)" for k
    using rows assms(5) by (simp add: phase_of_def)
  show "well d'" using assms(1,2) phases by (simp add: well_def)
  show "follows d d'" using assms(4,6) phases by (simp add: follows_def)
  show "phase_of tid d' = Some q" by (simp add: phases)
qed

lemma same_columns:
  assumes "t_status u = t_status t" "t_paused_status u = t_paused_status t"
    "t_awaiting_human_status u = t_awaiting_human_status t"
  shows "phase_of_row u = phase_of_row t"
  using assms by (simp add: phase_of_row_def)

lemma quiet_rows:
  assumes "\<And>k. map_option phase_of_row (find_task k d') = map_option phase_of_row (find_task k d)"
  shows "quiet d d'"
proof -
  have "phase_of k d' = phase_of k d" for k
    using assms [of k] by (cases "find_task k d"; cases "find_task k d'") (simp_all add: phase_of_def)
  then show ?thesis by (simp add: quiet_def)
qed

lemma well_quiet: "well d \<Longrightarrow> db_inv d' \<Longrightarrow> quiet d d' \<Longrightarrow> well d'"
  unfolding well_def quiet_def by (metis option.distinct(1))



section \<open>Operations that move no task\<close>

text \<open>Rows whose three columns stay.\<close>

definition same_phase :: "task_row \<Rightarrow> task_row \<Rightarrow> bool" where
  "same_phase t u =
    (t_status u = t_status t \<and> t_paused_status u = t_paused_status t \<and>
     t_awaiting_human_status u = t_awaiting_human_status t)"

lemma same_phase_row: "same_phase t u \<Longrightarrow> phase_of_row u = phase_of_row t"
  by (simp add: same_phase_def phase_of_row_def)

lemma same_phase_updates [simp]:
  "same_phase t t" "same_phase t (claim_row a l n t)" "same_phase t (renew_row l n t)" "same_phase t (clear_lease_row t)"
  "same_phase t (t \<lparr> t_human_answer_recorded := b \<rparr>)" "same_phase t (t \<lparr> t_view := v \<rparr>)"
  "same_phase t (t \<lparr> t_check_retries := i, t_failure_reason := r \<rparr>)"
  by (simp_all add: same_phase_def claim_row_def renew_row_def)

lemma quiet_one_row:
  assumes "find_task tid d = Some t" "same_phase t u" "\<And>k. find_task k d' = (if k = tid then Some u else find_task k d)"
  shows "quiet d d'"
  using assms same_phase_row [OF assms(2)] by (intro quiet_rows) simp

lemma quiet_update_tasks:
  assumes "\<And>t. t_id (f t) = t_id t" "\<And>t. P t \<Longrightarrow> same_phase t (f t)"
  shows "quiet d (update_tasks P f d)"
proof (rule quiet_rows)
  fix k
  show "map_option phase_of_row (find_task k (update_tasks P f d)) = map_option phase_of_row (find_task k d)"
    using assms(2) [THEN same_phase_row] by (cases "find_task k d") (simp_all add: find_task_update_tasks [OF assms(1)])
qed

lemma quiet_update_task:
  "(\<And>t. t_id (f t) = t_id t) \<Longrightarrow> (\<And>t. same_phase t (f t)) \<Longrightarrow> quiet d (update_task tid f d)"
  unfolding update_task_def by (rule quiet_update_tasks)

lemma quiet_same_tasks: "(\<And>k. find_task k d' = find_task k d) \<Longrightarrow> quiet d d'"
  by (intro quiet_rows) simp

lemma quiet_frame:
  "quiet d d' \<Longrightarrow> quiet d (append_event r ty p d')" "quiet d d' \<Longrightarrow> quiet d (update_runs P g d')"
  by (simp_all add: quiet_def phase_of_def)

lemma quiet_ensure_task: "quiet d (ensure_task_exists tid path d)"
  unfolding quiet_def phase_of_def ensure_task_find
  by (simp add: phase_of_row_def new_task_row_def phase_simps)

lemma quiet_run_tx:
  assumes "\<And>a d'. tx d = Inr (a, d') \<Longrightarrow> quiet d d'"
  shows "quiet d (snd (run_tx tx d))"
  using assms by (auto simp: run_tx_snd split: sum.split)

lemma db_inv_run_tx:
  assumes "\<And>a d'. tx d = Inr (a, d') \<Longrightarrow> db_inv d'" "db_inv d"
  shows "db_inv (snd (run_tx tx d))"
  using assms by (auto simp: run_tx_snd split: sum.split)

text \<open>The contract of an operation that moves no task, and what the tools get from it.\<close>

locale phase_keeping =
  fixes f :: "db \<Rightarrow> 'a \<times> db"
  assumes keeps_inv: "db_inv d \<Longrightarrow> db_inv (snd (f d))"
    and keeps_phases: "db_inv d \<Longrightarrow> quiet d (snd (f d))"
begin

lemma keeps_well: "well d \<Longrightarrow> well (snd (f d))"
  using keeps_inv keeps_phases well_quiet by (simp add: well_def)

lemma keeps: "well d \<Longrightarrow> f d = (r, d') \<Longrightarrow> well d' \<and> quiet d d'"
  using keeps_well [of d] keeps_phases [of d] by (simp add: well_def)

end

interpretation claim_task: phase_keeping "claim_task_in_database C now now' tid path agent ttl" for C now now' tid path agent ttl
proof (unfold_locales; unfold claim_task_in_database_def)
  fix d assume inv: "db_inv d"
  let ?d0 = "ensure_task_exists tid path d"
  show "db_inv (snd (run_tx (claim_task_tx C now now' tid path agent ttl) d))"
    using inv db_inv_claim_task by (intro db_inv_run_tx) blast
  show "quiet d (snd (run_tx (claim_task_tx C now now' tid path agent ttl) d))"
  proof (rule quiet_run_tx)
    fix a d' assume res: "claim_task_tx C now now' tid path agent ttl d = Inr (a, d')"
    obtain t where t: "find_task tid ?d0 = Some t" using ensure_task_present by blast
    have claimed: "quiet ?d0 d1" if "claim_task_in_transaction C tid agent until now ?d0 = Inr d1" for until d1
    proof (rule quiet_one_row [OF t])
      show "find_task k d1 = (if k = tid then Some (claim_row agent (to_rfc3339_secs C until) (to_rfc3339_secs C now) t)
          else find_task k ?d0)" for k
        using claim_task_row(1) [OF that] t by simp
    qed simp
    have renewed: "quiet ?d0 d1" if "renew_task_lease_in_transaction C now' tid agent ttl lease ?d0 = Inr (r, d1)" for lease r d1
      using renew_lease_cases [OF that]
    proof (elim disjE exE conjE)
      fix until assume "\<forall>k. find_task k d1 = (if k = tid
         then map_option (renew_row (to_rfc3339_secs C until) (to_rfc3339_secs C now')) (find_task k ?d0) else find_task k ?d0)"
      then show ?thesis using t by (intro quiet_one_row [OF t]) auto
    qed simp
    have "d' = ?d0 \<or> (\<exists>until d1. claim_task_in_transaction C tid agent until now ?d0 = Inr d1 \<and> d' = d1) \<or>
        (\<exists>lease r. renew_task_lease_in_transaction C now' tid agent ttl lease ?d0 = Inr (r, d'))"
      using res by (auto simp: claim_task_tx_def Let_def res_bind_Inr_iff t split: if_splits)
    then have "quiet ?d0 d'" using claimed renewed by auto
    then show "quiet d d'" by (rule quiet_trans [OF quiet_ensure_task])
  qed
qed

interpretation renew_claimed: phase_keeping "renew_claimed_task_lease C now agent ttl" for C now agent ttl
proof (unfold_locales; unfold renew_claimed_task_lease_def)
  fix d assume inv: "db_inv d"
  show "db_inv (snd (run_tx (renew_claimed_task_lease_tx C now agent ttl) d))"
    using inv db_inv_renew_claimed by (intro db_inv_run_tx) blast
  show "quiet d (snd (run_tx (renew_claimed_task_lease_tx C now agent ttl) d))"
  proof (rule quiet_run_tx)
    fix a d' assume res: "renew_claimed_task_lease_tx C now agent ttl d = Inr (a, d')"
    show "quiet d d'"
    proof (cases "latest_claimed_task agent d")
      case None
      then show ?thesis using res by (simp add: renew_claimed_task_lease_tx_def)
    next
      case (Some t)
      have t: "find_task (t_id t) d = Some t" by (rule latest_claimed_task_in [OF db_inv_keys [OF inv] Some])
      obtain r where "renew_task_lease_in_transaction C now (t_id t) agent ttl (t_lease_until t) d = Inr (r, d')"
        using res Some by (auto simp: renew_claimed_task_lease_tx_def res_bind_Inr_iff split: option.splits)
      from renew_lease_cases [OF this] show ?thesis
      proof (elim disjE exE conjE)
        fix until assume "\<forall>k. find_task k d' = (if k = t_id t
          then map_option (renew_row (to_rfc3339_secs C until) (to_rfc3339_secs C now)) (find_task k d) else find_task k d)"
        then show ?thesis using t by (intro quiet_one_row [OF t]) auto
      qed simp
    qed
  qed
qed


interpretation attach_task: phase_keeping "attach_running_run_to_task ts agent tid path" for ts agent tid path
proof (unfold_locales; rule db_inv_attach_task quiet_trans [OF quiet_ensure_task [of _ tid path] quiet_same_tasks])
  fix d k
  show "find_task k (snd (attach_running_run_to_task ts agent tid path d)) = find_task k (ensure_task_exists tid path d)"
    by (auto simp: attach_running_run_to_task_def Let_def insert_event_def insert_event_in_transaction_def split: option.split)
qed

lemma attach_consultation_tasks:
  "attach_consultation ts agent rid t d = Inr (c, d') \<Longrightarrow> find_task k d' = find_task k d"
  by (auto simp: attach_consultation_def res_bind_Inr_iff Let_def insert_event_in_transaction_def split: if_splits option.splits)

interpretation attach_next: phase_keeping "run_tx (attach_running_run_to_next_consultation ts agent)" for ts agent
proof unfold_locales
  fix d assume inv: "db_inv d"
  show "db_inv (snd (run_tx (attach_running_run_to_next_consultation ts agent) d))"
    using inv db_inv_attach_next by (intro db_inv_run_tx) blast
  show "quiet d (snd (run_tx (attach_running_run_to_next_consultation ts agent) d))"
    by (intro quiet_run_tx, elim attach_next_cases) (auto intro: quiet_same_tasks dest: attach_consultation_tasks)
qed

interpretation attach_by_id: phase_keeping "run_tx (attach_running_run_to_consultation ts tid agent)" for ts tid agent
proof unfold_locales
  fix d assume inv: "db_inv d"
  show "db_inv (snd (run_tx (attach_running_run_to_consultation ts tid agent) d))"
    using inv db_inv_attach_by_id by (intro db_inv_run_tx) blast
  show "quiet d (snd (run_tx (attach_running_run_to_consultation ts tid agent) d))"
    by (intro quiet_run_tx, elim attach_by_id_cases) (auto intro: quiet_same_tasks dest: attach_consultation_tasks)
qed

interpretation check_passed: phase_keeping
  "run_tx (\<lambda>d. res_bind (task_check_passed_in_transaction tid d) (\<lambda>d'. Inr ((), d')))" for tid
proof unfold_locales
  fix d assume inv: "db_inv d"
  show "db_inv (snd (run_tx (\<lambda>d. res_bind (task_check_passed_in_transaction tid d) (\<lambda>d'. Inr ((), d'))) d))"
    using inv db_inv_check_passed by (intro db_inv_run_tx) (auto simp: res_bind_Inr_iff)
  show "quiet d (snd (run_tx (\<lambda>d. res_bind (task_check_passed_in_transaction tid d) (\<lambda>d'. Inr ((), d'))) d))"
    by (intro quiet_run_tx)
       (auto simp: task_check_passed_in_transaction_def intro!: quiet_frame quiet_update_task)
qed

interpretation event: phase_keeping
  "\<lambda>d. case record_runtime_event run_id kind payload d of Inl e \<Rightarrow> (Inl e, d) | Inr d' \<Rightarrow> (Inr (), d')" for run_id kind payload
proof unfold_locales
  fix d assume inv: "db_inv d"
  show "db_inv (snd (case record_runtime_event run_id kind payload d of Inl e \<Rightarrow> (Inl e, d) | Inr d' \<Rightarrow> (Inr (), d')))"
    using inv db_inv_insert_event(2) by (auto simp: record_runtime_event_def split: sum.split)
  show "quiet d (snd (case record_runtime_event run_id kind payload d of Inl e \<Rightarrow> (Inl e, d) | Inr d' \<Rightarrow> (Inr (), d')))"
    by (intro quiet_same_tasks)
       (auto simp: record_runtime_event_def insert_event_def insert_event_in_transaction_def split: sum.split option.split)
qed

interpretation human_answer: phase_keeping "record_scoped_human_answer tid written" for tid written
proof unfold_locales
  fix d assume inv: "db_inv d"
  have inv1: "db_inv (snd (record_task_human_answer tid d))"
    unfolding record_task_human_answer_def using inv db_inv_answer by (intro db_inv_run_tx) blast
  have q1: "quiet d (snd (record_task_human_answer tid d))"
    unfolding record_task_human_answer_def
    by (intro quiet_run_tx)
       (auto simp: record_task_human_answer_tx_def Let_def split: if_splits
         intro!: quiet_frame quiet_update_tasks)
  have clear: "quiet d1 (clear_task_human_answer_recorded tid d1)" for d1
    unfolding clear_task_human_answer_recorded_def by (intro quiet_update_tasks) simp_all
  show "db_inv (snd (record_scoped_human_answer tid written d))"
    using inv1 by (auto simp: record_scoped_human_answer_def intro: db_inv_clear_answer split: prod.split sum.split)
  show "quiet d (snd (record_scoped_human_answer tid written d))"
    using q1 clear by (auto simp: record_scoped_human_answer_def intro: quiet_trans split: prod.split sum.split)
qed

lemma compare_view_keeping:
  assumes "view_ids_ok view"
  shows "phase_keeping (compare_and_record_task_repository_view_at tid expected view)"
proof unfold_locales
  fix d assume inv: "db_inv d"
  let ?f = "compare_and_record_task_repository_view_at tid expected view"
  have "snd (?f d) = d \<or> record_repository_view_in_transaction Tasks tid view d = Inr (snd (?f d)) \<and> validate_view view = Inr ()"
  proof (cases "validate_view expected = Inr () \<and> validate_view view = Inr ()")
    case True
    show ?thesis
    proof (cases "find_task tid d")
      case (Some t)
      then show ?thesis
        using True
        by (cases "repository_view_reference_from_database (t_view t)"; cases "record_repository_view_in_transaction Tasks tid view d")
           (auto simp: compare_and_record_task_repository_view_at_def run_tx_snd)
    qed (use True in \<open>simp add: compare_and_record_task_repository_view_at_def run_tx_snd\<close>)
  qed (cases "validate_view expected"; cases "validate_view view"; simp add: compare_and_record_task_repository_view_at_def)
  then consider (same) "snd (?f d) = d"
    | (set) "record_repository_view_in_transaction Tasks tid view d = Inr (snd (?f d))" "validate_view view = Inr ()" by blast
  note cases = this
  show "db_inv (snd (?f d))"
    by (cases rule: cases) (use inv assms db_inv_record_view in auto)
  show "quiet d (snd (?f d))"
  proof (cases rule: cases)
    case set
    then have "snd (?f d) = update_runs (without_baseline tid) (\<lambda>r. r \<lparr> r_view := view_columns view \<rparr>)
        (update_task tid (\<lambda>t. t \<lparr> t_view := view_columns view \<rparr>) d)"
      by (simp add: record_repository_view_in_transaction_def split: if_splits)
    then show ?thesis
      by (auto intro!: quiet_frame quiet_update_task)
  qed simp
qed



section \<open>Tools that move no task\<close>

definition quiet_tool :: "'a tool \<Rightarrow> bool" where
  "quiet_tool m = (\<forall>w. well (w_db w) \<longrightarrow> well (w_db (snd (m w))) \<and> quiet (w_db w) (w_db (snd (m w))))"

named_theorems quiet_tools

lemma quiet_tool_bind [quiet_tools]: "quiet_tool m \<Longrightarrow> (\<And>a. quiet_tool (f a)) \<Longrightarrow> quiet_tool (tbind m f)"
  unfolding quiet_tool_def
proof (intro allI impI)
  fix w :: world
  assume m: "\<forall>w. well (w_db w) \<longrightarrow> well (w_db (snd (m w))) \<and> quiet (w_db w) (w_db (snd (m w)))"
    and f: "\<And>a. \<forall>w. well (w_db w) \<longrightarrow> well (w_db (snd (f a w))) \<and> quiet (w_db w) (w_db (snd (f a w)))"
    and w: "well (w_db w)"
  obtain r w1 where r: "m w = (r, w1)" by fastforce
  then have 1: "well (w_db w1)" "quiet (w_db w) (w_db w1)" using m w by (metis snd_conv)+
  show "well (w_db (snd (tbind m f w))) \<and> quiet (w_db w) (w_db (snd (tbind m f w)))"
  proof (cases r)
    case (Inr a)
    then show ?thesis using 1 f [of a] r quiet_trans by (auto simp: tbind_def)
  qed (use 1 r in \<open>simp add: tbind_def\<close>)
qed

lemma quiet_tool_still [quiet_tools]:
  "quiet_tool (tool_ret a)" "quiet_tool (tool_res r)" "quiet_tool (read_db g)" "quiet_tool (read_files h)" "quiet_tool (on_files k)"
  by (simp_all add: quiet_tool_def tool_ret_def tool_res_def read_db_def read_files_def on_files_def split: prod.split)

lemma quiet_tool_on_db: "phase_keeping f \<Longrightarrow> quiet_tool (on_db f)"
  by (auto simp: quiet_tool_def on_db_def dest: phase_keeping.keeps split: prod.split)

lemma quiet_tool_best_effort [quiet_tools]: "quiet_tool m \<Longrightarrow> quiet_tool (best_effort m)"
  by (simp add: quiet_tool_def best_effort_def)

lemma quiet_tool_event [quiet_tools]: "quiet_tool (runtime_event run_id kind payload)"
  unfolding runtime_event_def by (intro quiet_tool_best_effort quiet_tool_on_db event.phase_keeping_axioms)

lemmas quiet_operations [quiet_tools] =
  claim_task.phase_keeping_axioms [THEN quiet_tool_on_db]
  renew_claimed.phase_keeping_axioms [THEN quiet_tool_on_db]
  attach_task.phase_keeping_axioms [THEN quiet_tool_on_db]
  attach_next.phase_keeping_axioms [THEN quiet_tool_on_db]
  attach_by_id.phase_keeping_axioms [THEN quiet_tool_on_db]
  compare_view_keeping [THEN quiet_tool_on_db]

lemma quiet_check_passed [quiet_tools]: "quiet_tool (db_step (task_check_passed_in_transaction tid))"
  unfolding db_step_def by (rule quiet_tool_on_db [OF check_passed.phase_keeping_axioms])

lemma quiet_require_context [quiet_tools]: "quiet_tool (require_runtime_task_context agent)"
  unfolding require_runtime_task_context_def by (rule quiet_tools)

lemma quiet_lease [quiet_tools]: "quiet_tool (ensure_lease_owner_or_reclaim E agent)"
  unfolding ensure_lease_owner_or_reclaim_def by (intro quiet_tools) (auto intro: quiet_tools split: TaskClaim.split)


section \<open>Tools that follow the lifecycle\<close>

definition conforms :: "(db \<Rightarrow> bool) \<Rightarrow> 'a tool \<Rightarrow> ('a \<Rightarrow> db \<Rightarrow> bool) \<Rightarrow> bool" where
  "conforms P m Q =
    (\<forall>w r w'. well (w_db w) \<longrightarrow> P (w_db w) \<longrightarrow> m w = (r, w') \<longrightarrow>
       well (w_db w') \<and> follows (w_db w) (w_db w') \<and> (\<forall>a. r = Inr a \<longrightarrow> Q a (w_db w')))"

definition stable :: "(db \<Rightarrow> bool) \<Rightarrow> bool" where
  "stable P = (\<forall>d d'. quiet d d' \<longrightarrow> P d \<longrightarrow> P d')"

definition at :: "string \<Rightarrow> phase \<Rightarrow> db \<Rightarrow> bool" where
  "at tid p d = (phase_of tid d = Some p \<and> p \<noteq> Absent)"

lemma stable_at [simp, intro]: "stable (at tid p)"
  unfolding stable_def quiet_def at_def by (metis option.inject)

lemma stable_True [simp, intro]: "stable (\<lambda>_. True)"
  by (simp add: stable_def)

lemma conformsD:
  assumes "conforms P m Q" "well (w_db w)" "P (w_db w)" "m w = (r, w')"
  shows "well (w_db w')" "follows (w_db w) (w_db w')" "r = Inr a \<Longrightarrow> Q a (w_db w')"
  using assms by (auto simp: conforms_def)

lemma conforms_bind:
  assumes "conforms P m Q" "\<And>a. conforms (Q a) (f a) R"
  shows "conforms P (tbind m f) R"
  unfolding conforms_def
proof (intro allI impI)
  fix w w' :: world and r assume w: "well (w_db w)" "P (w_db w)" and res: "tbind m f w = (r, w')"
  obtain x w1 where x: "m w = (x, w1)" by fastforce
  note step = conformsD [OF assms(1) w x]
  show "well (w_db w') \<and> follows (w_db w) (w_db w') \<and> (\<forall>a. r = Inr a \<longrightarrow> R a (w_db w'))"
  proof (cases x)
    case (Inl e)
    then show ?thesis using res x step by (auto simp: tbind_def)
  next
    case (Inr a)
    then have "f a w1 = (r, w')" using res x by (simp add: tbind_def)
    from conformsD [OF assms(2) step(1) step(3) [OF Inr] this] show ?thesis using follows_trans [OF step(2)] by blast
  qed
qed

lemma conforms_weaken:
  assumes "conforms P m Q" "\<And>d. P' d \<Longrightarrow> P d" "\<And>a d. Q a d \<Longrightarrow> Q' a d"
  shows "conforms P' m Q'"
  using assms unfolding conforms_def by blast

lemma conforms_anyhow: "conforms P m Q \<Longrightarrow> conforms P m (\<lambda>_ _. True)"
  by (erule conforms_weaken) simp_all

lemma conforms_quiet:
  assumes "quiet_tool m" "stable P"
  shows "conforms P m (\<lambda>_. P)"
  unfolding conforms_def
proof (intro allI impI)
  fix w w' :: world and r assume w: "well (w_db w)" "P (w_db w)" "m w = (r, w')"
  then have "well (w_db w')" "quiet (w_db w) (w_db w')" using assms(1) by (metis quiet_tool_def snd_conv)+
  then show "well (w_db w') \<and> follows (w_db w) (w_db w') \<and> (\<forall>a. r = Inr a \<longrightarrow> P (w_db w'))"
    using assms(2) w(2) quiet_follows by (auto simp: stable_def)
qed

lemma conforms_res: "conforms P (tool_res r) (\<lambda>a d. r = Inr a \<and> P d)"
  by (simp add: conforms_def tool_res_def)

lemma conforms_on_db:
  assumes "\<And>d r d'. well d \<Longrightarrow> P d \<Longrightarrow> f d = (r, d') \<Longrightarrow> well d' \<and> follows d d' \<and> (\<forall>a. r = Inr a \<longrightarrow> Q a d')"
  shows "conforms P (on_db f) Q"
  using assms by (auto simp: conforms_def on_db_def split: prod.splits)

text \<open>A tool may start with steps that move no task.\<close>

lemma conforms_after:
  assumes "quiet_tool m" "stable P" "\<And>a. conforms P (f a) Q"
  shows "conforms P (tbind m f) Q"
  using conforms_bind [OF conforms_quiet [OF assms(1,2)] assms(3)] .

lemma conforms_check:
  assumes "\<And>a. r = Inr a \<Longrightarrow> conforms P (f a) Q"
  shows "conforms P (tbind (tool_res r) f) Q"
proof (cases r)
  case (Inl e)
  then show ?thesis by (simp add: conforms_def tbind_def tool_res_def)
next
  case (Inr a)
  then show ?thesis using assms by simp
qed

lemma conforms_fail: "conforms P (tool_res (Inl e)) Q"
  by (simp add: conforms_def tool_res_def)

lemma conforms_finish: "quiet_tool m \<Longrightarrow> conforms P m (\<lambda>_ _. True)"
  using conforms_weaken [OF conforms_quiet [of m "\<lambda>_. True"]] by simp

end
