(* ===== verification/Lifecycle_Steps.thy ===== *)
theory Lifecycle_Steps
  imports Lifecycle
begin

text \<open>
  The database operations that move a task along the lifecycle, each with the move it makes, and the link between the
  phase of a task and the context a tool reads.
\<close>

section \<open>From phases to columns\<close>

lemma from_str_iff: "from_str v = Inr s \<longleftrightarrow> v = as_str s"
  by (auto dest: as_str_from_str)

lemma phase_columns:
  "phase_of_columns st p a = Some (Working w) \<longleftrightarrow> st = as_str (work_status w)"
  "phase_of_columns st p a = Some UnderReview \<longleftrightarrow> st = as_str Reviewing"
  "phase_of_columns st p a = Some Broken \<longleftrightarrow> st = as_str Failed"
  "phase_of_columns st p a = Some (Consulting w) \<longleftrightarrow> st = as_str Consultation \<and> p = Some (as_str (work_status w))"
  "phase_of_columns st p a \<noteq> Some Absent"
  by (cases w; auto simp: phase_of_columns_def base_phase_def work_status_def work_of_def from_str_iff
      split: sum.splits TaskStatus.splits option.splits if_splits)+

lemma asking_columns:
  assumes "phase_of_columns st p a = Some (Asking q)"
  obtains s where "st = as_str AwaitingHuman" "a = Some (as_str s)" "base_phase s p = Some q"
  using assms
  by (auto simp: phase_of_columns_def base_phase_def from_str_iff split: sum.splits TaskStatus.splits option.splits)

lemma at_row:
  assumes "at tid p d"
  obtains t where "find_task tid d = Some t" "phase_of_row t = Some p"
  using assms by (auto simp: at_def phase_of_def split: option.splits)

lemma row_step_moves:
  assumes "well d" "at tid p d" "row_step tid u d d'" "phase_of_row u = Some q" "moves p q" "q \<noteq> Absent"
  shows "well d' \<and> follows d d' \<and> at tid q d'"
proof -
  have "phase_of tid d = Some p" using assms(2) by (simp add: at_def)
  from row_change [OF assms(1) row_stepD(1) [OF assms(3)] _ this assms(4) r_into_rtranclp [of moves, OF assms(5)]] assms(3,6)
  show ?thesis by (simp add: row_step_def at_def)
qed

text \<open>The context of an agent describes the row of its task.\<close>

definition described :: "RuntimeTaskContext \<Rightarrow> phase \<Rightarrow> bool" where
  "described ctx p = (\<exists>a. phase_of_columns (x_status ctx) (x_paused_status ctx) a = Some p)"

lemma context_row:
  assumes inv: "db_inv d" and res: "runtime_task_context_for_agent agent d = Inr (Some ctx)"
  obtains t where "find_task (x_task_id ctx) d = Some t" "x_status ctx = t_status t" "x_paused_status ctx = t_paused_status t"
proof (cases "latest_claimed_task agent d")
  case (Some t)
  have "find_task (t_id t) d = Some t" by (rule latest_claimed_task_in [OF db_inv_keys [OF inv] Some])
  then show ?thesis
    using that [of t] res Some
    by (auto simp: runtime_task_context_for_agent_def claimed_task_context_def res_bind_Inr_iff context_of_task_def Let_def)
next
  case None
  then obtain r t where "find_task (r_task_id r) d = Some t" "active_run_context r t d = Inr ctx"
    using res by (auto simp: runtime_task_context_for_agent_def res_bind_Inr_iff split: option.splits)
  then show ?thesis
    using that [of t] task_table.get_key [of "r_task_id r" d t]
    by (auto simp: active_run_context_def res_bind_Inr_iff context_of_task_def Let_def)
qed

lemma conforms_context:
  assumes "\<And>ctx p. described ctx p \<Longrightarrow> conforms (at (x_task_id ctx) p) (f ctx) Q"
  shows "conforms (\<lambda>_. True) (tbind (require_runtime_task_context agent) f) Q"
  unfolding conforms_def
proof (intro allI impI)
  fix w w' :: world and r
  assume w: "well (w_db w)" and res: "tbind (require_runtime_task_context agent) f w = (r, w')"
  show "well (w_db w') \<and> follows (w_db w) (w_db w') \<and> (\<forall>a. r = Inr a \<longrightarrow> Q a (w_db w'))"
  proof (cases "runtime_task_context_for_agent agent (w_db w)")
    case (Inl e)
    then show ?thesis using res w by (auto simp: tbind_def require_runtime_task_context_def read_db_def)
  next
    case (Inr c)
    show ?thesis
    proof (cases c)
      case None
      then show ?thesis using res w Inr by (auto simp: tbind_def require_runtime_task_context_def read_db_def)
    next
      case (Some ctx)
      have inv: "db_inv (w_db w)" using w by (simp add: well_def)
      obtain t where t: "find_task (x_task_id ctx) (w_db w) = Some t" "x_status ctx = t_status t"
        "x_paused_status ctx = t_paused_status t" by (rule context_row [OF inv Inr [unfolded Some]])
      obtain p where p: "phase_of (x_task_id ctx) (w_db w) = Some p" using w by (auto simp: well_def)
      then have "phase_of_row t = Some p" using t by (simp add: phase_of_def)
      then have "described ctx p" "p \<noteq> Absent" using t phase_columns(5) by (auto simp: described_def phase_of_row_def)
      moreover have "f ctx w = (r, w')" using res Inr Some by (simp add: tbind_def require_runtime_task_context_def read_db_def)
      ultimately show ?thesis using conformsD [OF assms w _] p by (metis at_def)
    qed
  qed
qed

lemma described_working: "described ctx p \<Longrightarrow> context_status ctx = Inr s \<Longrightarrow> is_executor_working s \<Longrightarrow> \<exists>w. p = Working w \<and> s = work_status w"
  by (cases s) (auto simp: described_def context_status_def from_str_iff phase_simps work_status_def
      intro: exI [of _ Fresh] exI [of _ Rework])

lemma described_reviewing: "described ctx p \<Longrightarrow> context_status ctx = Inr Reviewing \<Longrightarrow> p = UnderReview"
  by (auto simp: described_def context_status_def from_str_iff phase_simps)

lemma described_failed: "described ctx p \<Longrightarrow> context_status ctx = Inr Failed \<Longrightarrow> p = Broken"
  by (auto simp: described_def context_status_def from_str_iff phase_simps)


section \<open>Operations that move a task\<close>

lemma consultation_moves:
  "conforms (at tid (Working v)) (db_step (task_consultation_in_transaction tid (work_status v))) (\<lambda>_. at tid (Consulting v))"
  unfolding db_step_def
proof (rule conforms_on_db)
  fix d r d' assume w: "well d" "at tid (Working v) d"
    and res: "run_tx (\<lambda>d. res_bind (task_consultation_in_transaction tid (work_status v) d) (\<lambda>d'. Inr ((), d'))) d = (r, d')"
  obtain t where t: "find_task tid d = Some t" "phase_of_row t = Some (Working v)" by (rule at_row [OF w(2)])
  have inv: "db_inv d" using w(1) by (simp add: well_def)
  obtain d1 where d1: "task_consultation_in_transaction tid (work_status v) d = Inr d1"
    "row_step tid (consulting (work_status v) t) d d1" by (rule consultation_step [OF inv t(1)])
  have "phase_of_row (consulting (work_status v) t) = Some (Consulting v)" by (simp add: phase_of_row_def phase_simps)
  from row_step_moves [OF w d1(2) this moves.consult] d1(1) res
  show "well d' \<and> follows d d' \<and> (\<forall>a. r = Inr a \<longrightarrow> at tid (Consulting v) d')" by (auto simp: run_tx_def)
qed

lemma restore_consultation_moves:
  "conforms (\<lambda>_. True) (on_db (run_tx (task_restore_consultation_in_transaction tid))) (\<lambda>_ _. True)"
proof (rule conforms_on_db)
  fix d r d' assume w: "well d" and res: "run_tx (task_restore_consultation_in_transaction tid) d = (r, d')"
  show "well d' \<and> follows d d' \<and> (\<forall>a. r = Inr a \<longrightarrow> True)"
  proof (cases "\<exists>t. find_task tid d = Some t \<and> t_status t = as_str Consultation")
    case True
    then obtain t where t: "find_task tid d = Some t" "t_status t = as_str Consultation" by blast
    obtain p where p: "phase_of tid d = Some p" using w by (auto simp: well_def)
    then have row: "phase_of_row t = Some p" using t(1) by (simp add: phase_of_def)
    then obtain v where v: "t_paused_status t = Some (as_str (work_status v))" "p = Consulting v"
      using t(2) by (auto simp: phase_of_row_def phase_simps work_of_Some)
    have inv: "db_inv d" using w by (simp add: well_def)
    obtain d1 where d1: "run_tx (task_restore_consultation_in_transaction tid) d = (Inr (ConsultRestored (as_str (work_status v))), d1)"
      "row_step tid (consult_restored (work_status v) t) d d1" by (rule restore_consultation_step [OF inv t v(1)])
    have "phase_of_row (consult_restored (work_status v) t) = Some (Working v)"
      by (simp add: phase_of_row_def phase_columns consult_restored_def)
    from row_step_moves [OF w _ d1(2) this moves.advise] p v(2) d1(1) res show ?thesis by (auto simp: at_def)
  next
    case False
    then have "task_restore_consultation_in_transaction tid d = Inr (NotInConsultation, d)"
      by (auto simp: task_restore_consultation_in_transaction_def split: option.split)
    then show ?thesis using res w by (auto simp: run_tx_def)
  qed
qed

lemma question_moves:
  assumes "base_phase s (map_option as_str p) = Some q" "q \<in> {Working v, Consulting v, UnderReview}"
  shows "conforms (at tid q) (db_step (task_human_question_in_transaction tid s p agent)) (\<lambda>_. at tid (Asking q))"
  unfolding db_step_def
proof (rule conforms_on_db)
  fix d r d' assume w: "well d" "at tid q d"
    and res: "run_tx (\<lambda>d. res_bind (task_human_question_in_transaction tid s p agent d) (\<lambda>d'. Inr ((), d'))) d = (r, d')"
  obtain t where t: "find_task tid d = Some t" "phase_of_row t = Some q" by (rule at_row [OF w(2)])
  have inv: "db_inv d" using w(1) by (simp add: well_def)
  obtain d1 n where d1: "task_human_question_in_transaction tid s p agent d = Inr d1"
    "row_step tid (asked s (map_option as_str p) agent n t) d d1" by (rule question_step [OF inv t(1)])
  have "phase_of_row (asked s (map_option as_str p) agent n t) = Some (Asking q)"
    using assms(1) by (simp add: phase_of_row_def asked_def phase_simps)
  from row_step_moves [OF w d1(2) this moves.ask [OF assms(2)]] d1(1) res
  show "well d' \<and> follows d d' \<and> (\<forall>a. r = Inr a \<longrightarrow> at tid (Asking q) d')" by (auto simp: run_tx_def)
qed

lemma restore_human_moves:
  "conforms (\<lambda>_. True) (on_db (run_tx (task_restore_human_in_transaction tid))) (\<lambda>_ _. True)"
proof (rule conforms_on_db)
  fix d r d' assume w: "well d" and res: "run_tx (task_restore_human_in_transaction tid) d = (r, d')"
  show "well d' \<and> follows d d' \<and> (\<forall>a. r = Inr a \<longrightarrow> True)"
  proof (cases "\<exists>t. find_task tid d = Some t \<and> t_status t = as_str AwaitingHuman")
    case True
    then obtain t where t: "find_task tid d = Some t" "t_status t = as_str AwaitingHuman" by blast
    obtain p where p: "phase_of tid d = Some p" using w by (auto simp: well_def)
    then have row: "phase_of_row t = Some p" using t(1) by (simp add: phase_of_def)
    then obtain s q where s: "t_awaiting_human_status t = Some (as_str s)" "base_phase s (t_paused_status t) = Some q" "p = Asking q"
      using t(2) by (auto simp: phase_of_row_def phase_of_columns_def from_str_iff split: option.splits sum.splits)
    have inv: "db_inv d" using w by (simp add: well_def)
    obtain d1 where d1: "run_tx (task_restore_human_in_transaction tid) d = (Inr (HumanRestored (as_str s)), d1)"
      "row_step tid (human_restored s t) d d1" by (rule restore_human_step [OF inv t s(1)])
    have q: "phase_of_row (human_restored s t) = Some q"
      using s(2) by (cases s) (auto simp: phase_of_row_def human_restored_def phase_simps base_phase_def)
    have "q \<noteq> Absent" using q phase_columns(5) by (auto simp: phase_of_row_def)
    from row_step_moves [OF w _ d1(2) q moves.answer this] p s(3) d1(1) res show ?thesis by (auto simp: at_def)
  next
    case False
    then have "task_restore_human_in_transaction tid d = Inr (NotAwaitingHuman, d)"
      by (auto simp: task_restore_human_in_transaction_def split: option.split)
    then show ?thesis using res w by (auto simp: run_tx_def)
  qed
qed


text \<open>Claims promote a pending task and leave the phase of any other alone.\<close>

lemma promoted_moves:
  assumes w: "well d" and inv: "db_inv d'" and t: "find_task tid d = Some t" and u: "same_phase (promoted p t) u"
    and rows: "\<And>k. find_task k d' = (if k = tid then Some u else find_task k d)"
  shows "well d' \<and> follows d d'"
proof -
  obtain q where q: "phase_of tid d = Some q" using w by (auto simp: well_def)
  then have row: "phase_of_row t = Some q" using t by (simp add: phase_of_def)
  show ?thesis
  proof (cases "p \<and> t_status t = as_str Pending")
    case True
    then have "q = Queued" using row by (simp add: phase_of_row_def phase_simps)
    moreover have "phase_of_row u = Some (Working Fresh)"
      using True same_phase_row [OF u] by (simp add: promoted_def promote_row_def phase_of_row_def phase_simps)
    ultimately show ?thesis
      using row_change [OF w inv rows q, of "Working Fresh"] moves.start by blast
  next
    case False
    then have "promoted p t = t" by (auto simp: promoted_def)
    then have "phase_of_row u = Some q" using row same_phase_row [OF u] by simp
    then show ?thesis using row_change [OF w inv rows q] by blast
  qed
qed

lemma claim_by_id_moves:
  "conforms (\<lambda>_. True) (on_db (claim_task_by_id_with_statuses C now ts tid agent ttl st p)) (\<lambda>_ _. True)"
proof (rule conforms_on_db, unfold claim_task_by_id_with_statuses_def)
  fix d r d' assume w: "well d"
    and res: "run_tx (claim_ready_task_in_transaction C now ts tid agent ttl st p) d = (r, d')"
  have inv: "db_inv d" using w by (simp add: well_def)
  show "well d' \<and> follows d d' \<and> (\<forall>a. r = Inr a \<longrightarrow> True)"
  proof (cases r)
    case (Inl e)
    then show ?thesis using res w by (auto simp: run_tx_def split: sum.splits)
  next
    case (Inr a)
    then have "claim_ready_task_in_transaction C now ts tid agent ttl st p d = Inr (a, d')" using res by (simp add: run_tx_Inr)
    then show ?thesis
    proof (cases rule: claim_ready_elim)
      case (own t deadline)
      from promoted_moves [OF w own(8) [OF inv] own(1) same_phase_updates(1) own(6)] show ?thesis by simp
    next
      case (free t until)
      from promoted_moves [OF w free(8) [OF inv] free(1) same_phase_updates(2) free(6)] show ?thesis by simp
    qed (use w in simp)
  qed
qed

lemma claim_next_moves:
  "conforms (\<lambda>_. True) (on_db (claim_next_task_with_statuses C now ts agent ttl st p)) (\<lambda>_ _. True)"
proof (rule conforms_on_db, unfold claim_next_task_with_statuses_def)
  fix d r d' assume w: "well d"
    and res: "run_tx (claim_next_in_transaction C now ts agent ttl st p) d = (r, d')"
  have inv: "db_inv d" using w by (simp add: well_def)
  show "well d' \<and> follows d d' \<and> (\<forall>a. r = Inr a \<longrightarrow> True)"
  proof (cases r)
    case (Inl e)
    then show ?thesis using res w by (auto simp: run_tx_def split: sum.splits)
  next
    case (Inr a)
    then have next_ok: "claim_next_in_transaction C now ts agent ttl st p d = Inr (a, d')" using res by (simp add: run_tx_Inr)
    show ?thesis
    proof (cases rule: claim_next_elim [OF db_inv_keys [OF inv] next_ok])
      case (2 t deadline)
      from promoted_moves [OF w 2(9) [OF inv] 2(1) same_phase_updates(1) 2(7)] show ?thesis by simp
    next
      case (3 t until)
      from promoted_moves [OF w 3(10) [OF inv] 3(1) same_phase_updates(2) 3(8)] show ?thesis by simp
    qed (use w in simp)
  qed
qed

text \<open>The end of a check gate, of a review, and of a failed task.\<close>

lemma at_row_step:
  assumes "find_task tid d = Some t" "\<And>t. t_id (f t) = t_id t" "db_inv d'" "runs d' = runs d"
    and "\<And>k. find_task k d' = find_task k (update_task tid f d)"
  shows "row_step tid (f t) d d'"
  using assms by (simp add: row_step_def row_simps)

lemma check_failed_moves:
  "conforms (at tid (Working v)) (on_db (record_task_check_failed tid reason m)) (\<lambda>_ _. True)"
proof (rule conforms_on_db, unfold record_task_check_failed_def)
  fix d r d' assume w: "well d" "at tid (Working v) d"
    and res: "run_tx (task_check_failed_in_transaction tid reason m) d = (r, d')"
  obtain t where t: "find_task tid d = Some t" "phase_of_row t = Some (Working v)" by (rule at_row [OF w(2)])
  have inv: "db_inv d" using w(1) by (simp add: well_def)
  let ?n = "task_check_retries tid d + 1"
  let ?fail = "\<lambda>t. clear_lease_row (t \<lparr> t_status := as_str Failed, t_check_retries := uint ?n,
      t_failure_reason := Some (check_limit_reason m reason) \<rparr>)"
  let ?bump = "\<lambda>t. t \<lparr> t_check_retries := uint ?n, t_failure_reason := Some reason \<rparr>"
  obtain x where x: "task_check_failed_in_transaction tid reason m d = Inr (x, d')"
    using res by (auto simp: task_check_failed_in_transaction_def run_tx_def Let_def split: if_splits)
  have inv': "db_inv d'" by (rule db_inv_check_failed [OF x inv])
  show "well d' \<and> follows d d' \<and> (\<forall>a. r = Inr a \<longrightarrow> True)"
  proof (cases "m \<le> ?n")
    case True
    have "row_step tid (?fail t) d d'"
      using x True inv' by (intro at_row_step [OF t(1)]) (auto simp: task_check_failed_in_transaction_def Let_def)
    then show ?thesis
      using row_step_moves [OF w _ _ moves.give_up] by (simp add: phase_of_row_def phase_simps)
  next
    case False
    have "row_step tid (?bump t) d d'"
      using x False inv' by (intro at_row_step [OF t(1)]) (auto simp: task_check_failed_in_transaction_def Let_def)
    then have "quiet d d'" by (intro quiet_one_row [OF t(1) same_phase_updates(7)]) (simp add: row_step_def)
    then show ?thesis using well_quiet [OF w(1) inv'] quiet_follows by blast
  qed
qed

lemma rejected_moves:
  "conforms (at tid UnderReview) (on_db (record_task_review_rejected tid m)) (\<lambda>_ _. True)"
proof (rule conforms_on_db, unfold record_task_review_rejected_def)
  fix d r d' assume w: "well d" "at tid UnderReview d"
    and res: "run_tx (record_task_review_rejected_in_transaction tid m) d = (r, d')"
  obtain t where t: "find_task tid d = Some t" "phase_of_row t = Some UnderReview" by (rule at_row [OF w(2)])
  have inv: "db_inv d" using w(1) by (simp add: well_def)
  let ?n = "task_review_cycles tid d + 1"
  let ?fail = "\<lambda>t. clear_lease_row (t \<lparr> t_status := as_str Failed, t_review_cycles := uint ?n,
      t_failure_reason := Some (rejection_limit_reason m) \<rparr>)"
  let ?rework = "\<lambda>t. clear_lease_row (t \<lparr> t_status := as_str Addressing, t_review_cycles := uint ?n, t_check_retries := 0,
      t_executor_dispatches := 0, t_failure_reason := None, t_view := unfreeze_cols (t_view t) \<rparr>)"
  obtain x where x: "record_task_review_rejected_in_transaction tid m d = Inr (x, d')"
    using res by (auto simp: record_task_review_rejected_in_transaction_def run_tx_def Let_def split: if_splits)
  have inv': "db_inv d'" by (rule db_inv_rejected [OF x inv])
  show "well d' \<and> follows d d' \<and> (\<forall>a. r = Inr a \<longrightarrow> True)"
  proof (cases "m \<le> ?n")
    case True
    have "row_step tid (?fail t) d d'"
      using x True inv' by (intro at_row_step [OF t(1)]) (auto simp: record_task_review_rejected_in_transaction_def Let_def)
    then show ?thesis
      using row_step_moves [OF w _ _ moves.turn_down] by (simp add: phase_of_row_def phase_simps)
  next
    case False
    have "row_step tid (?rework t) d d'"
      using x False inv' by (intro at_row_step [OF t(1)]) (auto simp: record_task_review_rejected_in_transaction_def Let_def)
    then show ?thesis
      using row_step_moves [OF w _ _ moves.send_back] by (simp add: phase_of_row_def phase_simps)
  qed
qed


lemma submitted_moves:
  assumes "\<And>v. fv = Some v \<Longrightarrow> view_ids_ok v"
  shows "conforms (at tid (Working v)) (on_db (record_task_submitted tid path run_id fv ff checks)) (\<lambda>_ _. True)"
proof (rule conforms_on_db)
  fix d r d' assume w: "well d" "at tid (Working v) d"
    and res: "record_task_submitted tid path run_id fv ff checks d = (r, d')"
  have inv: "db_inv d" and p: "phase_of tid d = Some (Working v)" using w by (simp_all add: well_def at_def)
  have "d' = d \<or> task_submitted_in_transaction tid path run_id fv ff checks d = Inr d'"
    using res by (auto simp: record_task_submitted_def run_tx_def res_bind_Inr_iff split: sum.splits)
  then show "well d' \<and> follows d d' \<and> (\<forall>a. r = Inr a \<longrightarrow> True)"
  proof
    assume sub: "task_submitted_in_transaction tid path run_id fv ff checks d = Inr d'"
    have inv': "db_inv d'" by (rule db_inv_submitted [OF sub inv assms])
    obtain t where t: "find_task tid d = Some t" by (rule at_row [OF w(2)])
    let ?u = "clear_lease_row (t \<lparr> t_path := path, t_status := as_str Reviewing,
      t_view := (case fv of Some v \<Rightarrow> view_columns v | None \<Rightarrow> t_view t) \<rparr>)"
    have rows: "find_task k d' = (if k = tid then Some ?u else find_task k d)" for k
      using task_submitted_row(1) [OF sub, of k] t by (cases fv) simp_all
    have "phase_of_row ?u = Some UnderReview" by (simp add: phase_of_row_def phase_simps)
    from row_change [OF w(1) inv' rows p this r_into_rtranclp [of moves, OF moves.hand_in]] show ?thesis by simp
  qed (use w in simp)
qed

lemma status_moves:
  assumes "clears_lease s" "\<And>paused awaiting. phase_of_columns (as_str s) paused awaiting = Some q" "moves p q"
  shows "conforms (at tid p) (on_db (\<lambda>d. case record_task_status_on_connection tid path s None None d of
     Inl e \<Rightarrow> (Inl e, d) | Inr d' \<Rightarrow> (Inr (), d'))) (\<lambda>_ _. True)"
proof (rule conforms_on_db)
  fix d r d' assume w: "well d" "at tid p d"
    and res: "(case record_task_status_on_connection tid path s None None d of
     Inl e \<Rightarrow> (Inl e, d) | Inr d' \<Rightarrow> (Inr (), d')) = (r, d')"
  have inv: "db_inv d" and p: "phase_of tid d = Some p" using w by (simp_all add: well_def at_def)
  show "well d' \<and> follows d d' \<and> (\<forall>a. r = Inr a \<longrightarrow> True)"
  proof (cases "record_task_status_on_connection tid path s None None d")
    case (Inl e)
    then show ?thesis using res w by simp
  next
    case (Inr d1)
    then have d1: "d' = d1" using res by simp
    obtain t where t: "find_task tid d = Some t" by (rule at_row [OF w(2)])
    let ?t = "clear_lease_row (t \<lparr> t_path := path, t_status := as_str s \<rparr>)"
    have "find_task tid d1 = Some ?t" "\<And>k. k \<noteq> tid \<Longrightarrow> find_task k d1 = find_task k d"
      using Inr t assms(1) by (auto simp: record_task_status_on_connection_def Let_def insert_event_frame
          clear_task_lease_def row_simps upsert_task_find split: if_splits)
    then have rows: "find_task k d1 = (if k = tid then Some ?t else find_task k d)" for k by simp
    have "phase_of_row ?t = Some q" using assms(2) by (simp add: phase_of_row_def)
    from row_change [OF w(1) _ rows p this r_into_rtranclp [of moves, OF assms(3)]] show ?thesis
      unfolding d1 using db_inv_record_status [OF Inr inv] by simp
  qed
qed

lemma reset_moves:
  "conforms (at tid Broken) (on_db (\<lambda>d. case record_task_status_on_connection tid path Reset None None d of
     Inl e \<Rightarrow> (Inl e, d) | Inr d' \<Rightarrow> (Inr (), d'))) (\<lambda>_ _. True)"
  by (rule status_moves [where q = Discarded]) (simp_all add: phase_simps moves.discard)

lemma accepted_moves:
  "conforms (at tid UnderReview) (on_db (\<lambda>d. case record_task_status tid path Complete d of
     Inl e \<Rightarrow> (Inl e, d) | Inr d' \<Rightarrow> (Inr (), d'))) (\<lambda>_ _. True)"
  unfolding record_task_status_def
  by (rule status_moves [where q = Finished]) (simp_all add: phase_simps moves.accept)


text \<open>Creating a task goes through a reservation, which a failure gives back or leaves.\<close>

lemma fresh_phase:
  assumes w: "well d" and inv: "db_inv d'" and new: "find_task tid d = None"
    and rows: "\<And>k. k \<noteq> tid \<Longrightarrow> find_task k d' = find_task k d"
    and row: "find_task tid d' = None \<or> find_task tid d' = Some (new_task_row tid path (as_str Unknown) sp m) \<or>
      find_task tid d' = Some (new_task_row tid path (as_str Pending) sp m)"
  shows "well d' \<and> follows d d'"
proof -
  have q: "moves\<^sup>*\<^sup>* Absent (the (phase_of tid d')) \<and> phase_of tid d' \<noteq> None"
    using row
  proof (elim disjE)
    assume "find_task tid d' = Some (new_task_row tid path (as_str Pending) sp m)"
    then have "phase_of tid d' = Some Queued" by (simp add: phase_of_def phase_of_row_def new_task_row_def phase_simps)
    moreover have "moves\<^sup>*\<^sup>* Absent Queued" using moves.reserve moves.enqueue by (meson rtranclp.simps)
    ultimately show ?thesis by simp
  next
    assume "find_task tid d' = Some (new_task_row tid path (as_str Unknown) sp m)"
    then have "phase_of tid d' = Some Reserved" by (simp add: phase_of_def phase_of_row_def new_task_row_def phase_simps)
    then show ?thesis using moves.reserve by (simp add: r_into_rtranclp)
  qed (simp add: phase_of_def)
  have same: "k \<noteq> tid \<Longrightarrow> phase_of k d' = phase_of k d" for k using rows by (simp add: phase_of_def)
  have old: "phase_of tid d = Some Absent" using new by (simp add: phase_of_def)
  have "phase_of k d' \<noteq> None" for k using w q same [of k] by (cases "k = tid") (auto simp: well_def)
  moreover have "moves\<^sup>*\<^sup>* (the (phase_of k d)) (the (phase_of k d'))" for k
    using q same [of k] old by (cases "k = tid") auto
  ultimately show ?thesis using inv by (simp add: well_def follows_def)
qed


lemma discarded_rows:
  assumes "discard_task_artifact_reservation a c (insert_task (new_task_row (ta_id a) p (as_str Unknown) None None) d) = (r, c', d')"
    and "find_task (ta_id a) d = None"
  shows "d' = insert_task (new_task_row (ta_id a) p (as_str Unknown) None None) d \<or> (\<forall>k. find_task k d' = find_task k d)"
proof -
  let ?P = "\<lambda>t. t_id t = ta_id a \<and> t_status t = as_str Unknown"
  let ?d1 = "insert_task (new_task_row (ta_id a) p (as_str Unknown) None None) d"
  have "d' = ?d1 \<or> delete_tasks ?P ?d1 = Inr d'"
    using assms(1) by (auto simp: discard_task_artifact_reservation_def split: prod.splits sum.splits)
  moreover have "filter (\<lambda>t. \<not> ?P t) (tasks ?d1) = tasks d"
    using find_task_NoneD [OF assms(2)] by (auto simp: insert_task_def new_task_row_def filter_id_conv)
  ultimately show ?thesis by (auto simp: delete_tasks_def find_task_def split: if_splits)
qed

lemma create_pending_moves:
  assumes w: "well d" and res: "create_pending_task_artifact names description s m c d = (r, c', d')"
  shows "well d' \<and> follows d d'"
proof -
  have inv: "db_inv d" using w by (simp add: well_def)
  note inv' = db_inv_create_pending [OF res inv]
  obtain q d1 where q: "reserve_task_artifact names c d = (q, d1)" by fastforce
  show ?thesis
  proof (cases q)
    case (Inl e)
    then have "d' = d" using res q reserve_task_artifact_err by (auto simp: create_pending_task_artifact_def)
    then show ?thesis using w by simp
  next
    case (Inr a)
    obtain n where a: "find_task (ta_id a) d = None"
      "d1 = insert_task (new_task_row (ta_id a) (ta_path a) (as_str Unknown) None None) d"
      using reserve_task_artifact_ok [OF q [unfolded Inr]] by metis
    obtain r2 c2 d2 where fill: "fill_artifact a description s m c d1 = (r2, c2, d2)" by (metis prod_cases3)
    obtain r3 c3 d3 where disc: "discard_task_artifact_reservation a c2 d2 = (r3, c3, d3)" by (metis prod_cases3)
    have out: "d' = (if is_ok r2 then d2 else d3)"
      using res unfolding create_pending_task_artifact_def q Inr prod.case sum.case fill
      by (cases r2; cases r3; simp add: disc)
    show ?thesis
    proof (cases r2)
      case (Inr u)
      then have "tasks d' = tasks d @ [new_task_row (ta_id a) (ta_path a) (as_str Pending) s m]"
        using finalize_row [OF a(1)] fill_artifact_ok(1) [OF fill [unfolded Inr]] a(2) out by simp
      then have rows: "find_task k d' = find_task k (insert_task (new_task_row (ta_id a) (ta_path a) (as_str Pending) s m) d)" for k
        by (simp add: find_task_def insert_task_def)
      show ?thesis
        by (rule fresh_phase [OF w inv' a(1)]) (use a(1) in \<open>auto simp: rows row_simps new_task_row_def split: option.split\<close>)
    next
      case (Inl e)
      then have d2: "d2 = d1" "d' = d3" using fill_artifact_err(1) [OF fill [unfolded Inl]] out by simp_all
      have "d' = d1 \<or> (\<forall>k. find_task k d' = find_task k d)"
        using discarded_rows [OF disc [unfolded d2(1) a(2)] a(1)] a(2) d2(2) by simp
      then show ?thesis
      proof
        assume "d' = d1"
        then show ?thesis
          by (intro fresh_phase [OF w inv' a(1)]) (use a in \<open>auto simp: row_simps new_task_row_def split: option.split\<close>)
      next
        assume "\<forall>k. find_task k d' = find_task k d"
        then show ?thesis by (intro fresh_phase [OF w inv' a(1)]) (use a(1) in auto)
      qed
    qed
  qed
qed

lemma create_pending_conforms:
  "conforms (\<lambda>_. True) (create_pending_in_world names description s m) (\<lambda>_ _. True)"
  using create_pending_moves by (auto simp: conforms_def create_pending_in_world_def split: prod.splits)

end
