(* ===== verification/Tool_Lifecycle.thy ===== *)
theory Tool_Lifecycle
  imports Lifecycle_Steps
begin

text \<open>
  Every tool follows the lifecycle: each call makes only moves of the graph, also when other calls happen while it
  waits.
\<close>

section \<open>Pauses\<close>

lemma conforms_guard:
  "(b \<Longrightarrow> conforms P m Q) \<Longrightarrow> (\<not> b \<Longrightarrow> conforms P n Q) \<Longrightarrow> conforms P (if b then m else n) Q"
  by simp

lemma conforms_wrong: "conforms P (tool_res (wrong_state a ctx b)) Q"
  by (simp add: wrong_state_def conforms_fail)

lemma conforms_ret: "conforms P (tool_ret a) (\<lambda>_ _. True)"
  by (rule conforms_finish) (rule quiet_tools)

lemmas conforms_steps =
  conforms_after [OF quiet_lease stable_at] conforms_after [OF quiet_tool_still(2) stable_at]
  conforms_after [OF quiet_tool_still(4) stable_at] conforms_after [OF quiet_tool_still(5) stable_at]

lemma consult_conforms: "conforms (\<lambda>_. True) (consult E agent question) (\<lambda>_ _. True)"
  unfolding consult_def
proof (rule conforms_context, rule conforms_check, rule conforms_guard [OF conforms_wrong], goal_cases)
  case (1 ctx p s)
  then obtain v where "p = Working v" "s = work_status v" using described_working by fastforce
  then show ?case by (auto intro!: conforms_steps conforms_bind [OF consultation_moves] conforms_ret)
qed

text \<open>A wait is a sequence of polls with what others do in between.\<close>

definition lawful :: "(world \<Rightarrow> world) \<Rightarrow> bool" where
  "lawful f = (\<forall>w. well (w_db w) \<longrightarrow> well (w_db (f w)) \<and> follows (w_db w) (w_db (f w)))"

lemma wait_until_conforms:
  assumes "\<And>E. conforms (\<lambda>_. True) (poll E) (\<lambda>_ _. True)" "\<forall>x\<in>set later. lawful (fst x)"
  shows "conforms (\<lambda>_. True) (wait_until poll timeout E later) (\<lambda>_ _. True)"
  using assms(2)
proof (induction later arbitrary: E)
  case Nil
  show ?case
    unfolding conforms_def wait_until.simps [of poll timeout E "[]"]
  proof (intro allI impI)
    fix w w' :: world and r
    assume w: "well (w_db w)" and res: "(case poll E w of (Inl e, w1) \<Rightarrow> (Inl e, w1) | (Inr (Some a), w1) \<Rightarrow> (Inr a, w1)
      | (Inr None, w1) \<Rightarrow> (case [] of [] \<Rightarrow> (timeout, w1) | (change, E') # rest \<Rightarrow> wait_until poll timeout E' rest (change w1))) = (r, w')"
    obtain x w1 where x: "poll E w = (x, w1)" by fastforce
    then have "w' = w1" using res by (auto split: sum.splits option.splits)
    then show "well (w_db w') \<and> follows (w_db w) (w_db w') \<and> (\<forall>a. r = Inr a \<longrightarrow> True)"
      using conformsD [OF assms(1) w _ x] by simp
  qed
next
  case (Cons c later)
  obtain change E' where c: "c = (change, E')" by fastforce
  show ?case
    unfolding conforms_def wait_until.simps [of poll timeout E "c # later"]
  proof (intro allI impI)
    fix w w' :: world and r
    assume w: "well (w_db w)" and res: "(case poll E w of (Inl e, w1) \<Rightarrow> (Inl e, w1) | (Inr (Some a), w1) \<Rightarrow> (Inr a, w1)
      | (Inr None, w1) \<Rightarrow> (case c # later of [] \<Rightarrow> (timeout, w1) | (change, E') # rest \<Rightarrow> wait_until poll timeout E' rest (change w1))) = (r, w')"
    obtain x w1 where x: "poll E w = (x, w1)" by fastforce
    note first = conformsD(1,2) [OF assms(1) w TrueI x]
    have next_w: "well (w_db (change w1))" "follows (w_db w1) (w_db (change w1))" using Cons.prems first(1) c by (auto simp: lawful_def)
    have "w' = w1 \<or> wait_until poll timeout E' later (change w1) = (r, w')"
      using res x c by (auto split: sum.splits option.splits)
    then show "well (w_db w') \<and> follows (w_db w) (w_db w') \<and> (\<forall>a. r = Inr a \<longrightarrow> True)"
    proof
      assume "wait_until poll timeout E' later (change w1) = (r, w')"
      from conformsD(1,2) [OF Cons.IH next_w(1) TrueI this] Cons.prems
      show ?thesis using follows_trans [OF first(2) follows_trans [OF next_w(2)]] by simp
    qed (use first in simp)
  qed
qed


lemma poll_consult_conforms: "conforms (\<lambda>_. True) (poll_consult ctx) (\<lambda>_ _. True)"
proof -
  let ?take = "\<lambda>response. tbind (on_db (run_tx (task_restore_consultation_in_transaction (x_task_id ctx)))) (\<lambda>restored.
           tbind (on_files (clear_consult_response_for_run_dir (x_run_dir ctx))) (\<lambda>_.
           tbind (on_files (clear_consult_request_for_run_dir (x_run_dir ctx))) (\<lambda>_.
             tool_ret (Some (trim response)))))"
  have take: "conforms (\<lambda>_. True) (?take response) (\<lambda>_ _. True)" for response
    by (intro conforms_bind [OF restore_consultation_moves] conforms_finish quiet_tools)
  show ?thesis
    unfolding conforms_def
  proof (intro allI impI)
    fix w w' :: world and r assume w: "well (w_db w)" "poll_consult ctx w = (r, w')"
    then have "w' = w \<or> (\<exists>response. ?take response w = (r, w'))" by (auto simp: poll_consult_def split: sum.splits if_splits)
    then show "well (w_db w') \<and> follows (w_db w) (w_db w') \<and> (\<forall>a. r = Inr a \<longrightarrow> True)"
      using w(1) conformsD(1,2) [OF take w(1) TrueI] by auto
  qed
qed

lemma wait_for_consult_conforms:
  assumes "\<forall>x\<in>set later. lawful (fst x)"
  shows "conforms (\<lambda>_. True) (wait_for_consult E agent later) (\<lambda>_ _. True)"
proof -
  have wait: "conforms P (wait_until (\<lambda>_. poll_consult ctx) timeout E later) (\<lambda>_ _. True)" for P ctx timeout
    by (rule conforms_weaken [OF wait_until_conforms [OF poll_consult_conforms assms]]) simp_all
  show ?thesis
    unfolding wait_for_consult_def
    by (intro conforms_context conforms_check conforms_guard conforms_wrong conforms_steps wait)
qed

lemma poll_answer_conforms: "conforms (\<lambda>_. True) (poll_answer ctx) (\<lambda>_ _. True)"
proof -
  let ?take = "\<lambda>ans. tbind (on_db (run_tx (task_restore_human_in_transaction (x_task_id ctx)))) (\<lambda>restored.
           tbind (on_files (clear_answer_for_run_dir (x_run_dir ctx))) (\<lambda>_.
           tbind (on_files (clear_question_for_run_dir (x_run_dir ctx))) (\<lambda>_.
             tool_ret (Some (JObj [(''status'', JStr ''answered''), (''answer'', JStr (trim ans)),
               (''resumed_state'', JStr (case restored of
                  HumanRestored status \<Rightarrow> status | NotAwaitingHuman \<Rightarrow> x_status ctx))])))))"
  have take: "conforms (\<lambda>_. True) (?take ans) (\<lambda>_ _. True)" for ans
    by (intro conforms_bind [OF restore_human_moves] conforms_finish quiet_tools)
  show ?thesis
    unfolding conforms_def
  proof (intro allI impI)
    fix w w' :: world and r assume w: "well (w_db w)" "poll_answer ctx w = (r, w')"
    then have "w' = w \<or> (\<exists>ans. ?take ans w = (r, w'))" by (auto simp: poll_answer_def split: sum.splits if_splits)
    then show "well (w_db w') \<and> follows (w_db w) (w_db w') \<and> (\<forall>a. r = Inr a \<longrightarrow> True)"
      using w(1) conformsD(1,2) [OF take w(1) TrueI] by auto
  qed
qed

lemma quiet_waiter [quiet_tools]: "quiet_tool (ensure_scoped_answer_waiter E ctx agent)"
  using quiet_lease [of E agent] by (auto simp: quiet_tool_def ensure_scoped_answer_waiter_def split: option.split)

lemma wait_for_answer_conforms:
  assumes "\<forall>x\<in>set later. lawful (fst x)"
  shows "conforms (\<lambda>_. True) (wait_for_answer E agent later) (\<lambda>_ _. True)"
proof -
  have wait: "conforms P (wait_until (\<lambda>_. poll_answer ctx) timeout E later) (\<lambda>_ _. True)" for P ctx timeout
    by (rule conforms_weaken [OF wait_until_conforms [OF poll_answer_conforms assms]]) simp_all
  show ?thesis
    unfolding wait_for_answer_def
    by (intro conforms_context conforms_check conforms_guard conforms_wrong conforms_after [OF quiet_waiter stable_at] wait)
qed

lemma quiet_answer_in_world: "quiet_tool (record_answer_in_world q response)"
  unfolding quiet_tool_def
proof (intro allI impI)
  fix w :: world assume w: "well (w_db w)"
  obtain r d1 where r: "record_task_human_answer (hq_task_id q) (w_db w) = (r, d1)" by fastforce
  obtain written c1 where f: "write_answer_for_run_dir (hq_run_dir q) response (w_files w) = (written, c1)" by fastforce
  obtain x d2 where x: "record_scoped_human_answer (hq_task_id q) written (w_db w) = (x, d2)" by fastforce
  have "r = Inl e \<Longrightarrow> d1 = w_db w" for e using r by (auto simp: record_task_human_answer_def run_tx_def split: sum.splits)
  then show "well (w_db (snd (record_answer_in_world q response w))) \<and> quiet (w_db w) (w_db (snd (record_answer_in_world q response w)))"
    using w human_answer.keeps [OF w x] by (cases r) (simp_all add: record_answer_in_world_def r f x)
qed

lemma answer_conforms: "conforms (\<lambda>_. True) (answer response) (\<lambda>_ _. True)"
proof (rule conforms_finish)
  have "quiet_tool (tbind (record_answer_in_world q response) (\<lambda>_. tool_ret (answered_message q)))" for q
    by (intro quiet_tool_bind quiet_answer_in_world quiet_tools)
  then show "quiet_tool (answer response)"
    by (auto simp: quiet_tool_def answer_def tool_res_def split: list.split)
qed

lemma ask_human_conforms: "conforms (\<lambda>_. True) (ask_human E agent question) (\<lambda>_ _. True)"
  unfolding ask_human_def
proof (rule conforms_context, goal_cases)
  case (1 ctx p)
  have guard: "quiet_tool (ensure_can_ask_human E ctx agent)"
    unfolding ensure_can_ask_human_def by (simp add: quiet_tool_still quiet_lease)
  show ?case
  proof (cases "can_ask_from_context ctx")
    case False
    then show ?thesis by (simp add: ensure_can_ask_human_def wrong_state_def conforms_def tbind_def tool_res_def)
  next
    case True
    then obtain s where s: "x_status ctx = as_str s" "s \<in> {Executing, Addressing, Consultation, Reviewing}"
      by (auto simp: can_ask_from_context_def context_status_def from_str_iff split: sum.splits)
    have "\<exists>paused v. human_pause_context ctx = Inr (s, paused) \<and> base_phase s (map_option as_str paused) = Some p \<and>
        p \<in> {Working v, Consulting v, UnderReview}"
      using s 1 by (auto simp: human_pause_context_def context_status_def described_def phase_simps base_phase_def work_of_Some)
    then obtain paused v where q: "human_pause_context ctx = Inr (s, paused)" "base_phase s (map_option as_str paused) = Some p"
      "p \<in> {Working v, Consulting v, UnderReview}" by blast
    show ?thesis
      unfolding q(1) tbind_ret prod.case
      by (intro conforms_after [OF guard stable_at] conforms_steps conforms_bind [OF question_moves [OF q(2,3)]] conforms_ret)
  qed
qed


lemma respond_consult_conforms: "conforms (\<lambda>_. True) (respond_consult E staged agent response) (\<lambda>_ _. True)"
proof (rule conforms_finish)
  let ?find = "\<lambda>w. case runtime_task_context_for_agent_best_effort agent (w_db w) of
                 Some context \<Rightarrow> (Inr (Some context), w)
               | None \<Rightarrow>
                   (case on_db (run_tx (attach_running_run_to_next_consultation (e_ts E) agent)) w of
                      (Inl e, w1) \<Rightarrow> (Inr None, w1)
                    | (Inr context, w1) \<Rightarrow> (Inr context, w1))"
  have find: "quiet_tool ?find"
    unfolding quiet_tool_def
  proof (intro allI impI)
    fix w :: world assume w: "well (w_db w)"
    obtain r w1 where r: "on_db (run_tx (attach_running_run_to_next_consultation (e_ts E) agent)) w = (r, w1)" by fastforce
    then have "well (w_db w1)" "quiet (w_db w) (w_db w1)"
      using quiet_operations(4) [of "e_ts E" agent, unfolded quiet_tool_def, rule_format, OF w] by simp_all
    then show "well (w_db (snd (?find w))) \<and> quiet (w_db w) (w_db (snd (?find w)))"
      using w by (cases r) (simp_all add: r split: option.split)
  qed
  show "quiet_tool (respond_consult E staged agent response)"
    unfolding respond_consult_def respond_consult_run_for_context_def
    by (auto intro!: quiet_tools find split: option.split)
qed


section \<open>Queues\<close>

lemma claim_ready_conforms: "conforms (\<lambda>_. True) (claim_ready_task E agent) (\<lambda>_ _. True)"
  unfolding claim_ready_task_def claim_ready_task_by_id_def claim_next_ready_task_def
  by (cases "runtime_task_id E") (auto intro!: conforms_bind [OF claim_by_id_moves] conforms_bind [OF claim_next_moves] conforms_ret)

lemma claim_review_conforms: "conforms (\<lambda>_. True) (claim_review_task E agent) (\<lambda>_ _. True)"
  unfolding claim_review_task_def claim_review_task_by_id_def claim_next_review_task_def
  by (cases "runtime_task_id E") (auto intro!: conforms_bind [OF claim_by_id_moves] conforms_bind [OF claim_next_moves] conforms_ret)

lemma quiet_attach [quiet_tools]: "quiet_tool (attach_best_effort E agent claim)"
  unfolding attach_best_effort_def by (intro quiet_tools)

lemma poll_task_conforms: "conforms (\<lambda>_. True) (poll_task E agent) (\<lambda>_ _. True)"
  unfolding poll_task_def
  by (rule conforms_bind [OF claim_ready_conforms], rule conforms_finish) (auto intro!: quiet_tools split: option.split)

lemma poll_review_conforms: "conforms (\<lambda>_. True) (poll_review E agent) (\<lambda>_ _. True)"
  unfolding poll_review_def
  by (rule conforms_bind [OF claim_review_conforms], rule conforms_finish) (auto intro!: quiet_tools split: option.split)

lemma poll_consultation_conforms: "conforms (\<lambda>_. True) (poll_consultation E agent) (\<lambda>_ _. True)"
proof (rule conforms_finish)
  have read: "quiet_tool (\<lambda>w. (f w, w))" for f by (simp add: quiet_tool_def)
  have attach: "quiet_tool (on_db (run_tx (case runtime_task_id E of
        Some tid \<Rightarrow> attach_running_run_to_consultation (e_ts E) tid agent
      | None \<Rightarrow> attach_running_run_to_next_consultation (e_ts E) agent)))"
    by (cases "runtime_task_id E") (auto intro: quiet_tools)
  show "quiet_tool (poll_consultation E agent)"
    unfolding poll_consultation_def Let_def
    by (rule quiet_tool_bind [OF attach]) (auto intro!: quiet_tools read split: option.split)
qed

lemma waits_conform:
  assumes "\<forall>x\<in>set later. lawful (fst x)"
  shows "conforms (\<lambda>_. True) (wait_for_task E agent later) (\<lambda>_ _. True)"
    and "conforms (\<lambda>_. True) (wait_for_review E agent later) (\<lambda>_ _. True)"
    and "conforms (\<lambda>_. True) (wait_for_consultation E agent later) (\<lambda>_ _. True)"
  unfolding wait_for_task_def wait_for_review_def wait_for_consultation_def
  by (intro wait_until_conforms poll_task_conforms poll_review_conforms poll_consultation_conforms assms)+

lemma heartbeat_conforms: "conforms (\<lambda>_. True) (heartbeat E agent) (\<lambda>_ _. True)"
proof (rule conforms_finish)
  let ?renew = "on_db (renew_claimed_task_lease (e_chrono E) (e_now E) agent (cfg_ttl_secs (e_config E)))"
  have "snd (heartbeat E agent w) = snd (?renew w)" for w
    by (cases "?renew w") (auto simp: heartbeat_def split: sum.split LeaseRenewal.split)
  then show "quiet_tool (heartbeat E agent)"
    using quiet_operations(2) unfolding quiet_tool_def by simp
qed

lemma create_task_conforms: "conforms (\<lambda>_. True) (create_task names description) (\<lambda>_ _. True)"
  unfolding create_task_def
  by (intro conforms_guard conforms_fail conforms_bind [OF create_pending_conforms]) (intro conforms_finish quiet_tools)

lemma enqueue_task_conforms: "conforms (\<lambda>_. True) (enqueue_task names description spec milestone) (\<lambda>_ _. True)"
  unfolding enqueue_task_def Let_def
  by (intro conforms_guard conforms_fail conforms_after [OF quiet_tool_still(3) stable_True] conforms_bind [OF create_pending_conforms])
     (intro conforms_finish quiet_tools)

lemma reset_conforms: "conforms (\<lambda>_. True) (reset agent) (\<lambda>_ _. True)"
  unfolding reset_def reset_runtime_task_def
proof (rule conforms_context, rule conforms_check, rule conforms_guard [OF conforms_fail], goal_cases)
  case (1 ctx p s)
  then have "p = Broken" using described_failed by simp
  then show ?case by (auto intro!: conforms_bind [OF reset_moves]) (intro conforms_finish quiet_tools)
qed



section \<open>Views\<close>

text \<open>What the model asks of the world around the gate: identifiers and digests are well formed, as their
  constructors check, and while a view is indexed other processes move no task.\<close>

definition site_ok :: "site \<Rightarrow> bool" where
  "site_ok H =
    ((\<forall>tid baseline overlay snapshot. h_index H tid baseline = Indexed overlay snapshot \<longrightarrow> overlay \<noteq> [] \<and> snapshot \<noteq> []) \<and>
     (\<forall>tree. h_capture H = Inr tree \<longrightarrow> digest_ok tree) \<and>
     (\<forall>d. well d \<longrightarrow> well (h_meanwhile H d) \<and> quiet d (h_meanwhile H d)))"

definition yields :: "'a tool \<Rightarrow> ('a \<Rightarrow> bool) \<Rightarrow> bool" where
  "yields m S = (\<forall>w a w'. m w = (Inr a, w') \<longrightarrow> S a)"

lemma yields_bind: "yields m S \<Longrightarrow> (\<And>a. S a \<Longrightarrow> yields (f a) T) \<Longrightarrow> yields (tbind m f) T"
  unfolding yields_def tbind_def by (fastforce split: prod.splits sum.splits)

lemma yields_any: "yields m (\<lambda>_. True)"
  by (simp add: yields_def)

lemma yields_ret [simp]: "yields (tool_ret a) S \<longleftrightarrow> S a" "yields (tool_res (Inl e)) S" "yields (tool_res r) (\<lambda>a. r = Inr a)"
  by (simp_all add: yields_def tool_ret_def tool_res_def)

lemma yields_read: "(\<And>d a. f d = Inr a \<Longrightarrow> S a) \<Longrightarrow> yields (read_db f) S"
  by (auto simp: yields_def read_db_def)

lemma quiet_tool_given:
  assumes "quiet_tool m" "yields m S" "\<And>a. S a \<Longrightarrow> quiet_tool (f a)"
  shows "quiet_tool (tbind m f)"
  unfolding quiet_tool_def
proof (intro allI impI)
  fix w :: world assume w: "well (w_db w)"
  obtain r w1 where r: "m w = (r, w1)" by fastforce
  then have 1: "well (w_db w1)" "quiet (w_db w) (w_db w1)" using assms(1) w by (metis quiet_tool_def snd_conv)+
  show "well (w_db (snd (tbind m f w))) \<and> quiet (w_db w) (w_db (snd (tbind m f w)))"
  proof (cases r)
    case (Inr a)
    then have "quiet_tool (f a)" using assms(2,3) r by (auto simp: yields_def)
    then show ?thesis using 1 r Inr quiet_trans by (auto simp: tbind_def quiet_tool_def)
  qed (use 1 r in \<open>simp add: tbind_def\<close>)
qed

text \<open>A tool that moves no task and whose result, if any, is \<open>S\<close>.\<close>

definition gives :: "'a tool \<Rightarrow> ('a \<Rightarrow> bool) \<Rightarrow> bool" where
  "gives m S = (quiet_tool m \<and> yields m S)"

lemma gives_bind: "gives m S \<Longrightarrow> (\<And>a. S a \<Longrightarrow> gives (f a) T) \<Longrightarrow> gives (tbind m f) T"
  using quiet_tool_given yields_bind by (simp add: gives_def) blast

lemma gives_ret: "S a \<Longrightarrow> gives (tool_ret a) S" "gives (tool_res (Inl e)) S" "gives (tool_res r) (\<lambda>a. r = Inr a)"
  by (simp_all add: gives_def quiet_tools)

lemma gives_any: "quiet_tool m \<Longrightarrow> gives m (\<lambda>_. True)"
  by (simp add: gives_def yields_any)

lemma owner_view_ids: "owner_repository_view_at Tasks tid d = Inr (Some v) \<Longrightarrow> view_ids_ok v"
  by (cases "find_task tid d") (auto simp: owner_repository_view_at_def res_bind_Inr_iff dest: view_decodeD)

lemma gives_current [intro]: "gives (current_view tid) view_ids_ok"
  unfolding current_view_def gives_def
proof (intro conjI quiet_tools yields_read)
  fix d a assume "res_bind (owner_repository_view_at Tasks tid d) (\<lambda>view. case view of
      None \<Rightarrow> Inl (Bail ''task repository view disappeared during refresh'') | Some v \<Rightarrow> Inr v) = Inr a"
  then have "owner_repository_view_at Tasks tid d = Inr (Some a)" by (auto simp: res_bind_Inr_iff split: option.splits)
  then show "view_ids_ok a" by (rule owner_view_ids)
qed

lemma gives_mark_stale:
  assumes "view_ids_ok existing"
  shows "gives (mark_stale tid existing e) view_ids_ok"
proof -
  have "view_ids_ok ((mutable_successor existing) \<lparr> view_status := Stale \<rparr>)"
    using assms by (simp add: view_ids_ok_def mutable_successor_def)
  then show ?thesis
    unfolding mark_stale_def
    by (intro gives_bind [OF gives_any [OF quiet_operations(6)]]) (auto intro: gives_ret)
qed

lemma gives_refreshed:
  assumes "\<And>v. refreshed = Inr v \<Longrightarrow> view_ids_ok v"
  shows "gives (record_refreshed tid existing refreshed) view_ids_ok"
  unfolding record_refreshed_def
  using assms by (intro gives_bind [OF gives_ret(3)] gives_bind [OF gives_any [OF quiet_operations(6)]]) (auto intro: gives_ret)

lemma gives_refresh_with_context:
  assumes H: "site_ok H" and v: "view_ids_ok existing"
  shows "gives (refresh_task_overlay_with_context H tid tree existing enabled) view_ids_ok"
proof -
  have meanwhile: "quiet_tool (on_db (\<lambda>d. (Inr (), h_meanwhile H d)))"
    using H by (simp add: site_ok_def quiet_tool_def on_db_def)
  have index: "gives (case h_index H tid baseline of
             Indexed overlay snapshot \<Rightarrow> record_refreshed tid existing (materialized baseline (Some overlay) snapshot Available)
           | Unchanged \<Rightarrow> record_refreshed tid existing (materialized baseline None baseline Available)
           | Busy \<Rightarrow> tool_res (Inl (Bail ''refresh already in progress''))
           | IndexFailed e \<Rightarrow> mark_stale tid existing e) view_ids_ok" if "baseline \<noteq> []" for baseline
    using H that
    by (auto simp: site_ok_def materialized_def view_ids_ok_def intro!: gives_refreshed gives_ret(2) gives_mark_stale [OF v]
        split: indexing.split)
  show ?thesis
    using v
    by (auto simp: refresh_task_overlay_with_context_def view_ids_ok_def
        intro!: gives_ret(1,2) gives_bind [OF gives_any [OF quiet_tool_still(2)]] gives_bind [OF gives_any [OF meanwhile]] index
        split: option.split)
qed

lemma gives_refresh:
  assumes "site_ok H"
  shows "gives (refresh_task_overlay H tid tree) view_ids_ok"
  unfolding refresh_task_overlay_def
proof (rule gives_bind)
  show "gives (read_db (owner_repository_view_at Tasks tid)) (\<lambda>v. \<forall>x. v = Some x \<longrightarrow> view_ids_ok x)"
    by (auto simp: gives_def intro!: quiet_tools yields_read intro: owner_view_ids)
qed (auto intro!: gives_ret(2) gives_bind [OF gives_any [OF quiet_tool_still(2)]] gives_refresh_with_context [OF assms]
    split: option.split)


lemma quiet_refresh_best_effort:
  "site_ok H \<Longrightarrow> quiet_tool (refresh_task_overlay_best_effort_for_context H ctx)"
  using gives_refresh
  by (auto simp: refresh_task_overlay_best_effort_for_context_def gives_def intro!: quiet_tools split: option.split)

text \<open>The freeze of the submitted view.\<close>

definition freeze_ok :: "RepositoryViewFreeze \<Rightarrow> bool" where
  "freeze_ok freeze = (\<forall>v. freeze = Frozen v \<longrightarrow> view_ids_ok v)"

lemma freeze_ok_simps [simp]: "freeze_ok NotAttempted" "freeze_ok FreezeFailed" "freeze_ok (Frozen v) \<longleftrightarrow> view_ids_ok v"
  by (simp_all add: freeze_ok_def)

lemma quiet_pins [quiet_tools]: "quiet_tool (pin_submitted_tree H tid tree)" "quiet_tool (release_submitted_tree_pin H tid)"
  by (simp_all add: quiet_tool_def pin_submitted_tree_def release_submitted_tree_pin_def split: sum.split)

lemma quiet_release_for_task [quiet_tools]: "quiet_tool (release_submitted_tree_pin_for_task_best_effort H tid)"
  unfolding release_submitted_tree_pin_for_task_best_effort_def by (intro quiet_tools)

lemma gives_or_failed:
  assumes "gives m S" "\<And>a. S a \<Longrightarrow> gives (f a) freeze_ok"
  shows "gives (or_failed m f) freeze_ok"
  unfolding gives_def
proof
  have m: "quiet_tool m" "yields m S" using assms(1) by (simp_all add: gives_def)
  show "yields (or_failed m f) freeze_ok"
    unfolding yields_def
  proof (intro allI impI)
    fix w a w' assume res: "or_failed m f w = (Inr a, w')"
    obtain r w1 where r: "m w = (r, w1)" by fastforce
    show "freeze_ok a"
    proof (cases r)
      case (Inr b)
      then have "S b" using m(2) r by (auto simp: yields_def)
      then have "yields (f b) freeze_ok" using assms(2) by (simp add: gives_def)
      then show ?thesis using res r Inr by (auto simp: or_failed_def yields_def)
    qed (use res r in \<open>auto simp: or_failed_def\<close>)
  qed
  show "quiet_tool (or_failed m f)"
    unfolding quiet_tool_def
  proof (intro allI impI)
    fix w :: world assume w: "well (w_db w)"
    obtain r w1 where r: "m w = (r, w1)" by fastforce
    then have 1: "well (w_db w1)" "quiet (w_db w) (w_db w1)" using m(1) w by (metis quiet_tool_def snd_conv)+
    show "well (w_db (snd (or_failed m f w))) \<and> quiet (w_db w) (w_db (snd (or_failed m f w)))"
    proof (cases r)
      case (Inr a)
      then have "S a" using m(2) r by (auto simp: yields_def)
      then have "quiet_tool (f a)" using assms(2) by (simp add: gives_def)
      then show ?thesis using 1 r Inr quiet_trans by (auto simp: or_failed_def quiet_tool_def)
    qed (use 1 r in \<open>simp add: or_failed_def\<close>)
  qed
qed

lemma gives_capture:
  assumes "site_ok H"
  shows "gives (capture_matching_submitted_tree H tid snapshot) digest_ok"
  unfolding capture_matching_submitted_tree_def
proof (rule gives_bind [OF gives_ret(3)])
  fix tree assume "h_capture H = Inr tree"
  then have "digest_ok tree" using assms by (simp add: site_ok_def)
  moreover have "gives (tbind (release_submitted_tree_pin H tid) (\<lambda>_. tool_res (Inl e))) S" for e :: err and S :: "Digest \<Rightarrow> bool"
    by (rule gives_bind [OF gives_any [OF quiet_pins(2)] gives_ret(2)])
  ultimately show "gives (tbind (pin_submitted_tree H tid tree) (\<lambda>_. case h_matches H tree snapshot of
        Inr True \<Rightarrow> tool_ret tree
      | Inr False \<Rightarrow> tbind (release_submitted_tree_pin H tid) (\<lambda>_.
          tool_res (Inl (Bail ''submitted source tree does not match the indexed task view'')))
      | Inl e \<Rightarrow> tbind (release_submitted_tree_pin H tid) (\<lambda>_. tool_res (Inl e)))) digest_ok"
    by (intro gives_bind [OF gives_any [OF quiet_pins(1)]]) (auto intro: gives_ret(1) split: sum.split bool.split)
qed

lemma frozen_ids: "frozen v tree = Inr u \<Longrightarrow> view_ids_ok v \<Longrightarrow> digest_ok tree \<Longrightarrow> view_ids_ok u"
  by (auto simp: frozen_def view_ids_ok_def split: if_splits)

lemma gives_freeze:
  assumes "site_ok H"
  shows "gives (prepare_submitted_repository_view H ctx) freeze_ok"
proof -
  have failed: "gives (tbind (release_submitted_tree_pin_for_task_best_effort H tid) (\<lambda>_. tool_ret FreezeFailed)) freeze_ok" for tid
    by (rule gives_bind [OF gives_any [OF quiet_release_for_task]]) (simp add: gives_ret)
  have freeze: "gives (case frozen v tree of Inr view \<Rightarrow> tool_ret (Frozen view)
     | Inl _ \<Rightarrow> tbind (release_submitted_tree_pin_for_task_best_effort H tid) (\<lambda>_. tool_ret FreezeFailed)) freeze_ok"
    if "view_ids_ok v" "digest_ok tree" for v tree tid
    using failed frozen_ids [OF _ that] by (auto intro: gives_ret split: sum.split)
  have still: "gives (tool_res r) (\<lambda>_. True)" for r :: "'a res" by (rule gives_any [OF quiet_tool_still(2)])
  show ?thesis
    unfolding prepare_submitted_repository_view_def
    by (auto intro!: gives_ret(1) gives_or_failed [OF still] gives_or_failed [OF gives_refresh [OF assms]]
        gives_or_failed [OF gives_capture [OF assms]] freeze split: option.split)
qed



section \<open>The gate and the review\<close>

lemma gate_failed_conforms:
  "conforms (at (x_task_id ctx) (Working v)) (gate_failed E ctx failure fe le ft lt) (\<lambda>_ _. True)"
  unfolding gate_failed_def Let_def
  by (rule conforms_bind [OF check_failed_moves], rule conforms_finish) (auto intro!: quiet_tools split: TaskCheckFailure.split)

lemma check_tool_conforms:
  assumes "site_ok H"
  shows "conforms (\<lambda>_. True) (check_tool H E agent) (\<lambda>_ _. True)"
  unfolding check_tool_def
proof (rule conforms_context, rule conforms_check, rule conforms_guard [OF conforms_wrong], goal_cases)
  case (1 ctx p s)
  then obtain v where p: "p = Working v" using described_working by fastforce
  have gate: "quiet_tool (run_gate H E ctx)" unfolding run_gate_def by (auto intro: quiet_tools split: prod.split)
  show ?case
    unfolding p
  proof (intro conforms_steps conforms_guard, goal_cases)
    case 1
    show ?case by (intro conforms_finish quiet_tools quiet_refresh_best_effort assms)
  next
    case 2
    show ?case
      by (intro conforms_after [OF gate stable_at] conforms_after [OF quiet_refresh_best_effort [OF assms] stable_at])
         (auto intro!: gate_failed_conforms conforms_finish quiet_tools split: CheckGateResult.split)
  qed
qed

lemma persist_conforms:
  assumes "freeze_ok freeze"
  shows "conforms (at (x_task_id ctx) (Working v)) (persist_submission H ctx content freeze passed digest) (\<lambda>_ _. True)"
proof -
  let ?m = "tbind (db_step (task_check_passed_in_transaction (x_task_id ctx))) (\<lambda>_.
          tbind (write_submission ctx content) (\<lambda>_.
          tbind (write_submission_patch H ctx freeze) (\<lambda>_.
            record_submission ctx freeze passed digest)))"
  have files: "quiet_tool (write_submission ctx content)" unfolding write_submission_def by (intro quiet_tools)
  have patch: "quiet_tool (write_submission_patch H ctx freeze)"
    using quiet_tool_bind [OF quiet_tool_still(2), of "\<lambda>patch. on_files (write_patch_for_run_dir (x_run_dir ctx) patch)"
        "submission_patch H ctx freeze"] quiet_tool_still(5) [of "clear_patch_for_run_dir (x_run_dir ctx)"]
    by (simp add: quiet_tool_def write_submission_patch_def quiet_tool_still(5) [unfolded quiet_tool_def])
  have drop: "quiet_tool (drop_pin_cleanup H ctx freeze)"
    unfolding drop_pin_cleanup_def by (auto intro!: quiet_tools split: RepositoryViewFreeze.split option.split)
  have view: "view_ids_ok u" if "(case freeze of Frozen view \<Rightarrow> Some view | _ \<Rightarrow> None) = Some u" for u
    using assms that by (cases freeze) simp_all
  have m: "conforms (at (x_task_id ctx) (Working v)) ?m (\<lambda>_ _. True)"
    unfolding record_submission_def
    by (intro conforms_after [OF quiet_check_passed stable_at] conforms_after [OF files stable_at]
        conforms_after [OF patch stable_at] submitted_moves view)
  show ?thesis
    unfolding conforms_def
  proof (intro allI impI)
    fix w w' :: world and r
    assume w: "well (w_db w)" "at (x_task_id ctx) (Working v) (w_db w)" and res: "persist_submission H ctx content freeze passed digest w = (r, w')"
    obtain x w1 where x: "?m w = (x, w1)" by fastforce
    note step = conformsD(1,2) [OF m w x]
    have "well (w_db (snd (drop_pin_cleanup H ctx freeze w1)))" "quiet (w_db w1) (w_db (snd (drop_pin_cleanup H ctx freeze w1)))"
      using drop step(1) by (simp_all add: quiet_tool_def)
    moreover have "w' = w1 \<or> w' = snd (drop_pin_cleanup H ctx freeze w1)"
      using res by (cases x) (simp_all add: persist_submission_def x)
    ultimately show "well (w_db w') \<and> follows (w_db w) (w_db w') \<and> (\<forall>a. r = Inr a \<longrightarrow> True)"
      using step follows_trans [OF step(2) quiet_follows] by auto
  qed
qed

lemma conforms_given:
  assumes "gives m S" "stable P" "\<And>a. S a \<Longrightarrow> conforms P (f a) Q"
  shows "conforms P (tbind m f) Q"
proof (rule conforms_bind)
  show "conforms P m (\<lambda>a d. S a \<and> P d)"
    unfolding conforms_def
  proof (intro allI impI)
    fix w w' :: world and r assume w: "well (w_db w)" "P (w_db w)" "m w = (r, w')"
    have "conforms P m (\<lambda>_. P)" by (rule conforms_quiet) (use assms in \<open>simp_all add: gives_def\<close>)
    note step = conformsD [OF this w]
    have "S a" if "r = Inr a" for a using assms(1) w(3) that unfolding gives_def yields_def by blast
    then show "well (w_db w') \<and> follows (w_db w) (w_db w') \<and> (\<forall>a. r = Inr a \<longrightarrow> S a \<and> P (w_db w'))"
      using step by simp
  qed
  show "conforms (\<lambda>d. S a \<and> P d) (f a) Q" for a
    using assms(3) [of a] by (cases "S a") (simp_all add: conforms_def)
qed

lemma submit_passed_conforms:
  assumes "site_ok H"
  shows "conforms (at (x_task_id ctx) (Working v)) (submit_passed H ctx content passed digest reply) (\<lambda>_ _. True)"
  unfolding submit_passed_def
  by (rule conforms_given [OF gives_freeze [OF assms] stable_at], rule conforms_bind [OF persist_conforms], assumption,
      rule conforms_finish) (intro quiet_tools)

lemma submit_conforms:
  assumes "site_ok H"
  shows "conforms (\<lambda>_. True) (submit H E agent content) (\<lambda>_ _. True)"
  unfolding submit_def
proof (rule conforms_check, rule conforms_context, rule conforms_check, rule conforms_guard [OF conforms_wrong], goal_cases)
  case (1 digest ctx p s)
  then obtain v where p: "p = Working v" using described_working by fastforce
  have gate: "quiet_tool (run_gate H E ctx)" unfolding run_gate_def by (auto intro: quiet_tools split: prod.split)
  show ?case
    unfolding p
    by (intro conforms_steps conforms_guard submit_passed_conforms assms conforms_after [OF gate stable_at])
       (auto intro!: gate_failed_conforms submit_passed_conforms [OF assms] split: CheckGateResult.split)
qed

lemma review_pending_conforms: "conforms (\<lambda>_. True) (review_pending E agent) (\<lambda>_ _. True)"
  unfolding review_pending_def by (rule conforms_finish) (auto intro!: quiet_tools)

lemma reject_conforms: "conforms (\<lambda>_. True) (reject H E agent notes) (\<lambda>_ _. True)"
  unfolding reject_def reject_run_for_context_def Let_def
proof (rule conforms_context, rule conforms_check, rule conforms_guard [OF conforms_wrong], goal_cases)
  case (1 ctx p s)
  then have p: "p = UnderReview" using described_reviewing by simp
  show ?case
    unfolding p
    by (intro conforms_steps conforms_bind [OF rejected_moves], rule conforms_finish)
       (auto intro!: quiet_tools split: TaskReviewRejection.split)
qed

end
