(* ===== verification/Specs.thy ===== *)
theory Specs
  imports Patches
begin

text \<open>
  Specifications, \<open>src/src/specs.rs\<close>: the milestones of a specification file, which of them are ready, and the two
  edits the program makes to the file, marking a milestone as completed and writing the outcome section.

  A specification is Markdown; a milestone is a checkbox line whose text starts with a hash, followed by the fields
  of the milestone up to the next such line.
\<close>

section \<open>Strings\<close>

definition trim_end :: "string \<Rightarrow> string" where
  "trim_end s = rev (trim_rev (rev s))"

text \<open>\<open>str::split_once\<close>.\<close>

fun split_once :: "string \<Rightarrow> string \<Rightarrow> (string \<times> string) option" where
  "split_once pat [] = (if pat = [] then Some ([], []) else None)"
| "split_once pat (c # s) =
    (if has_prefix pat (c # s) then Some ([], drop (length pat) (c # s))
     else map_option (\<lambda>(a, b). (c # a, b)) (split_once pat s))"

text \<open>The number of bytes of the white space character at the beginning, or 0.\<close>

fun ws_width :: "string \<Rightarrow> nat" where
  "ws_width [] = 0"
| "ws_width [a] = (if ws1 (byte_val a) then 1 else 0)"
| "ws_width [a, b] = (if ws1 (byte_val a) then 1 else if ws2 (byte_val a) (byte_val b) then 2 else 0)"
| "ws_width (a # b # c # s) =
    (if ws1 (byte_val a) then 1 else if ws2 (byte_val a) (byte_val b) then 2
     else if ws3 (byte_val a) (byte_val b) (byte_val c) then 3 else 0)"

text \<open>\<open>splitn(2, char::is_whitespace)\<close>: the text before the first white space, and the rest if there is one.\<close>

fun split_whitespace_once :: "string \<Rightarrow> string \<times> string option" where
  "split_whitespace_once [] = ([], None)"
| "split_whitespace_once (c # s) =
    (if ws_width (c # s) \<noteq> 0 then ([], Some (drop (ws_width (c # s)) (c # s)))
     else case split_whitespace_once s of (a, b) \<Rightarrow> (c # a, b))"

definition ascii_lower :: "char \<Rightarrow> char" where
  "ascii_lower c = (if 65 \<le> byte_val c \<and> byte_val c \<le> 90 then char_of (byte_val c + 32) else c)"

definition to_ascii_lowercase :: "string \<Rightarrow> string" where
  "to_ascii_lowercase s = map ascii_lower s"


section \<open>Milestones\<close>

record Milestone =
  ms_marker :: string
  ms_id :: string
  ms_title :: string
  ms_depends_on :: string
  ms_completed :: bool
  ms_line_index :: nat

definition display_title :: "Milestone \<Rightarrow> string" where
  "display_title m = ms_marker m @ '' '' @ ms_title m"

record SpecDocument =
  sd_path :: string
  sd_milestones :: "Milestone list"
  sd_lines :: "string list"

definition parse_checkbox :: "string \<Rightarrow> bool option" where
  "parse_checkbox mark =
    (if mark = '' '' then Some False else if mark = ''x'' \<or> mark = ''X'' then Some True else None)"

definition parse_milestone_header :: "string \<Rightarrow> (bool \<times> string \<times> string) option" where
  "parse_milestone_header line =
    Option.bind (strip_prefix ''- ['' (trim_start line)) (\<lambda>rest.
    Option.bind (split_once ''] '' rest) (\<lambda>(mark, rest).
    Option.bind (parse_checkbox mark) (\<lambda>completed.
      let rest = trim rest in
      if \<not> has_prefix ''#'' rest then None
      else case split_whitespace_once rest of (first, second) \<Rightarrow>
        let marker = trim first; title = trim (case second of None \<Rightarrow> [] | Some s \<Rightarrow> s) in
        if length marker \<le> 1 \<or> title = [] then None else Some (completed, marker, title))))"

definition parse_child_field :: "string \<Rightarrow> string \<Rightarrow> string option" where
  "parse_child_field line field =
    (let trimmed = trim line;
         trimmed = (case strip_prefix ''- '' trimmed of Some s \<Rightarrow> s | None \<Rightarrow> trimmed) in
     Option.bind (strip_prefix field trimmed) (\<lambda>s. map_option trim (strip_prefix '':'' s)))"

text \<open>The fields of one milestone: the last one of a name counts.\<close>

definition add_field :: "string option \<times> string option \<Rightarrow> string \<Rightarrow> string option \<times> string option" where
  "add_field fs line =
    (case parse_child_field line ''ID'' of
       Some v \<Rightarrow> (Some v, snd fs)
     | None \<Rightarrow>
         (case parse_child_field line ''Depends on'' of Some v \<Rightarrow> (fst fs, Some v) | None \<Rightarrow> fs))"

definition child_fields :: "string list \<Rightarrow> string option \<times> string option" where
  "child_fields ls = foldl add_field (None, None) ls"

definition is_header :: "string \<Rightarrow> bool" where
  "is_header line = (parse_milestone_header line \<noteq> None)"

definition milestone_at :: "nat \<Rightarrow> bool \<times> string \<times> string \<Rightarrow> string option \<times> string option \<Rightarrow> Milestone list" where
  "milestone_at i h fs =
    (case h of (completed, marker, title) \<Rightarrow>
       case fst fs of
         None \<Rightarrow> []
       | Some v \<Rightarrow>
           if v = [] then []
           else [\<lparr> ms_marker = marker, ms_id = v, ms_title = title,
                   ms_depends_on = (case snd fs of Some d \<Rightarrow> d | None \<Rightarrow> ''none''), ms_completed = completed, ms_line_index = i \<rparr>])"

text \<open>The outer loop: \<open>i\<close> is the index of the first of the remaining lines.\<close>

function parse_from :: "nat \<Rightarrow> string list \<Rightarrow> Milestone list" where
  "parse_from i [] = []"
| "parse_from i (l # ls) =
    (case parse_milestone_header l of
       None \<Rightarrow> parse_from (i + 1) ls
     | Some h \<Rightarrow>
         (let body = takeWhile (\<lambda>l. \<not> is_header l) ls in
          milestone_at i h (child_fields body) @ parse_from (i + 1 + length body) (dropWhile (\<lambda>l. \<not> is_header l) ls)))"
  by pat_completeness auto

termination
  by (relation "measure (\<lambda>(i, ls). length ls)") (auto simp: le_imp_less_Suc length_dropWhile_le)

declare parse_from.simps(2) [simp del]

definition parse_spec :: "string \<Rightarrow> string \<Rightarrow> SpecDocument" where
  "parse_spec path content =
    (let lines = map trim_end_newlines (split_inclusive content) in
     \<lparr> sd_path = path, sd_milestones = parse_from 0 lines, sd_lines = lines \<rparr>)"


section \<open>The plan\<close>

datatype MilestoneReadiness = MilestoneReady | MilestonePending | MilestoneDone

definition readiness_as_str :: "MilestoneReadiness \<Rightarrow> string" where
  "readiness_as_str r =
    (case r of MilestoneReady \<Rightarrow> ''ready'' | MilestonePending \<Rightarrow> ''pending'' | MilestoneDone \<Rightarrow> ''done'')"

record MilestonePlanItem =
  pi_milestone :: Milestone
  pi_readiness :: MilestoneReadiness
  pi_blocked_by :: "string list"

definition normalize_ref :: "string \<Rightarrow> string" where
  "normalize_ref value = to_ascii_lowercase (trim value)"

definition milestone_refs :: "Milestone \<Rightarrow> string list" where
  "milestone_refs m =
    [normalize_ref (ms_id m), normalize_ref (ms_marker m)] @
    (case strip_prefix ''#'' (ms_marker m) of Some marker \<Rightarrow> [normalize_ref marker] | None \<Rightarrow> [])"

definition dependency_refs :: "string \<Rightarrow> string list" where
  "dependency_refs depends_on =
    (let depends_on = trim depends_on in
     if depends_on = [] \<or> to_ascii_lowercase depends_on \<in> {''none'', ''n/a'', ''na'', ''-''} then []
     else filter (\<lambda>d. d \<noteq> []) (map trim (split_on (CHR '','') depends_on)))"

definition completed_refs :: "Milestone list \<Rightarrow> string set" where
  "completed_refs ms = set (concat (map milestone_refs (filter ms_completed ms)))"

definition plan_item :: "string set \<Rightarrow> Milestone \<Rightarrow> MilestonePlanItem" where
  "plan_item completed m =
    (if ms_completed m
     then \<lparr> pi_milestone = m, pi_readiness = MilestoneDone, pi_blocked_by = [] \<rparr>
     else
       let blocked_by = filter (\<lambda>d. normalize_ref d \<notin> completed) (dependency_refs (ms_depends_on m)) in
       \<lparr> pi_milestone = m, pi_readiness = (if blocked_by = [] then MilestoneReady else MilestonePending),
         pi_blocked_by = blocked_by \<rparr>)"

definition milestone_plan :: "Milestone list \<Rightarrow> MilestonePlanItem list" where
  "milestone_plan ms = map (plan_item (completed_refs ms)) ms"

definition first_incomplete_milestone_id :: "string \<Rightarrow> string \<Rightarrow> string option" where
  "first_incomplete_milestone_id path content =
    map_option ms_id (find (\<lambda>m. \<not> ms_completed m) (sd_milestones (parse_spec path content)))"


section \<open>Completing a milestone\<close>

text \<open>\<open>str::find\<close> and \<open>String::replace_range\<close>.\<close>

definition mark_line_completed :: "string \<Rightarrow> string" where
  "mark_line_completed line =
    (case split_once ''- [ ]'' line of None \<Rightarrow> line | Some (before, after) \<Rightarrow> before @ ''- [x]'' @ after)"

definition spec_text :: "string list \<Rightarrow> string" where
  "spec_text ls =
    (let content = join_with [newline] ls in
     if content \<noteq> [] \<and> last content = newline then content else content @ [newline])"

definition write_spec_lines :: "string \<Rightarrow> string list \<Rightarrow> checkout \<Rightarrow> unit res \<times> checkout" where
  "write_spec_lines path ls c =
    (case fs_write path (spec_text ls) c of (ok, c') \<Rightarrow> (ensure ok (Bail (''Failed to write spec '' @ path)), c'))"

definition milestone_position :: "string \<Rightarrow> Milestone list \<Rightarrow> nat option" where
  "milestone_position milestone_id ms = find (\<lambda>i. ms_id (ms ! i) = milestone_id) [0..<length ms]"

text \<open>A read that does not succeed is an error even when the file exists.\<close>

definition complete_milestone :: "string \<Rightarrow> string \<Rightarrow> checkout \<Rightarrow> unit res \<times> checkout" where
  "complete_milestone spec_path milestone_id c =
    (case files c spec_path of
       None \<Rightarrow> (Inr (), c)
     | Some content \<Rightarrow>
         if io c (ReadOp spec_path) \<noteq> Done then (Inl (Bail (''Failed to read spec '' @ spec_path)), c)
         else
           let spec = parse_spec spec_path content in
           case milestone_position milestone_id (sd_milestones spec) of
             None \<Rightarrow> (Inr (), c)
           | Some i \<Rightarrow>
               let m = sd_milestones spec ! i; at = ms_line_index m in
               if ms_completed m then (Inr (), c)
               else write_spec_lines spec_path ((sd_lines spec)[at := mark_line_completed (sd_lines spec ! at)]) c)"


section \<open>The outcome section\<close>

definition normalize_outcome_section :: "string \<Rightarrow> string res" where
  "normalize_outcome_section outcome =
    (let outcome = trim outcome in
     if outcome = [] then Inl (Bail ''Cannot archive spec: outcome content is empty.'')
     else if has_prefix ''## Outcome'' outcome then Inr outcome
     else Inr (''## Outcome'' @ [newline, newline] @ outcome))"

definition outcome_lines :: "string \<Rightarrow> string list" where
  "outcome_lines outcome = map (\<lambda>l. l @ [newline]) (str_lines (trim_end outcome)) @ [[newline]]"

definition other_section :: "string \<Rightarrow> bool" where
  "other_section line =
    (has_prefix ''## '' (trim_start line) \<and> trim_end (trim_start line) \<noteq> ''## Outcome'')"

definition outcome_heading :: "string \<Rightarrow> bool" where
  "outcome_heading line = (trim_end line = ''## Outcome'')"

text \<open>The final loop that leaves at most two newlines at the end.\<close>

fun pop_newlines :: "string \<Rightarrow> string" where
  "pop_newlines (a # b # c # s) =
    (if a = newline \<and> b = newline \<and> c = newline then pop_newlines (b # c # s) else a # b # c # s)"
| "pop_newlines s = s"

definition end_with_newline :: "string \<Rightarrow> string" where
  "end_with_newline s = (if s \<noteq> [] \<and> last s = newline then s else s @ [newline])"

definition replace_section :: "string list \<Rightarrow> string list \<Rightarrow> string list" where
  "replace_section outcome ls =
    (let before = takeWhile (\<lambda>l. \<not> outcome_heading l) ls;
         after = dropWhile (\<lambda>l. \<not> other_section l) (tl (dropWhile (\<lambda>l. \<not> outcome_heading l) ls)) in
     before @ outcome @ after)"

definition append_section :: "string list \<Rightarrow> string list \<Rightarrow> string list" where
  "append_section outcome ls =
    (let ls1 = (if ls \<noteq> [] \<and> last ls \<noteq> [] \<and> last (last ls) = newline then ls else ls @ [[newline]]);
         ls2 = (if [newline] \<in> set (takeWhile (\<lambda>l. trim l = []) (rev ls1)) then ls1 else ls1 @ [[newline]]) in
     ls2 @ outcome)"

definition upsert_outcome_section_text :: "string \<Rightarrow> string \<Rightarrow> string" where
  "upsert_outcome_section_text content outcome =
    (let ls = (if split_inclusive content = [] then [[]] else split_inclusive content);
         updated = (if list_ex outcome_heading ls then replace_section (outcome_lines outcome) ls
                    else append_section (outcome_lines outcome) ls) in
     end_with_newline (rev (pop_newlines (rev (concat updated)))))"

definition upsert_outcome_section :: "string \<Rightarrow> string \<Rightarrow> checkout \<Rightarrow> unit res \<times> checkout" where
  "upsert_outcome_section spec_path outcome c =
    (case normalize_outcome_section outcome of
       Inl e \<Rightarrow> (Inl e, c)
     | Inr outcome \<Rightarrow>
         (case files c spec_path of
            None \<Rightarrow> (Inl (Bail (''Failed to read spec '' @ spec_path)), c)
          | Some content \<Rightarrow>
              if io c (ReadOp spec_path) \<noteq> Done then (Inl (Bail (''Failed to read spec '' @ spec_path)), c)
              else case fs_write spec_path (upsert_outcome_section_text content outcome) c of
                (ok, c') \<Rightarrow> (ensure ok (Bail (''Failed to write spec '' @ spec_path)), c')))"


section \<open>Checkbox lines\<close>

lemma trim_start_ws: "trim_start s = (if ws_width s = 0 then s else trim_start (drop (ws_width s) s))"
  by (cases s rule: ws_width.cases) auto

lemma ws_bytes:
  assumes "ws_width s = n" "n \<noteq> 0" "i < n" "i < length s"
  shows "s ! i \<noteq> CHR ''-''"
proof -
  have dash: "byte_val (CHR ''-'') = 45" by code_simp
  show ?thesis
    using assms
    by (cases s rule: ws_width.cases)
       (auto simp: ws1_def ws2_def ws3_def dash nth_Cons split: if_splits nat.splits)
qed

text \<open>What white space is skipped holds no dash.\<close>

lemma trim_start_split: "\<exists>u. s = u @ trim_start s \<and> CHR ''-'' \<notin> set u"
proof (induction "length s" arbitrary: s rule: less_induct)
  case less
  show ?case
  proof (cases "ws_width s = 0")
    case True
    then have "trim_start s = s" using trim_start_ws [of s] by simp
    then show ?thesis by (intro exI [of _ "[]"]) simp
  next
    case False
    let ?n = "ws_width s"
    have "s \<noteq> []" using False by (cases s) auto
    then have "length (drop ?n s) < length s" using False by simp
    then obtain u where u: "drop ?n s = u @ trim_start (drop ?n s)" "CHR ''-'' \<notin> set u" using less by blast
    have "CHR ''-'' \<notin> set (take ?n s)"
      using ws_bytes [OF refl False] by (auto simp: in_set_conv_nth)
    moreover have "trim_start s = trim_start (drop ?n s)" using trim_start_ws [of s] False by simp
    ultimately show ?thesis
      using u by (intro exI [of _ "take ?n s @ u"]) (metis Un_iff append.assoc append_take_drop_id set_append)
  qed
qed

lemma ws_width_dash: "ws_width (u @ CHR ''-'' # s) = ws_width (u @ CHR ''-'' # s')"
proof -
  have dash: "byte_val (CHR ''-'') = 45" by code_simp
  show ?thesis
    by (cases u rule: ws_width.cases; cases s; cases s'; cases "tl s"; cases "tl s'")
       (simp_all add: ws1_def ws2_def ws3_def dash)
qed


lemma trim_start_dash:
  assumes "trim_start (u @ CHR ''-'' # s) = CHR ''-'' # s"
  shows "trim_start (u @ CHR ''-'' # s') = CHR ''-'' # s'"
  using assms
proof (induction "length u" arbitrary: u rule: less_induct)
  case less
  let ?n = "ws_width (u @ CHR ''-'' # s)"
  show ?case
  proof (cases "?n = 0")
    case True
    then have "u = []" using less.prems trim_start_ws [of "u @ CHR ''-'' # s"] by simp
    then show ?thesis using True trim_start_ws [of "CHR ''-'' # s'"] ws_width_dash [of "[]" s s'] by simp
  next
    case False
    have n: "?n \<le> length u"
      using ws_bytes [OF refl False, of "length u"] by (cases "?n \<le> length u") (simp_all add: nth_append)
    have "trim_start (drop ?n u @ CHR ''-'' # s) = CHR ''-'' # s"
      using less.prems trim_start_ws [of "u @ CHR ''-'' # s"] False n by simp
    moreover have "length (drop ?n u) < length u" using False n by simp
    ultimately have "trim_start (drop ?n u @ CHR ''-'' # s') = CHR ''-'' # s'" using less.hyps by blast
    then show ?thesis
      using trim_start_ws [of "u @ CHR ''-'' # s'"] ws_width_dash [of u s s'] False n by simp
  qed
qed

lemma split_once_found:
  assumes "pat \<noteq> []" "hd pat \<notin> set u"
  shows "split_once pat (u @ pat @ v) = Some (u, v)"
proof -
  have prefix: "has_prefix p (p @ w)" for p w by (induction p) auto
  show ?thesis
    using assms(2)
  proof (induction u)
    case Nil
    then show ?case using prefix [of pat v] assms(1) by (cases pat) auto
  next
    case (Cons c u)
    then have "\<not> has_prefix pat (c # u @ pat @ v)" using assms(1) by (cases pat) auto
    then show ?case using Cons by simp
  qed
qed

lemma has_prefix_append: "has_prefix p s \<longleftrightarrow> (\<exists>t. s = p @ t)"
  by (induction p s rule: has_prefix.induct) auto

lemma strip_prefix_Some: "strip_prefix p s = Some t \<longleftrightarrow> s = p @ t"
  by (auto simp: strip_prefix_def has_prefix_append)

lemma split_once_SomeD: "split_once pat s = Some (a, b) \<Longrightarrow> s = a @ pat @ b"
  by (induction s arbitrary: a) (auto simp: has_prefix_append split: if_splits)

lemma parse_checkbox_False: "parse_checkbox mark = Some False \<longleftrightarrow> mark = '' ''"
  by (auto simp: parse_checkbox_def)

text \<open>The box of an open milestone is the first one of its line; ticking it changes nothing else about the line.\<close>

lemma header_ticked:
  assumes "parse_milestone_header line = Some (False, marker, title)"
  shows "parse_milestone_header (mark_line_completed line) = Some (True, marker, title)"
proof -
  obtain r rest where r: "trim_start line = ''- ['' @ r" "split_once ''] '' r = Some ('' '', rest)"
    and tail: "(let rest = trim rest in
      if \<not> has_prefix ''#'' rest then None
      else case split_whitespace_once rest of (first, second) \<Rightarrow>
        let marker = trim first; title = trim (case second of None \<Rightarrow> [] | Some s \<Rightarrow> s) in
        if length marker \<le> 1 \<or> title = [] then None else Some (False, marker, title)) = Some (False, marker, title)"
    using assms
    by (auto simp: parse_milestone_header_def Option.bind_eq_Some_conv strip_prefix_Some parse_checkbox_False Let_def
        split: if_splits prod.splits)
  have line: "trim_start line = CHR ''-'' # '' [ ] '' @ rest" using r split_once_SomeD [OF r(2)] by simp
  obtain u where u: "line = u @ trim_start line" "CHR ''-'' \<notin> set u" using trim_start_split by blast
  have shape: "line = u @ ''- [ ]'' @ '' '' @ rest" using u(1) line by simp
  have "mark_line_completed line = u @ ''- [x]'' @ '' '' @ rest"
    unfolding mark_line_completed_def shape using split_once_found [of "''- [ ]''" u "'' '' @ rest"] u(2) by simp
  moreover have "trim_start (u @ CHR ''-'' # '' [x] '' @ rest) = CHR ''-'' # '' [x] '' @ rest"
    using trim_start_dash [of u "'' [ ] '' @ rest" "'' [x] '' @ rest"] line shape by simp
  ultimately have ticked: "trim_start (mark_line_completed line) = ''- ['' @ ''x] '' @ rest" by simp
  have "split_once ''] '' (''x] '' @ rest) = Some (''x'', rest)" by simp
  then show ?thesis
    using tail unfolding parse_milestone_header_def ticked
    by (auto simp: strip_prefix_def parse_checkbox_def Let_def split: if_splits prod.splits)
qed



section \<open>The lines of a specification\<close>

lemma while_update:
  assumes "j < length ls" "\<not> P (ls ! j)" "\<not> P l"
  shows "takeWhile P (ls[j := l]) = takeWhile P ls"
    "dropWhile P (ls[j := l]) = (dropWhile P ls)[j - length (takeWhile P ls) := l]" "length (takeWhile P ls) \<le> j"
  using assms
proof (induction ls arbitrary: j)
  case (Cons x ls)
  {
    case 1
    then show ?case using Cons.IH(1) by (cases j) auto
  next
    case 2
    then show ?case using Cons.IH(2,3) by (cases j) auto
  next
    case 3
    then show ?case using Cons.IH(3) by (cases j) auto
  }
qed simp_all

lemma milestone_at_index: "x \<in> set (milestone_at i h fs) \<Longrightarrow> ms_line_index x = i \<and> h = (ms_completed x, ms_marker x, ms_title x)"
  by (cases h; cases "fst fs") (auto simp: milestone_at_def split: if_splits)

lemma parse_from_index:
  assumes "x \<in> set (parse_from i ls)"
  obtains k where "ms_line_index x = i + k" "k < length ls"
    "parse_milestone_header (ls ! k) = Some (ms_completed x, ms_marker x, ms_title x)"
proof -
  have "\<exists>k. ms_line_index x = i + k \<and> k < length ls \<and>
    parse_milestone_header (ls ! k) = Some (ms_completed x, ms_marker x, ms_title x)"
    using assms
  proof (induction i ls rule: parse_from.induct)
    case (2 i l ls)
    let ?body = "takeWhile (\<lambda>l. \<not> is_header l) ls" and ?rest = "dropWhile (\<lambda>l. \<not> is_header l) ls"
    show ?case
    proof (cases "parse_milestone_header l")
      case None
      then have "x \<in> set (parse_from (i + 1) ls)" using 2(3) by (simp add: parse_from.simps(2))
      from 2(1) [OF None this] obtain k where "ms_line_index x = i + 1 + k" "k < length ls"
        "parse_milestone_header (ls ! k) = Some (ms_completed x, ms_marker x, ms_title x)" by blast
      then show ?thesis by (intro exI [of _ "Suc k"]) simp
    next
      case (Some h)
      then consider "x \<in> set (milestone_at i h (child_fields ?body))" | "x \<in> set (parse_from (i + 1 + length ?body) ?rest)"
        using 2(3) by (auto simp: parse_from.simps(2) Let_def)
      then show ?thesis
      proof cases
        case 1
        then show ?thesis using Some milestone_at_index by (intro exI [of _ 0]) fastforce
      next
        case 2
        from "2.IH"(2) [OF Some refl 2] obtain k where k: "ms_line_index x = i + 1 + length ?body + k" "k < length ?rest"
          "parse_milestone_header (?rest ! k) = Some (ms_completed x, ms_marker x, ms_title x)" by blast
        have "ls ! (length ?body + k) = ?rest ! k" by (metis nth_append_length_plus takeWhile_dropWhile_id)
        moreover have "length ls = length ?body + length ?rest" by (metis length_append takeWhile_dropWhile_id)
        ultimately show ?thesis using k by (intro exI [of _ "Suc (length ?body + k)"]) simp
      qed
    qed
  qed simp
  then show thesis using that by blast
qed

lemma parse_from_distinct: "distinct (map ms_line_index (parse_from i ls))"
proof (induction i ls rule: parse_from.induct)
  case (2 i l ls)
  let ?body = "takeWhile (\<lambda>l. \<not> is_header l) ls" and ?rest = "dropWhile (\<lambda>l. \<not> is_header l) ls"
  show ?case
  proof (cases "parse_milestone_header l")
    case None
    then show ?thesis using 2(1) by (simp add: parse_from.simps(2))
  next
    case (Some h)
    have "ms_line_index x \<noteq> i" if "x \<in> set (parse_from (i + 1 + length ?body) ?rest)" for x
      using that by (rule parse_from_index) simp
    moreover have "ms_line_index x = i" if "x \<in> set (milestone_at i h fs)" for x fs using milestone_at_index [OF that] by simp
    moreover have "distinct (map ms_line_index (milestone_at i h fs))" for fs
      by (cases h; cases "fst fs") (auto simp: milestone_at_def)
    ultimately show ?thesis using 2(2) Some by (auto simp: parse_from.simps(2) Let_def)
  qed
qed simp


definition tick :: "nat \<Rightarrow> Milestone \<Rightarrow> Milestone" where
  "tick k m = (if ms_line_index m = k then m \<lparr> ms_completed := True \<rparr> else m)"

lemma tick_rest: "(\<And>x. x \<in> set ms \<Longrightarrow> ms_line_index x \<noteq> k) \<Longrightarrow> map (tick k) ms = ms"
  by (simp add: tick_def map_idI)

text \<open>Ticking a header line ticks its milestone and no other.\<close>

lemma parse_from_ticked:
  assumes "k < length ls" "parse_milestone_header (ls ! k) = Some (c, m, t)" "parse_milestone_header l' = Some (True, m, t)"
  shows "parse_from i (ls[k := l']) = map (tick (i + k)) (parse_from i ls)"
  using assms
proof (induction i ls arbitrary: k rule: parse_from.induct)
  case (2 i l ls)
  let ?P = "\<lambda>l. \<not> is_header l"
  let ?body = "takeWhile ?P ls" and ?rest = "dropWhile ?P ls"
  have later: "map (tick k') (parse_from j xs) = parse_from j xs" if "k' < j" for k' j xs
    using that by (intro tick_rest) (metis not_add_less1 parse_from_index)
  show ?case
  proof (cases k)
    case 0
    then have l: "parse_milestone_header l = Some (c, m, t)" using "2.prems" by simp
    have "milestone_at i (True, m, t) fs = map (tick i) (milestone_at i (c, m, t) fs)" for fs
      by (cases "fst fs") (simp_all add: milestone_at_def tick_def)
    then show ?thesis using 0 l "2.prems"(3) later by (simp add: parse_from.simps(2) Let_def)
  next
    case (Suc j)
    then have j: "j < length ls" "parse_milestone_header (ls ! j) = Some (c, m, t)" using "2.prems" by simp_all
    show ?thesis
    proof (cases "parse_milestone_header l")
      case None
      then show ?thesis using "2.IH"(1) [OF None j "2.prems"(3)] Suc by (simp add: parse_from.simps(2))
    next
      case (Some h)
      have notP: "\<not> ?P (ls ! j)" "\<not> ?P l'" using j(2) "2.prems"(3) by (simp_all add: is_header_def)
      note upd = while_update [OF j(1) notP]
      let ?j = "j - length ?body"
      have "?rest ! ?j = ls ! j" using upd(3) by (metis le_add_diff_inverse nth_append_length_plus takeWhile_dropWhile_id)
      moreover have "?j < length ?rest"
        using upd(3) j(1) by (metis add.commute length_append less_diff_conv2 takeWhile_dropWhile_id)
      ultimately have "parse_from (i + 1 + length ?body) (?rest[?j := l']) =
          map (tick (i + 1 + length ?body + ?j)) (parse_from (i + 1 + length ?body) ?rest)"
        using "2.IH"(2) [OF Some refl _ _ "2.prems"(3)] j(2) by simp
      moreover have "i + 1 + length ?body + ?j = i + k" using upd(3) Suc by simp
      moreover have "map (tick (i + k)) (milestone_at i h fs) = milestone_at i h fs" for fs
        using Suc milestone_at_index by (intro tick_rest) fastforce
      ultimately show ?thesis using Suc Some upd(1,2) by (simp add: parse_from.simps(2) Let_def)
    qed
  qed
qed simp

lemma blank_line:
  "parse_milestone_header [] = None" "parse_child_field [] ''ID'' = None" "parse_child_field [] ''Depends on'' = None"
  by code_simp+

lemma parse_from_blank: "parse_from i (ls @ [[]]) = parse_from i ls"
proof (induction i ls rule: parse_from.induct)
  case (1 i)
  then show ?case by (simp add: parse_from.simps(2) blank_line)
next
  case (2 i l ls)
  let ?P = "\<lambda>l. \<not> is_header l"
  have blank: "?P []" by (simp add: is_header_def blank_line)
  show ?case
  proof (cases "parse_milestone_header l")
    case None
    then show ?thesis using 2(1) by (simp add: parse_from.simps(2))
  next
    case (Some h)
    show ?thesis
    proof (cases "\<forall>x\<in>set ls. ?P x")
      case True
      then have split: "takeWhile ?P (ls @ [[]]) = ls @ [[]]" "dropWhile ?P (ls @ [[]]) = []" "takeWhile ?P ls = ls" "dropWhile ?P ls = []"
        using blank by (auto simp: takeWhile_eq_all_conv)
      have fields: "child_fields (ls @ [[]]) = child_fields ls" by (simp add: child_fields_def add_field_def blank_line)
      show ?thesis unfolding append_Cons parse_from.simps(2) Let_def Some option.case split fields by simp
    next
      case False
      then have "takeWhile ?P (ls @ [[]]) = takeWhile ?P ls" "dropWhile ?P (ls @ [[]]) = dropWhile ?P ls @ [[]]"
        by (auto simp: takeWhile_append dropWhile_append)
      then show ?thesis using 2(2) [OF Some] Some by (simp add: parse_from.simps(2) Let_def)
    qed
  qed
qed


text \<open>Writing lines and reading them again; a blank last line is lost.\<close>

lemma trim_end_newlines_free:
  assumes "newline \<notin> set q"
  shows "trim_end_newlines q = q" "trim_end_newlines (q @ [newline]) = q"
proof -
  have "dropWhile (\<lambda>c. c = newline) (rev q) = rev q" using assms by (intro dropWhile_eq_self_iff [THEN iffD2]) (metis hd_in_set set_rev)
  then show "trim_end_newlines q = q" "trim_end_newlines (q @ [newline]) = q" by (simp_all add: trim_end_newlines_def)
qed

lemma split_inclusive_piece: "p \<in> set (split_inclusive s) \<Longrightarrow> \<exists>q. newline \<notin> set q \<and> (p = q \<or> p = q @ [newline])"
proof (induction s arbitrary: p)
  case (Cons c s)
  show ?case
  proof (cases "c = newline \<or> p \<in> set (split_inclusive s)")
    case True
    then show ?thesis using Cons by (auto intro: exI [of _ "[]"] split: if_splits list.splits)
  next
    case False
    then obtain w where w: "p = c # w" "w = [] \<or> w \<in> set (split_inclusive s)"
      using Cons.prems by (auto split: list.splits)
    then obtain q where "newline \<notin> set q" "w = q \<or> w = q @ [newline]"
      using Cons.IH [of w] by (metis empty_iff empty_set)
    then show ?thesis using w(1) False by (intro exI [of _ "c # q"]) auto
  qed
qed simp

lemma spec_lines_free: "l \<in> set (map trim_end_newlines (split_inclusive s)) \<Longrightarrow> newline \<notin> set l"
  using split_inclusive_piece trim_end_newlines_free by fastforce

definition ended :: "string list \<Rightarrow> string" where
  "ended ls = concat (map (\<lambda>l. l @ [newline]) ls)"

lemma split_inclusive_ended:
  assumes "\<forall>l\<in>set ls. newline \<notin> set l"
  shows "map trim_end_newlines (split_inclusive (ended ls)) = ls"
proof -
  have line: "split_inclusive (l @ newline # s) = (l @ [newline]) # split_inclusive s" if "newline \<notin> set l" for l s
    using that by (induction l) auto
  show ?thesis
    using assms by (induction ls) (simp_all add: ended_def line trim_end_newlines_free)
qed

lemma join_lines: "ls \<noteq> [] \<Longrightarrow> join_with [newline] ls = ended (butlast ls) @ last ls"
  by (induction "[newline]" ls rule: join_with.induct) (simp_all add: ended_def)

lemma spec_text_ended:
  assumes "ls \<noteq> []" "\<forall>l\<in>set ls. newline \<notin> set l"
  shows "spec_text ls = ended (if last ls = [] \<and> butlast ls \<noteq> [] then butlast ls else ls)"
proof -
  have all: "ended ls = ended (butlast ls) @ last ls @ [newline]"
    using assms(1) by (metis append_butlast_last_id concat.simps concat_append ended_def list.simps(8,9) map_append append_Nil2)
  show ?thesis
  proof (cases "last ls = []")
    case True
    show ?thesis
    proof (cases "butlast ls = []")
      case False
      have "ended (butlast ls) \<noteq> [] \<and> last (ended (butlast ls)) = newline"
        using False by (metis append_butlast_last_id append_is_Nil_conv concat_append ended_def last_appendR last_snoc list.simps(3,8,9)
            map_append concat.simps append_Nil2)
      then show ?thesis using True False join_lines [OF assms(1)] by (simp add: spec_text_def)
    qed (use True all join_lines [OF assms(1)] in \<open>simp add: spec_text_def ended_def\<close>)
  next
    case False
    then have "last (last ls) \<noteq> newline" using assms by (metis last_in_set)
    then show ?thesis using False all join_lines [OF assms(1)] by (simp add: spec_text_def)
  qed
qed



section \<open>Completing a milestone\<close>

lemma map_tick_update:
  assumes "distinct (map ms_line_index ms)" "i < length ms"
  shows "map (tick (ms_line_index (ms ! i))) ms = ms[i := (ms ! i) \<lparr> ms_completed := True \<rparr>]"
proof (rule nth_equalityI)
  fix j assume "j < length (map (tick (ms_line_index (ms ! i))) ms)"
  then show "map (tick (ms_line_index (ms ! i))) ms ! j = ms[i := (ms ! i) \<lparr> ms_completed := True \<rparr>] ! j"
    using assms nth_eq_iff_index_eq [OF assms(1), of j i] by (cases "j = i") (simp_all add: tick_def)
qed simp

lemma milestone_position_ids:
  assumes "map ms_id ms = map ms_id ms'"
  shows "milestone_position k ms = milestone_position k ms'"
proof -
  have "length ms = length ms'" using assms by (metis length_map)
  moreover have "ms_id (ms ! j) = ms_id (ms' ! j)" if "j < length ms" for j using assms that by (metis calculation nth_map)
  ultimately show ?thesis unfolding milestone_position_def by (intro find_cong) auto
qed

lemma ids_completed: "map ms_id (ms[i := (ms ! i) \<lparr> ms_completed := b \<rparr>]) = map ms_id ms"
proof (rule nth_equalityI)
  fix j assume "j < length (map ms_id (ms[i := (ms ! i) \<lparr> ms_completed := b \<rparr>]))"
  then show "map ms_id (ms[i := (ms ! i) \<lparr> ms_completed := b \<rparr>]) ! j = map ms_id ms ! j"
    by (cases "i = j") simp_all
qed simp

lemma milestone_position_Some: "milestone_position k ms = Some i \<Longrightarrow> i < length ms \<and> ms_id (ms ! i) = k"
  by (auto simp: milestone_position_def find_Some_iff)

definition ticked_lines :: "nat \<Rightarrow> string list \<Rightarrow> string list" where
  "ticked_lines k ls = (let ls' = ls[k := mark_line_completed (ls ! k)] in
    if last ls' = [] \<and> butlast ls' \<noteq> [] then butlast ls' else ls')"

lemma mark_line_free:
  assumes "newline \<notin> set line"
  shows "newline \<notin> set (mark_line_completed line)"
proof (cases "split_once ''- [ ]'' line")
  case (Some ab)
  obtain a b where ab: "ab = (a, b)" by fastforce
  have "newline \<notin> set ''- [x]''" by code_simp
  then show ?thesis using assms split_once_SomeD [OF Some [unfolded ab]] Some ab by (simp add: mark_line_completed_def)
qed (use assms in \<open>simp add: mark_line_completed_def\<close>)

lemma parse_spec_ticked:
  assumes i: "i < length (sd_milestones (parse_spec p content))" and m: "m = sd_milestones (parse_spec p content) ! i"
    and open_m: "\<not> ms_completed m" and k: "k = ms_line_index m" and ls: "ls = sd_lines (parse_spec p content)"
  shows "sd_lines (parse_spec p (spec_text (ls[k := mark_line_completed (ls ! k)]))) = ticked_lines k ls"
    "sd_milestones (parse_spec p (spec_text (ls[k := mark_line_completed (ls ! k)]))) =
      (sd_milestones (parse_spec p content))[i := m \<lparr> ms_completed := True \<rparr>]"
proof -
  let ?ms = "parse_from 0 ls" and ?l = "mark_line_completed (ls ! k)"
  let ?new = "ls[k := ?l]"
  have ms: "sd_milestones (parse_spec p content) = ?ms" using ls by (simp add: parse_spec_def Let_def)
  have "m \<in> set ?ms" using i m ms by simp
  from parse_from_index [OF this] k open_m have kl: "k < length ls"
    and hd: "parse_milestone_header (ls ! k) = Some (False, ms_marker m, ms_title m)" by auto
  note hd' = header_ticked [OF hd]
  have free: "\<forall>l\<in>set ls. newline \<notin> set l" using spec_lines_free ls by (simp add: parse_spec_def Let_def)
  have "newline \<notin> set ?l" using free kl by (intro mark_line_free) simp
  then have free': "\<forall>l\<in>set ?new. newline \<notin> set l" using free set_update_subset_insert [of ls k ?l] by blast
  have ne: "?new \<noteq> []" using kl by auto
  have lines: "map trim_end_newlines (split_inclusive (spec_text ?new)) = ticked_lines k ls"
    unfolding spec_text_ended [OF ne free'] ticked_lines_def Let_def
    using free' by (intro split_inclusive_ended) (auto dest: in_set_butlastD split: if_splits)
  then show "sd_lines (parse_spec p (spec_text ?new)) = ticked_lines k ls" by (simp add: parse_spec_def Let_def)
  have "parse_from 0 (ticked_lines k ls) = parse_from 0 ?new"
    unfolding ticked_lines_def Let_def using parse_from_blank [of 0 "butlast ?new"] append_butlast_last_id [OF ne]
    by (cases "last ?new = []") simp_all
  also have "\<dots> = map (tick k) ?ms" using parse_from_ticked [OF kl hd hd', of 0] by simp
  also have "\<dots> = ?ms[i := m \<lparr> ms_completed := True \<rparr>]"
    using map_tick_update [OF parse_from_distinct, of i 0 ls] i m ms k by simp
  finally show "sd_milestones (parse_spec p (spec_text ?new)) = (sd_milestones (parse_spec p content))[i := m \<lparr> ms_completed := True \<rparr>]"
    unfolding ms using lines by (simp add: parse_spec_def Let_def)
qed



definition sample_spec :: string where
  "sample_spec = ''- [ ] #1 First'' @ [newline] @ ''  - ID: a'' @ [newline] @ ''- [ ] #2 Second'' @ [newline] @
    ''  - ID: b'' @ [newline] @ ''  - Depends on: #1'' @ [newline]"

definition sample_milestones :: "Milestone list" where
  "sample_milestones =
    [\<lparr> ms_marker = ''#1'', ms_id = ''a'', ms_title = ''First'', ms_depends_on = ''none'', ms_completed = False, ms_line_index = 0 \<rparr>,
     \<lparr> ms_marker = ''#2'', ms_id = ''b'', ms_title = ''Second'', ms_depends_on = ''#1'', ms_completed = False, ms_line_index = 2 \<rparr>]"

lemma sample_parsed: "sd_milestones (parse_spec p sample_spec) = sample_milestones"
proof -
  have "parse_from 0 (map trim_end_newlines (split_inclusive sample_spec)) = sample_milestones" by code_simp
  then show ?thesis by (simp add: parse_spec_def Let_def)
qed



section \<open>Progress of a plan\<close>

text \<open>Every dependency names a milestone of a smaller rank: the references resolve and have no cycle.\<close>

definition resolvable :: "(nat \<Rightarrow> nat) \<Rightarrow> Milestone list \<Rightarrow> bool" where
  "resolvable rank ms =
    (\<forall>i<length ms. \<forall>d\<in>set (dependency_refs (ms_depends_on (ms ! i))).
       \<exists>j<length ms. normalize_ref d \<in> set (milestone_refs (ms ! j)) \<and> rank j < rank i)"

definition ready_at :: "Milestone list \<Rightarrow> nat \<Rightarrow> bool" where
  "ready_at ms i = (pi_readiness (milestone_plan ms ! i) = MilestoneReady)"

text \<open>Completing the first ready milestone.\<close>

definition finish_next :: "Milestone list \<Rightarrow> Milestone list" where
  "finish_next ms =
    (case find (ready_at ms) [0..<length ms] of None \<Rightarrow> ms | Some i \<Rightarrow> ms[i := (ms ! i) \<lparr> ms_completed := True \<rparr>])"

lemma ready_iff:
  "i < length ms \<Longrightarrow> ready_at ms i \<longleftrightarrow>
    \<not> ms_completed (ms ! i) \<and> (\<forall>d\<in>set (dependency_refs (ms_depends_on (ms ! i))). normalize_ref d \<in> completed_refs ms)"
  by (auto simp: ready_at_def milestone_plan_def plan_item_def Let_def filter_empty_conv)

lemma some_ready:
  assumes "resolvable rank ms" "i < length ms" "\<not> ms_completed (ms ! i)"
  shows "\<exists>j<length ms. ready_at ms j"
  using assms(2,3)
proof (induction "rank i" arbitrary: i rule: less_induct)
  case less
  show ?case
  proof (cases "ready_at ms i")
    case False
    then obtain d where d: "d \<in> set (dependency_refs (ms_depends_on (ms ! i)))" "normalize_ref d \<notin> completed_refs ms"
      using ready_iff [OF less.prems(1)] less.prems(2) by blast
    then obtain j where j: "j < length ms" "normalize_ref d \<in> set (milestone_refs (ms ! j))" "rank j < rank i"
      using assms(1) less.prems(1) by (auto simp: resolvable_def)
    moreover have "\<not> ms_completed (ms ! j)" using d(2) j(1,2) by (auto simp: completed_refs_def)
    ultimately show ?thesis using less.hyps by blast
  qed (use less.prems in blast)
qed

lemma milestone_refs_completed [simp]: "milestone_refs (m \<lparr> ms_completed := b \<rparr>) = milestone_refs m"
  by (simp add: milestone_refs_def)

lemma resolvable_update: "resolvable rank (ms[i := (ms ! i) \<lparr> ms_completed := b \<rparr>]) = resolvable rank ms"
proof -
  have deps: "ms_depends_on (ms[i := (ms ! i) \<lparr> ms_completed := b \<rparr>] ! j) = ms_depends_on (ms ! j)"
    and refs: "milestone_refs (ms[i := (ms ! i) \<lparr> ms_completed := b \<rparr>] ! j) = milestone_refs (ms ! j)" if "j < length ms" for j
    using that by (cases "i = j"; simp)+
  show ?thesis unfolding resolvable_def length_list_update by (auto simp: deps refs cong: conj_cong)
qed

definition open_milestones :: "Milestone list \<Rightarrow> nat" where
  "open_milestones ms = length (filter (\<lambda>m. \<not> ms_completed m) ms)"

lemma open_update:
  assumes "i < length ms" "\<not> ms_completed (ms ! i)"
  shows "open_milestones ms = Suc (open_milestones (ms[i := (ms ! i) \<lparr> ms_completed := True \<rparr>]))"
  using assms
  by (subst id_take_nth_drop [OF assms(1)], simp add: open_milestones_def upd_conv_take_nth_drop)

lemma finish_next_progress:
  assumes "resolvable rank ms" "open_milestones ms = Suc n"
  shows "resolvable rank (finish_next ms) \<and> open_milestones (finish_next ms) = n"
proof -
  have "filter (\<lambda>m. \<not> ms_completed m) ms \<noteq> []" using assms(2) by (auto simp: open_milestones_def)
  then obtain m where "m \<in> set ms" "\<not> ms_completed m" by (auto simp: filter_empty_conv)
  then obtain j where "j < length ms" "ready_at ms j" using some_ready [OF assms(1)] by (auto simp: in_set_conv_nth)
  then obtain i where i: "find (ready_at ms) [0..<length ms] = Some i"
    by (cases "find (ready_at ms) [0..<length ms]") (auto simp: find_None_iff)
  then have "i < length ms" "ready_at ms i" by (auto simp: find_Some_iff)
  then show ?thesis
    using i assms open_update [of i ms] ready_iff by (simp add: finish_next_def resolvable_update)
qed

text \<open>C39: A specification can be finished. When every dependency names a milestone and the dependencies have no cycle,
  the plan always offers a ready milestone until all are done: completing the first ready one, as many times as
  there are open milestones, completes them all.\<close>

theorem plan_can_be_finished:
  assumes "resolvable rank ms"
  shows "list_all ms_completed ((finish_next ^^ open_milestones ms) ms)"
  using assms
proof (induction "open_milestones ms" arbitrary: ms)
  case 0
  then show ?case by (simp add: open_milestones_def filter_empty_conv list_all_iff)
next
  case (Suc n)
  note progress = finish_next_progress [OF Suc.prems Suc.hyps(2) [symmetric]]
  have "list_all ms_completed ((finish_next ^^ open_milestones (finish_next ms)) (finish_next ms))"
    by (rule Suc.hyps(1)) (use progress in simp_all)
  then show ?case using progress by (simp add: Suc.hyps(2) [symmetric] funpow_swap1)
qed

theorem plan_can_be_finished_witness:
  "list_all ms_completed ((finish_next ^^ 2) (sd_milestones (parse_spec ''/s.md'' sample_spec)))"
proof -
  have 1: "length sample_milestones = 2" "open_milestones sample_milestones = 2"
    "dependency_refs (ms_depends_on (sample_milestones ! 0)) = []"
    "dependency_refs (ms_depends_on (sample_milestones ! 1)) = [''#1'']"
    "normalize_ref ''#1'' \<in> set (milestone_refs (sample_milestones ! 0))" by code_simp+
  then have "resolvable id sample_milestones" by (auto simp: resolvable_def less_2_cases_iff intro: exI [of _ 0])
  from plan_can_be_finished [OF this] show ?thesis unfolding sample_parsed using 1(2) by simp
qed

end
