(* ===== verification/Approval.thy ===== *)
theory Approval
  imports Gate_Tools Specs
begin

text \<open>
  Approving a submission: \<open>src/src/server/tools/approve.rs\<close>, \<open>src/src/server/tools/approve/integration.rs\<close> and the
  refresh of the canonical graph that follows (\<open>src/src/repository_graph_runtime/canonical.rs\<close>).

  The reviewed tree is merged with the canonical workspace and the task's baseline, the result is checked out, and the
  check commands run on it. When a step fails, the workspace goes back to the tree captured before, and the Git index
  to its old contents. Only then is the task complete.

  Git is outside the program: \<open>approval\<close> gives the output of each command the code runs, or the error of starting it.
  A temporary index is created by \<open>read-tree\<close> and only passed on to later commands, so it is a value. The files of the
  workspace and the index of the repository are files of the checkout. The commands of the check gate may change any
  file; \<open>a_checks_did\<close> is what they did. \<open>a_waited\<close> is what happened in the workspace and the database while
  the call waited for the approval lock. A managed session (\<open>native_scope\<close>) is not modelled here.
\<close>

section \<open>Git output\<close>

record Output =
  out_success :: bool
  out_code :: "int option"
  out_status :: string
  out_stdout :: string
  out_stderr :: string

text \<open>\<open>is_char_boundary\<close> fails inside a multi-byte character only.\<close>

definition is_char_boundary :: "string \<Rightarrow> nat \<Rightarrow> bool" where
  "is_char_boundary s i = (i = 0 \<or> i = length s \<or> (i < length s \<and> \<not> continuation_byte (s ! i)))"

fun boundary_before :: "string \<Rightarrow> nat \<Rightarrow> nat" where
  "boundary_before s 0 = 0"
| "boundary_before s (Suc n) = (if is_char_boundary s (Suc n) then Suc n else boundary_before s n)"

definition MAX_DETAIL_BYTES :: nat where
  "MAX_DETAIL_BYTES = 8 * 1024"

definition bounded_git_detail :: "string \<Rightarrow> string" where
  "bounded_git_detail detail =
    (if length detail \<le> MAX_DETAIL_BYTES then detail
     else take (boundary_before detail MAX_DETAIL_BYTES) detail @ [newline] @ ''... output truncated ...'')"

definition git_success :: "Output \<Rightarrow> string \<Rightarrow> unit res" where
  "git_success out operation =
    (if out_success out then Inr ()
     else
       let stderr = trim (from_utf8_lossy (out_stderr out));
           stdout = trim (from_utf8_lossy (out_stdout out));
           detail = (if stderr = [] then stdout else stderr)
       in Inl (Bail (''Failed to '' @ operation @ '': '' @
            (if detail = [] then out_status out else bounded_git_detail detail))))"

definition git_stdout :: "Output \<Rightarrow> string \<Rightarrow> string res" where
  "git_stdout out operation =
    res_bind (git_success out operation) (\<lambda>_.
      if valid_up_to (out_stdout out) \<noteq> length (out_stdout out)
      then Inl (Bail ''Git returned non-UTF-8 object output'')
      else case str_lines (out_stdout out) of
          line # _ \<Rightarrow>
            if trim line = [] then Inl (Bail (''Git returned no result while attempting to '' @ operation))
            else Inr (trim line)
        | [] \<Rightarrow> Inl (Bail (''Git returned no result while attempting to '' @ operation)))"

definition done_by :: "Output res \<Rightarrow> string \<Rightarrow> unit res" where
  "done_by r operation = res_bind r (\<lambda>out. git_success out operation)"

definition line_of :: "Output res \<Rightarrow> string \<Rightarrow> string res" where
  "line_of r operation = res_bind r (\<lambda>out. git_stdout out operation)"

text \<open>\<open>context\<close> of \<open>anyhow\<close> keeps the kind of the error; a panic is not an error value.\<close>

fun in_context :: "string \<Rightarrow> err \<Rightarrow> err" where
  "in_context message (EffectUnknown e rollback) = EffectUnknown (Bail message) rollback"
| "in_context message (Panic s) = Panic s"
| "in_context message e = Bail message"

definition res_context :: "string \<Rightarrow> 'a res \<Rightarrow> 'a res" where
  "res_context message r = (case r of Inl e \<Rightarrow> Inl (in_context message e) | Inr a \<Rightarrow> Inr a)"

type_synonym filemap = "string \<rightharpoonup> string"

record approval =
  a_root :: "string res"
  a_config :: "filemap \<Rightarrow> Config res"
  a_data_dir :: "string \<Rightarrow> string res"
  a_lock :: "unit res"
  a_waited :: "world \<Rightarrow> world"
  a_capture :: "filemap \<Rightarrow> string res"
  a_ignored :: "filemap \<Rightarrow> Output res"
  a_ignored_dirs :: "filemap \<Rightarrow> Output res"
  a_index_path :: "Output res"
  a_rev_parse :: "string \<Rightarrow> Output res"
  a_cat_file :: "string \<Rightarrow> Output res"
  a_read_tree :: "string \<Rightarrow> Output res \<times> string"
  a_apply_cached :: "string \<Rightarrow> string \<Rightarrow> filemap \<Rightarrow> Output res \<times> string"
  a_force_remove :: "string \<Rightarrow> string \<Rightarrow> Output res \<times> string"
  a_write_tree :: "string \<Rightarrow> Output res"
  a_commit_tree :: "string \<Rightarrow> string option \<Rightarrow> string \<Rightarrow> Output res"
  a_merge_tree :: "string \<Rightarrow> string \<Rightarrow> Output res"
  a_diff_tree :: "string \<Rightarrow> string \<Rightarrow> Output res"
  a_sparse_config :: "Output res"
  a_check_rules :: "string \<Rightarrow> Output res"
  a_reset_worktree :: "string \<Rightarrow> string \<Rightarrow> filemap \<Rightarrow> Output res \<times> filemap"
  a_source :: "filemap \<Rightarrow> CanonicalSourceIdentity option res"
  a_exec :: "filemap \<Rightarrow> exec"
  a_checks_did :: "filemap \<Rightarrow> filemap"
  a_refresh_waits :: "(db \<Rightarrow> db) list"
  a_refresh_meanwhile :: "db \<Rightarrow> db"
  a_refresh :: "(CanonicalSourceIdentity \<times> string \<times> string) option res"
  a_canonicalize :: "string \<Rightarrow> string option"
  a_exists :: "string \<Rightarrow> bool res"
  a_worktree_remove :: "string \<Rightarrow> Output res"
  a_show_ref :: "string \<Rightarrow> Output res"
  a_delete_ref :: "string \<Rightarrow> Output res"


section \<open>Trees\<close>

definition resolve_tree :: "approval \<Rightarrow> string \<Rightarrow> string res" where
  "resolve_tree A revision = line_of (a_rev_parse A revision) ''resolve Git tree''"

definition task_baseline_tree :: "approval \<Rightarrow> string \<Rightarrow> bool \<Rightarrow> string res" where
  "task_baseline_tree A tid require_pinned =
    (case resolve_tree A (''refs/ferrus/baselines/'' @ tid) of
       Inr tree \<Rightarrow> Inr tree
     | Inl e \<Rightarrow>
         if require_pinned then Inl (in_context ''Pinned task baseline tree is unavailable'' e)
         else res_context ''Task baseline tree is unavailable'' (resolve_tree A ''HEAD^{tree}''))"

definition verify_tree :: "approval \<Rightarrow> string \<Rightarrow> unit res" where
  "verify_tree A tree = done_by (a_cat_file A (tree @ ''^{tree}'')) ''verify frozen submitted tree''"

text \<open>A command that reads or changes a temporary index, followed by the use of the index.\<close>

definition with_index :: "Output res \<times> string \<Rightarrow> string \<Rightarrow> (string \<Rightarrow> 'a res) \<Rightarrow> 'a res" where
  "with_index result operation f = (case result of (r, index) \<Rightarrow> res_bind (done_by r operation) (\<lambda>_. f index))"

definition reading_tree :: string where
  "reading_tree = ''materialize Git tree through temporary index''"

definition submitted_tree_from_patch :: "approval \<Rightarrow> RuntimeTaskContext \<Rightarrow> string \<Rightarrow> checkout \<Rightarrow> string res" where
  "submitted_tree_from_patch A context baseline c =
    with_index (a_read_tree A baseline) reading_tree (\<lambda>index.
    with_index (a_apply_cached A index (resolve_project_path (path_join (x_run_dir context) ''PATCH.diff'') c) (files c))
      ''apply submitted patch to its baseline'' (\<lambda>index'.
      line_of (a_write_tree A index') ''write submitted tree''))"

definition task_submission_trees :: "approval \<Rightarrow> RuntimeTaskContext \<Rightarrow> checkout \<Rightarrow> (string \<times> string) res" where
  "task_submission_trees A context c =
    (let view = x_repository_view context;
         frozen_submitted = (view_lifecycle view = FrozenSubmitted) in
     res_bind (task_baseline_tree A (x_task_id context) frozen_submitted) (\<lambda>baseline.
     res_bind (case view_frozen_source_tree view of
         Some tree \<Rightarrow>
           if frozen_submitted then res_bind (verify_tree A (digest_value tree)) (\<lambda>_. Inr (digest_value tree))
           else submitted_tree_from_patch A context baseline c
       | None \<Rightarrow> submitted_tree_from_patch A context baseline c) (\<lambda>submitted.
       Inr (baseline, submitted))))"

definition commit_tree :: "approval \<Rightarrow> string \<Rightarrow> string option \<Rightarrow> string \<Rightarrow> string res" where
  "commit_tree A tree parent role =
    line_of (a_commit_tree A tree parent (''Ferrus temporary '' @ role @ '' tree''))
      (''wrap '' @ role @ '' tree in a temporary commit'')"

definition merge_trees :: "approval \<Rightarrow> string \<Rightarrow> string \<Rightarrow> string \<Rightarrow> string res" where
  "merge_trees A baseline ours theirs =
    res_bind (commit_tree A baseline None ''baseline'') (\<lambda>baseline_commit.
    res_bind (commit_tree A ours (Some baseline_commit) ''canonical'') (\<lambda>ours_commit.
    res_bind (commit_tree A theirs (Some baseline_commit) ''submitted'') (\<lambda>theirs_commit.
      line_of (a_merge_tree A ours_commit theirs_commit) ''three-way merge approved task'')))"


section \<open>Changes between trees\<close>

record TreeChange =
  tc_path :: string
  tc_is_addition :: bool
  tc_changes_gitlink :: bool

definition nul :: char where
  "nul = CHR 0x00"

definition is_ascii_whitespace :: "char \<Rightarrow> bool" where
  "is_ascii_whitespace b = (b \<in> {CHR '' '', CHR 0x09, CHR 0x0A, CHR 0x0C, CHR 0x0D})"

fun split_where :: "(char \<Rightarrow> bool) \<Rightarrow> string \<Rightarrow> string list" where
  "split_where f [] = [[]]"
| "split_where f (x # xs) =
    (if f x then [] # split_where f xs
     else (case split_where f xs of [] \<Rightarrow> [[x]] | w # ws \<Rightarrow> (x # w) # ws))"

definition tree_change :: "string \<Rightarrow> string \<Rightarrow> TreeChange res" where
  "tree_change metadata path =
    (case split_where is_ascii_whitespace metadata of
       (CHR '':'' # old_mode) # others \<Rightarrow>
         (case others of
            [] \<Rightarrow> Inl (Bail ''Git returned a malformed raw tree diff without a new mode'')
          | new_mode # _ \<Rightarrow>
              Inr \<lparr> tc_path = path, tc_is_addition = (old_mode = ''000000'' \<and> new_mode \<noteq> ''000000''),
                    tc_changes_gitlink = (old_mode = ''160000'' \<or> new_mode = ''160000'') \<rparr>)
     | _ \<Rightarrow> Inl (Bail ''Git returned a malformed raw tree diff without an old mode''))"

fun changes_of_records :: "string list \<Rightarrow> TreeChange list res" where
  "changes_of_records [] = Inr []"
| "changes_of_records ([] # records) = changes_of_records records"
| "changes_of_records [c # metadata] = Inl (Bail ''Git returned a malformed raw tree diff without a path'')"
| "changes_of_records ((c # metadata) # path # records) =
    res_bind (tree_change (c # metadata) path) (\<lambda>change.
    res_bind (changes_of_records records) (\<lambda>changes. Inr (change # changes)))"

definition parse_raw_tree_changes :: "string \<Rightarrow> TreeChange list res" where
  "parse_raw_tree_changes raw = changes_of_records (split_on nul raw)"

definition tree_changes :: "approval \<Rightarrow> string \<Rightarrow> string \<Rightarrow> TreeChange list res" where
  "tree_changes A current_tree target_tree =
    res_bind (a_diff_tree A current_tree target_tree) (\<lambda>out.
    res_bind (git_success out ''inspect paths changed by the approved tree'') (\<lambda>_.
      parse_raw_tree_changes (out_stdout out)))"

definition path_is_parent :: "string \<Rightarrow> string \<Rightarrow> bool" where
  "path_is_parent parent child = (has_prefix parent child \<and> has_prefix ''/'' (drop (length parent) child))"

definition paths_overlap :: "string \<Rightarrow> string \<Rightarrow> bool" where
  "paths_overlap left right = (left = right \<or> path_is_parent left right \<or> path_is_parent right left)"

definition nul_separated :: "string \<Rightarrow> string list" where
  "nul_separated stdout = filter (\<lambda>path. path \<noteq> []) (split_on nul stdout)"

definition strip_slash :: "string \<Rightarrow> string" where
  "strip_slash path = (if path \<noteq> [] \<and> last path = CHR ''/'' then butlast path else path)"

definition reject_ignored_path_collisions :: "approval \<Rightarrow> TreeChange list \<Rightarrow> checkout \<Rightarrow> unit res" where
  "reject_ignored_path_collisions A changes c =
    (let additions = map tc_path (filter tc_is_addition changes) in
     if additions = [] then Inr ()
     else
       res_bind (a_ignored_dirs A (files c)) (\<lambda>out.
       res_bind (git_success out ''inspect ignored canonical paths before integration'') (\<lambda>_.
         ensure (\<not> list_ex (\<lambda>ignored. list_ex (paths_overlap (strip_slash ignored)) additions)
                  (nul_separated (out_stdout out)))
           (Bail ''Canonical workspace contains ignored local content at a path changed by the approved submission''))))"

definition nul_terminated_paths :: "string list \<Rightarrow> string" where
  "nul_terminated_paths paths = concat (map (\<lambda>path. path @ [nul]) paths)"

definition sparse_checkout_enabled :: "approval \<Rightarrow> bool res" where
  "sparse_checkout_enabled A =
    res_bind (a_sparse_config A) (\<lambda>out.
      if out_success out then Inr (has_prefix ''true'' (out_stdout out))
      else if out_code out = Some 1 then Inr False
      else res_bind (git_success out ''inspect canonical sparse checkout configuration'') (\<lambda>_. Inr False))"

text \<open>The code collects the paths in a hash set; Git answers path by path, so their order does not matter.\<close>

definition reject_sparse_checkout_exclusions :: "approval \<Rightarrow> TreeChange list \<Rightarrow> unit res" where
  "reject_sparse_checkout_exclusions A changes =
    (if changes = [] then Inr ()
     else res_bind (sparse_checkout_enabled A) (\<lambda>enabled.
       if \<not> enabled then Inr ()
       else
         let paths = remdups (map tc_path changes) in
         res_bind (a_check_rules A (nul_terminated_paths paths)) (\<lambda>out.
         res_bind (git_success out ''check approved paths against the sparse checkout'') (\<lambda>_.
           ensure (list_all (\<lambda>path. path \<in> set (nul_separated (out_stdout out))) paths)
             (Bail ''Approved submission changes paths outside the canonical sparse checkout'')))))"

definition validate_tree_materialization :: "approval \<Rightarrow> string \<Rightarrow> string \<Rightarrow> checkout \<Rightarrow> unit res" where
  "validate_tree_materialization A current_tree target_tree c =
    res_bind (tree_changes A current_tree target_tree) (\<lambda>changes.
      if list_ex tc_changes_gitlink changes
      then Inl (Bail (''Approved submissions that change submodules are not supported '' @
             ''because their gitlinks cannot be materialized safely''))
      else res_bind (reject_ignored_path_collisions A changes c) (\<lambda>_.
        reject_sparse_checkout_exclusions A changes))"


section \<open>Snapshots of the canonical workspace\<close>

type_synonym 'a fop = "checkout \<Rightarrow> 'a res \<times> checkout"

definition fbind :: "'a fop \<Rightarrow> ('a \<Rightarrow> 'b fop) \<Rightarrow> 'b fop" where
  "fbind m f c = (case m c of (Inl e, c1) \<Rightarrow> (Inl e, c1) | (Inr a, c1) \<Rightarrow> f a c1)"

definition fread :: "(checkout \<Rightarrow> 'a res) \<Rightarrow> 'a fop" where
  "fread f c = (f c, c)"

definition materialize_tree :: "approval \<Rightarrow> string \<Rightarrow> string \<Rightarrow> unit fop" where
  "materialize_tree A current_tree target_tree c =
    (case a_read_tree A current_tree of (r, index) \<Rightarrow>
       (case done_by r reading_tree of
          Inl e \<Rightarrow> (Inl e, c)
        | Inr _ \<Rightarrow> (case a_reset_worktree A index target_tree (files c) of
            (r', fs) \<Rightarrow> (done_by r' reading_tree, c \<lparr> files := fs \<rparr>))))"

definition tree_without_paths :: "approval \<Rightarrow> string \<Rightarrow> string list \<Rightarrow> string res" where
  "tree_without_paths A tree excluded_paths =
    (if excluded_paths = [] then Inr tree
     else
       with_index (a_read_tree A tree) reading_tree (\<lambda>index.
       with_index (a_force_remove A index (nul_terminated_paths excluded_paths))
         ''exclude pre-integration ignored paths from rollback'' (\<lambda>index'.
         line_of (a_write_tree A index') ''write rollback tree without ignored paths'')))"

record CanonicalIndexSnapshot =
  ix_path :: string
  ix_contents :: "string option"

definition index_path :: "approval \<Rightarrow> string \<Rightarrow> string res" where
  "index_path A root =
    res_bind (line_of (a_index_path A) ''resolve canonical Git index'') (\<lambda>line.
      Inr (if is_absolute line then line else path_join root line))"

definition capture_index :: "approval \<Rightarrow> string \<Rightarrow> checkout \<Rightarrow> CanonicalIndexSnapshot res" where
  "capture_index A root c =
    res_bind (index_path A root) (\<lambda>path.
      case files c path of
        None \<Rightarrow> Inr \<lparr> ix_path = path, ix_contents = None \<rparr>
      | Some contents \<Rightarrow>
          if io c (ReadOp path) = Done then Inr \<lparr> ix_path = path, ix_contents = Some contents \<rparr>
          else Inl (Bail (''Failed to read Git index '' @ path)))"

definition remove_existing :: "string \<Rightarrow> string \<Rightarrow> unit fop" where
  "remove_existing path message c =
    (if files c path = None then (Inr (), c)
     else if io c (RemoveFileOp path) = Done then (Inr (), unset_file path c)
     else (Inl (Bail (message @ path)), c))"

definition publish_index :: "string \<Rightarrow> string \<Rightarrow> string option \<Rightarrow> unit fop" where
  "publish_index lock path contents =
    (case contents of
       Some s \<Rightarrow>
         fbind (\<lambda>c. case fs_write lock s c of
             (ok, c1) \<Rightarrow> (ensure ok (Bail (''Failed to restore Git index '' @ path)), c1)) (\<lambda>_.
         fbind (fread (\<lambda>c. ensure (io c (SyncOp lock) = Done) (Bail (''Failed to sync Git index '' @ path)))) (\<lambda>_.
         fbind (remove_existing path ''Failed to replace Git index '') (\<lambda>_ c.
           if io c (RenameOp lock path) = Done then (Inr (), unset_file lock (set_file path s c))
           else (Inl (Bail (''Failed to publish restored Git index '' @ path)), c))))
     | None \<Rightarrow>
         fbind (remove_existing path ''Failed to remove Git index '') (\<lambda>_ c.
           if io c (RemoveFileOp lock) = Done then (Inr (), unset_file lock c)
           else (Inl (Bail (''Failed to remove temporary Git index lock '' @ lock)), c)))"

definition restore_index_file :: "string \<Rightarrow> string option \<Rightarrow> unit fop" where
  "restore_index_file path contents c =
    (let lock = path @ ''.lock'' in
     if files c lock \<noteq> None \<or> io c (CreateNewOp lock) \<noteq> Done
     then (Inl (Bail (''Failed to lock Git index '' @ path)), c)
     else case publish_index lock path contents (set_file lock [] c) of
         (Inl e, c1) \<Rightarrow> (Inl e, discard_stage lock c1)
       | (Inr _, c1) \<Rightarrow> (Inr (), c1))"

definition restore_index :: "CanonicalIndexSnapshot \<Rightarrow> unit fop" where
  "restore_index ix = restore_index_file (ix_path ix) (ix_contents ix)"

record CanonicalWorkspaceSnapshot =
  sn_tree :: string
  sn_index :: CanonicalIndexSnapshot
  sn_ignored :: "string list"

definition ignored_untracked_paths :: "approval \<Rightarrow> checkout \<Rightarrow> string list res" where
  "ignored_untracked_paths A c =
    res_bind (a_ignored A (files c)) (\<lambda>out.
    res_bind (git_success out ''capture ignored canonical paths before integration'') (\<lambda>_.
      Inr (nul_separated (out_stdout out))))"

definition capture_snapshot :: "approval \<Rightarrow> string \<Rightarrow> checkout \<Rightarrow> CanonicalWorkspaceSnapshot res" where
  "capture_snapshot A root c =
    res_bind (capture_index A root c) (\<lambda>index.
    res_bind (ignored_untracked_paths A c) (\<lambda>ignored.
    res_bind (a_capture A (files c)) (\<lambda>tree.
      Inr \<lparr> sn_tree = tree, sn_index = index, sn_ignored = ignored \<rparr>)))"

fun both_results :: "unit res \<Rightarrow> unit res \<Rightarrow> unit res" where
  "both_results (Inr _) (Inr _) = Inr ()"
| "both_results (Inl e) (Inr _) = Inl e"
| "both_results (Inr _) (Inl e) = Inl e"
| "both_results (Inl worktree_error) (Inl index_error) =
    Inl (Bail (err_text worktree_error @
      ''\<newline>\<newline>Additionally failed to restore the canonical index: '' @ err_text index_error))"

definition restore_snapshot :: "approval \<Rightarrow> CanonicalWorkspaceSnapshot \<Rightarrow> unit fop" where
  "restore_snapshot A snapshot =
    fbind (fread (\<lambda>c. a_capture A (files c))) (\<lambda>captured.
    fbind (fread (\<lambda>_. tree_without_paths A captured (sn_ignored snapshot))) (\<lambda>current c.
      case materialize_tree A current (sn_tree snapshot) c of
        (r, c1) \<Rightarrow>
          (case restore_index (sn_index snapshot) c1 of
             (r', c2) \<Rightarrow>
               (both_results (res_context ''Failed to restore the pre-integration canonical worktree'' r) r', c2))))"


section \<open>Integration\<close>

definition undone :: "approval \<Rightarrow> CanonicalWorkspaceSnapshot \<Rightarrow> err \<Rightarrow> 'a fop" where
  "undone A snapshot e c =
    (case restore_snapshot A snapshot c of
       (Inl rollback, c1) \<Rightarrow> (Inl (EffectUnknown e rollback), c1)
     | (Inr _, c1) \<Rightarrow> (Inl e, c1))"

definition integrate_patch_three_way ::
  "approval \<Rightarrow> CanonicalWorkspaceSnapshot \<Rightarrow> string \<Rightarrow> string \<Rightarrow> unit fop" where
  "integrate_patch_three_way A snapshot baseline submitted =
    fbind (fread (\<lambda>_. merge_trees A baseline (sn_tree snapshot) submitted)) (\<lambda>merged.
    fbind (fread (validate_tree_materialization A (sn_tree snapshot) merged)) (\<lambda>_ c.
      case materialize_tree A (sn_tree snapshot) merged c of
        (Inl e, c1) \<Rightarrow> undone A snapshot e c1
      | (Inr _, c1) \<Rightarrow> (Inr (), c1)))"

definition integrate_submission :: "approval \<Rightarrow> string \<Rightarrow> RuntimeTaskContext \<Rightarrow> CanonicalWorkspaceSnapshot fop" where
  "integrate_submission A root context =
    fbind (fread (task_submission_trees A context)) (\<lambda>(baseline, submitted).
    fbind (fread (\<lambda>_. tree_changes A baseline submitted)) (\<lambda>submitted_changes.
    fbind (fread (\<lambda>_. reject_sparse_checkout_exclusions A submitted_changes)) (\<lambda>_.
    fbind (fread (capture_snapshot A root)) (\<lambda>snapshot.
    fbind (integrate_patch_three_way A snapshot baseline submitted) (\<lambda>_.
      fread (\<lambda>_. Inr snapshot))))))"

definition write_integration_error :: "RuntimeTaskContext \<Rightarrow> string \<Rightarrow> unit fop" where
  "write_integration_error context reason =
    write_integration_error_for_run_dir (x_run_dir context)
      (''# Integration Error'' @ blank @ ''Task: '' @ x_task_id context @ blank @ reason @ blank @
       ''Suggested next step: call `/reject` with these conflict details so the Executor can rebase or adjust the patch.'' @
       [newline])"

definition unmerged_reason :: "string \<Rightarrow> RuntimeTaskContext \<Rightarrow> err \<Rightarrow> string" where
  "unmerged_reason root context e =
    ''Cannot approve task '' @ x_task_id context @
    '' because its submitted changes could not be merged into '' @ root @ '': '' @ bounded_git_detail (err_text e)"

definition integration_saved :: "RuntimeTaskContext \<Rightarrow> string" where
  "integration_saved context = ''Integration error was saved to '' @ x_run_dir context @ ''/INTEGRATION_ERROR.md. ''"

definition report_unmerged :: "string \<Rightarrow> RuntimeTaskContext \<Rightarrow> err \<Rightarrow> 'a tool" where
  "report_unmerged root context e w =
    (let reason = unmerged_reason root context e in
     case on_files (write_integration_error context reason) w of
       (Inl report_error, w1) \<Rightarrow>
         (Inl (in_context (reason @ blank @ ''Failed to save integration diagnostics: '' @ err_text report_error) e), w1)
     | (Inr _, w1) \<Rightarrow>
         tbind (best_effort (on_db (record_task_integration_failed (x_task_id context) (x_run_id context) reason))) (\<lambda>_.
           tool_res (Inl (in_context (reason @ blank @ integration_saved context @
             ''Reject this review with the conflict details so an Executor can address it.'') e))) w1)"

definition apply_approved_patch ::
  "approval \<Rightarrow> string \<Rightarrow> RuntimeTaskContext \<Rightarrow> CanonicalWorkspaceSnapshot option tool" where
  "apply_approved_patch A root context =
    tbind (read_files (read_patch_for_run_dir (x_run_dir context))) (\<lambda>patch.
      if trim patch = [] then tool_ret None
      else (\<lambda>w. case on_files (integrate_submission A root context) w of
          (Inl e, w1) \<Rightarrow> report_unmerged root context e w1
        | (Inr snapshot, w1) \<Rightarrow> (Inr (Some snapshot), w1)))"

definition integration_gate :: "approval \<Rightarrow> site \<Rightarrow> RuntimeTaskContext \<Rightarrow> Config \<Rightarrow> CheckGateResult fop" where
  "integration_gate A H context config c =
    (case h_log H of (ts, pid, sequence) \<Rightarrow>
       (case check_gate_run (a_exec A (files c)) (cfg_commands config) (cfg_max_feedback_lines config)
               (x_check_retries context + 1) (log_scope context) ts pid sequence c of
          (r, c') \<Rightarrow> (r, c' \<lparr> files := a_checks_did A (files c') \<rparr>)))"

definition unchecked_reason :: "RuntimeTaskContext \<Rightarrow> CheckFailure \<Rightarrow> string" where
  "unchecked_reason context failure =
    ''Cannot approve task '' @ x_task_id context @
    '' because configured checks failed after applying its patch to the canonical workspace.'' @ blank @ cf_report failure"

definition run_post_apply_integration_checks ::
  "approval \<Rightarrow> site \<Rightarrow> RuntimeTaskContext \<Rightarrow> Config \<Rightarrow> unit tool" where
  "run_post_apply_integration_checks A H context config =
    (if cfg_commands config = [] then tool_ret ()
     else tbind (on_files (integration_gate A H context config)) (\<lambda>gate.
       case gate of
         GatePassed \<Rightarrow>
           runtime_event (x_run_id context) ''approve_integration_check_passed''
             (JObj [(''task_id'', JStr (x_task_id context)),
                    (''commands'', JInt (int (length (cfg_commands config))))])
       | GateFailed failure \<Rightarrow>
           tbind (on_files (write_integration_error context (unchecked_reason context failure))) (\<lambda>_.
           tbind (best_effort (on_db (record_task_integration_failed (x_task_id context) (x_run_id context)
                    (cf_failure_reason failure)))) (\<lambda>_.
           tbind (runtime_event (x_run_id context) ''approve_integration_check_failed''
                    (JObj [(''task_id'', JStr (x_task_id context)),
                           (''failure_reason'', JStr (cf_failure_reason failure))])) (\<lambda>_.
             tool_res (Inl (Bail (unchecked_reason context failure @ blank @ integration_saved context @
               ''The task remains in review and the applied patch was rolled back; '' @
               ''reject this review with the check details so an Executor can address it.''))))))))"

text \<open>A step whose failure is undone.\<close>

definition or_undo :: "approval \<Rightarrow> CanonicalWorkspaceSnapshot \<Rightarrow> 'a tool \<Rightarrow> ('a \<Rightarrow> 'b tool) \<Rightarrow> 'b tool" where
  "or_undo A snapshot m f w =
    (case m w of
       (Inl e, w1) \<Rightarrow> on_files (undone A snapshot e) w1
     | (Inr a, w1) \<Rightarrow> f a w1)"

definition preserve_index :: "approval \<Rightarrow> CanonicalWorkspaceSnapshot \<Rightarrow> unit fop" where
  "preserve_index A snapshot c =
    (case restore_index (sn_index snapshot) c of
       (Inr _, c1) \<Rightarrow> (Inr (), c1)
     | (Inl e, c1) \<Rightarrow>
         (case restore_snapshot A snapshot c1 of
            (Inl rollback, c2) \<Rightarrow> (Inl (EffectUnknown e rollback), c2)
          | (Inr _, c2) \<Rightarrow>
              (Inl (in_context ''Failed to preserve the pre-integration canonical index'' e), c2)))"

definition check_integration ::
  "approval \<Rightarrow> site \<Rightarrow> RuntimeTaskContext \<Rightarrow> CanonicalWorkspaceSnapshot \<Rightarrow> unit tool" where
  "check_integration A H context snapshot =
    or_undo A snapshot (read_files (\<lambda>c. a_config A (files c))) (\<lambda>config.
    or_undo A snapshot (run_post_apply_integration_checks A H context config) (\<lambda>_.
      on_files (preserve_index A snapshot)))"

definition canonical_approval_path :: "string \<Rightarrow> string \<Rightarrow> string" where
  "canonical_approval_path root path = (if is_absolute path then path else path_join root path)"

definition complete_task :: "string \<Rightarrow> RuntimeTaskContext \<Rightarrow> unit tool" where
  "complete_task root context =
    tbind (case (x_spec_path context, x_milestone_id context) of
        (Some spec_path, Some milestone_id) \<Rightarrow>
          on_files (complete_milestone (canonical_approval_path root spec_path) milestone_id)
      | _ \<Rightarrow> tool_ret ()) (\<lambda>_.
      on_db (\<lambda>d. case record_task_status (x_task_id context) (x_task_path context) Complete d of
        Inl e \<Rightarrow> (Inl e, d) | Inr d' \<Rightarrow> (Inr (), d')))"

definition integrate_approved_task :: "approval \<Rightarrow> site \<Rightarrow> string \<Rightarrow> RuntimeTaskContext \<Rightarrow> unit tool" where
  "integrate_approved_task A H root context =
    tbind (apply_approved_patch A root context) (\<lambda>snapshot.
      case snapshot of
        None \<Rightarrow> complete_task root context
      | Some snapshot \<Rightarrow>
          tbind (check_integration A H context snapshot) (\<lambda>_.
            or_undo A snapshot (complete_task root context) tool_ret))"


section \<open>The canonical graph after an integration\<close>

datatype CanonicalSourceObservation = Disabled | Observed CanonicalSourceIdentity | Unavailable

definition observe_canonical_source :: "approval \<Rightarrow> checkout \<Rightarrow> CanonicalSourceObservation" where
  "observe_canonical_source A c =
    (case a_source A (files c) of
       Inr (Some source) \<Rightarrow> Observed source
     | Inr None \<Rightarrow> Disabled
     | Inl _ \<Rightarrow> Unavailable)"

fun observed_source :: "CanonicalSourceObservation \<Rightarrow> CanonicalSourceIdentity option" where
  "observed_source (Observed source) = Some source"
| "observed_source _ = None"

definition invalidation_reason :: "bool \<Rightarrow> CanonicalSourceObservation \<Rightarrow> CanonicalInvalidationReason" where
  "invalidation_reason succeeded observation =
    (if observed_source observation = None then SourceComparisonUnavailable
     else if succeeded then ApprovedIntegration else PartialMutation)"

text \<open>Whether the source is unchanged, so that the graph needs no refresh.\<close>

definition same_source :: "CanonicalSourceObservation \<Rightarrow> CanonicalSourceObservation \<Rightarrow> bool" where
  "same_source old new = (old = new \<and> old \<noteq> Unavailable)"

definition observer_finish ::
  "approval \<Rightarrow> RuntimeTaskContext \<Rightarrow> CanonicalSourceObservation \<Rightarrow> bool \<Rightarrow> bool tool" where
  "observer_finish A context old succeeded w =
    (let new = observe_canonical_source A (w_files w) in
     if same_source old new then (Inr False, w)
     else tbind (best_effort (on_db (record_canonical_graph_invalidation_at (x_task_id context) (x_run_id context)
              (observed_source new) (invalidation_reason succeeded new)))) (\<lambda>_.
            tool_ret (new \<noteq> Disabled)) w)"

text \<open>The loop waits while another refresh runs; \<open>a_refresh_waits\<close> is what happens to the database in each of these
  rounds. The guard that counts is the one read at the start of the last round.\<close>

definition refresh_canonical_graph_best_effort :: "approval \<Rightarrow> string \<Rightarrow> string option \<Rightarrow> string tool" where
  "refresh_canonical_graph_best_effort A tid run_id w =
    (let d = fold (\<lambda>change. change) (a_refresh_waits A) (w_db w);
         guard = canonical_graph_refresh_guard d;
         d1 = a_refresh_meanwhile A d in
     case a_refresh A of
       Inr None \<Rightarrow> (Inr ''disabled'', w \<lparr> w_db := d1 \<rparr>)
     | Inr (Some (source, snapshot_id, build_id)) \<Rightarrow>
         (case record_canonical_graph_refresh (Some tid) run_id guard source snapshot_id build_id d1 of
            (r, d2) \<Rightarrow>
              (Inr (case r of Inr RefreshRecorded \<Rightarrow> ''published'' | Inr RefreshSuperseded \<Rightarrow> ''superseded''
                    | Inl _ \<Rightarrow> ''failed''), w \<lparr> w_db := d2 \<rparr>))
     | Inl _ \<Rightarrow>
         (Inr ''failed'', w \<lparr> w_db := record_canonical_graph_refresh_failed_best_effort tid run_id guard d1 \<rparr>))"


section \<open>The workspace of the approved task\<close>

text \<open>\<open>Path::starts_with\<close> compares the components of the paths.\<close>

definition components :: "string \<Rightarrow> string list" where
  "components p =
    (if is_absolute p then [''/''] else if has_prefix ''./'' p \<or> p = ''.'' then [''.''] else []) @ path_components p"

definition is_managed_workspace_path :: "string \<Rightarrow> string \<Rightarrow> bool" where
  "is_managed_workspace_path path managed_root =
    (let cs = components path; rs = components managed_root in
     length rs \<le> length cs \<and> take (length rs) cs = rs \<and> cs \<noteq> rs)"

definition stderr_or_status :: "Output \<Rightarrow> string" where
  "stderr_or_status out =
    (let stderr = trim (from_utf8_lossy (out_stderr out)) in if stderr = [] then out_status out else stderr)"

definition executor_baseline_ref :: "string \<Rightarrow> string" where
  "executor_baseline_ref tid = ''refs/ferrus/baselines/'' @ tid"

definition delete_baseline_ref :: "approval \<Rightarrow> string \<Rightarrow> unit res" where
  "delete_baseline_ref A baseline_ref =
    (case a_show_ref A baseline_ref of
       Inl _ \<Rightarrow> Inr ()
     | Inr exists \<Rightarrow>
         if \<not> out_success exists then Inr ()
         else
           let message = ''Failed to remove executor baseline ref '' @ baseline_ref in
           res_bind (res_context message (a_delete_ref A baseline_ref)) (\<lambda>out.
             ensure (out_success out) (Bail (message @ '': '' @ stderr_or_status out))))"

definition remove_executor_baseline :: "approval \<Rightarrow> string \<Rightarrow> string \<Rightarrow> unit fop" where
  "remove_executor_baseline A data_dir tid =
    fbind (fread (\<lambda>_. delete_baseline_ref A (executor_baseline_ref tid))) (\<lambda>_.
      remove_existing (path_join (path_join (path_join data_dir ''worktrees'') ''.baseline-trees'') (tid @ ''.txt''))
        ''Failed to remove executor baseline metadata '')"

definition remove_worktree :: "approval \<Rightarrow> string \<Rightarrow> unit res" where
  "remove_worktree A workspace =
    res_bind (a_exists A workspace) (\<lambda>exists.
      if \<not> exists then Inr ()
      else res_bind (a_worktree_remove A workspace) (\<lambda>out.
        ensure (out_success out)
          (Bail (''Failed to remove approved task worktree at '' @ workspace @ '': '' @ stderr_or_status out))))"

definition canonical_or_same :: "approval \<Rightarrow> string \<Rightarrow> string" where
  "canonical_or_same A path = (case a_canonicalize A path of Some p \<Rightarrow> p | None \<Rightarrow> path)"

definition cleanup_approved_workspace :: "approval \<Rightarrow> RuntimeTaskContext \<Rightarrow> bool fop" where
  "cleanup_approved_workspace A context =
    fbind (fread (read_path ''.ferrus/project.toml'')) (\<lambda>local_ref.
    fbind (fread (\<lambda>_. a_data_dir A local_ref)) (\<lambda>data_dir.
      let managed_root = path_join data_dir ''worktrees'';
          workspace = canonical_or_same A (path_join managed_root (x_task_id context)) in
      if \<not> is_managed_workspace_path workspace (canonical_or_same A managed_root) then fread (\<lambda>_. Inr False)
      else
        fbind (fread (\<lambda>_. remove_worktree A workspace)) (\<lambda>_.
        fbind (remove_executor_baseline A data_dir (x_task_id context)) (\<lambda>_.
          fread (\<lambda>_. Inr True)))))"


section \<open>The tool\<close>

definition after_integration :: "approval \<Rightarrow> site \<Rightarrow> RuntimeTaskContext \<Rightarrow> bool \<Rightarrow> bool \<Rightarrow> unit tool" where
  "after_integration A H context succeeded refresh =
    tbind (if succeeded
           then tbind (release_submitted_tree_pin_for_task_best_effort H (x_task_id context)) (\<lambda>_.
             best_effort (on_files (cleanup_approved_workspace A context)))
           else tool_ret ()) (\<lambda>_.
      if refresh then best_effort (refresh_canonical_graph_best_effort A (x_task_id context) (x_run_id context))
      else tool_ret ())"

text \<open>The approval lock is held from \<open>a_lock\<close> to the end of \<open>observer_finish\<close>. What happens after it cannot fail.\<close>

definition approve_locked :: "approval \<Rightarrow> site \<Rightarrow> string \<Rightarrow> RuntimeTaskContext \<Rightarrow> unit tool" where
  "approve_locked A H root context w =
    (case integrate_approved_task A H root context w of
       (r, w1) \<Rightarrow>
         (case tbind (observer_finish A context (observe_canonical_source A (w_files w)) (\<not> isl r))
                 (after_integration A H context (\<not> isl r)) w1 of
            (_, w2) \<Rightarrow> (r, w2)))"

definition approve_run_for_context :: "approval \<Rightarrow> site \<Rightarrow> string \<Rightarrow> RuntimeTaskContext \<Rightarrow> string tool" where
  "approve_run_for_context A H root context =
    tbind (tool_res (a_lock A)) (\<lambda>_.
    tbind (\<lambda>w. (Inr (), a_waited A w)) (\<lambda>_.
    tbind (approve_locked A H root context) (\<lambda>_.
    tbind (runtime_event (x_run_id context) ''approved'' (JObj [(''task_id'', JStr (x_task_id context))])) (\<lambda>_.
      tool_ret ''Task approved. State: Complete. Well done!''))))"

definition approve :: "approval \<Rightarrow> site \<Rightarrow> env \<Rightarrow> string \<Rightarrow> string tool" where
  "approve A H E agent =
    tbind (tool_res (a_root A)) (\<lambda>root.
    tbind (require_runtime_task_context agent) (\<lambda>context.
    tbind (tool_res (context_status context)) (\<lambda>status.
    if status \<noteq> Reviewing
    then tool_res (wrong_state ''Cannot approve from state '' context ''. Call /review_pending first.'')
    else
      tbind (ensure_lease_owner_or_reclaim E agent) (\<lambda>_.
        approve_run_for_context A H root context))))"


section \<open>Undoing an integration\<close>

text \<open>What the program relies on of Git: \<open>T t\<close> is the files of the tree \<open>t\<close>. A captured tree holds files of the
  workspace with their contents, and a successful \<open>read-tree --reset -u\<close> checks out every file of the tree.\<close>

definition git_trees :: "approval \<Rightarrow> (string \<Rightarrow> filemap) \<Rightarrow> bool" where
  "git_trees A T =
    ((\<forall>fs t. a_capture A fs = Inr t \<longrightarrow> T t \<subseteq>\<^sub>m fs) \<and>
     (\<forall>index t fs out fs'. a_reset_worktree A index t fs = (Inr out, fs') \<longrightarrow> out_success out \<longrightarrow> T t \<subseteq>\<^sub>m fs'))"

text \<open>Trees hold neither the files of the repository itself nor the runtime files of the program.\<close>

definition outside_trees :: "approval \<Rightarrow> (string \<Rightarrow> filemap) \<Rightarrow> string \<Rightarrow> bool" where
  "outside_trees A T p = (\<forall>fs t. a_capture A fs = Inr t \<longrightarrow> T t p = None)"

definition integration_error_path :: "RuntimeTaskContext \<Rightarrow> checkout \<Rightarrow> string" where
  "integration_error_path context c = resolve_project_path (run_file (x_run_dir context) ''INTEGRATION_ERROR.md'') c"

definition repository_files :: "approval \<Rightarrow> (string \<Rightarrow> filemap) \<Rightarrow> string \<Rightarrow> RuntimeTaskContext \<Rightarrow> checkout \<Rightarrow> bool" where
  "repository_files A T root context c =
    (outside_trees A T (integration_error_path context c) \<and>
     (\<forall>ix. index_path A root = Inr ix \<longrightarrow>
        outside_trees A T ix \<and> outside_trees A T (ix @ ''.lock'') \<and> integration_error_path context c \<noteq> ix))"

text \<open>The index is what it was, and so is every file of the captured tree.\<close>

definition preserved :: "approval \<Rightarrow> (string \<Rightarrow> filemap) \<Rightarrow> string \<Rightarrow> checkout \<Rightarrow> checkout \<Rightarrow> bool" where
  "preserved A T root c c' =
    ((\<forall>ix. index_path A root = Inr ix \<longrightarrow> files c' ix = files c ix) \<and>
     (\<forall>t. a_capture A (files c) = Inr t \<longrightarrow> T t \<subseteq>\<^sub>m files c'))"

fun known :: "err \<Rightarrow> bool" where
  "known (EffectUnknown e rollback) = False"
| "known e = True"

lemma known_in_context: "known (in_context message e) = known e"
  by (cases e) simp_all

text \<open>Files that an operation leaves alone; the environment of a checkout never changes.\<close>

definition same_place :: "checkout \<Rightarrow> checkout \<Rightarrow> bool" where
  "same_place c c' = (env_root c' = env_root c \<and> local_root c' = local_root c)"

lemma same_place_refl [simp]: "same_place c c" by (simp add: same_place_def)

lemma same_place_trans [trans]: "same_place a b \<Longrightarrow> same_place b c \<Longrightarrow> same_place a c" by (simp add: same_place_def)

lemma same_place_files [simp]:
  "same_place c (c \<lparr> files := fs \<rparr>)" "same_place c (set_file p s c)" "same_place c (unset_file p c)"
  by (simp_all add: same_place_def set_file_def unset_file_def)

lemma same_place_write: "fs_write p s c = (ok, c') \<Longrightarrow> same_place c c'"
  by (auto simp: fs_write_def split: io_outcome.splits)

lemma fbind_cases:
  assumes "fbind m f c = (r, c')"
  obtains e where "m c = (Inl e, c')" "r = Inl e" | a c1 where "m c = (Inr a, c1)" "f a c1 = (r, c')"
  using assms by (auto simp: fbind_def split: prod.splits sum.splits)

lemma fread_iff [simp]: "fread f c = (r, c') \<longleftrightarrow> r = f c \<and> c' = c"
  by (auto simp: fread_def)

lemma remove_existing_effect:
  "remove_existing p message c = (r, c') \<Longrightarrow> same_place c c' \<and> (\<forall>q. q \<noteq> p \<longrightarrow> files c' q = files c q) \<and>
     (r = Inr () \<longrightarrow> files c' p = None)"
  by (auto simp: remove_existing_def unset_file_def split: if_splits)

lemma fs_write_effect:
  "fs_write p s c = (ok, c') \<Longrightarrow> (\<forall>q. q \<noteq> p \<longrightarrow> files c' q = files c q) \<and> (ok \<longrightarrow> files c' p = Some s)"
  by (auto simp: fs_write_def set_file_def split: io_outcome.splits)

lemma publish_index_effect:
  assumes "publish_index lock path contents c = (r, c')" "lock \<noteq> path"
  shows "same_place c c' \<and> (\<forall>q. q \<noteq> path \<and> q \<noteq> lock \<longrightarrow> files c' q = files c q) \<and>
    (r = Inr () \<longrightarrow> files c' path = contents)"
proof (cases contents)
  case None
  obtain r1 c1 where m: "remove_existing path ''Failed to remove Git index '' c = (r1, c1)" by fastforce
  show ?thesis
    using assms remove_existing_effect [OF m]
    by (cases r1) (auto simp: publish_index_def None fbind_def m unset_file_def same_place_def split: if_splits)
next
  case (Some s)
  obtain ok c1 where w: "fs_write lock s c = (ok, c1)" by fastforce
  obtain r2 c2 where m: "remove_existing path ''Failed to replace Git index '' c1 = (r2, c2)" by fastforce
  show ?thesis
  proof (cases "ok \<and> io c1 (SyncOp lock) = Done")
    case False
    then show ?thesis
      using assms fs_write_effect [OF w] same_place_write [OF w]
      by (auto simp: publish_index_def Some fbind_def w ensure_def fread_def split: if_splits)
  next
    case True
    then have "publish_index lock path contents c =
        (case r2 of Inl e \<Rightarrow> (Inl e, c2) | Inr _ \<Rightarrow>
          if io c2 (RenameOp lock path) = Done then (Inr (), unset_file lock (set_file path s c2))
          else (Inl (Bail (''Failed to publish restored Git index '' @ path)), c2))"
      by (cases r2) (simp_all add: publish_index_def Some fbind_def w ensure_def fread_def m)
    then show ?thesis
      using assms Some remove_existing_effect [OF m] fs_write_effect [OF w] same_place_write [OF w]
      by (cases r2) (auto simp: unset_file_def set_file_def same_place_def split: if_splits)
  qed
qed

lemma restore_index_effect:
  assumes "restore_index ix c = (r, c')"
  shows "same_place c c' \<and> (\<forall>q. q \<noteq> ix_path ix \<and> q \<noteq> ix_path ix @ ''.lock'' \<longrightarrow> files c' q = files c q) \<and>
    (r = Inr () \<longrightarrow> files c' (ix_path ix) = ix_contents ix)"
proof (cases "files c (ix_path ix @ ''.lock'') \<noteq> None \<or> io c (CreateNewOp (ix_path ix @ ''.lock'')) \<noteq> Done")
  case True
  then show ?thesis using assms by (auto simp: restore_index_def restore_index_file_def Let_def)
next
  case False
  let ?lock = "ix_path ix @ ''.lock''"
  obtain r1 c1 where p: "publish_index ?lock (ix_path ix) (ix_contents ix) (set_file ?lock [] c) = (r1, c1)" by fastforce
  have "?lock \<noteq> ix_path ix" by simp
  note effect = publish_index_effect [OF p this]
  have out: "(r, c') = (case r1 of Inl e \<Rightarrow> (Inl e, discard_stage ?lock c1) | Inr _ \<Rightarrow> (Inr (), c1))"
    using assms False by (auto simp: restore_index_def restore_index_file_def Let_def p split: sum.splits)
  show ?thesis
    using out effect by (cases r1) (auto simp: discard_stage_def unset_file_def set_file_def same_place_def)
qed


definition restored :: "(string \<Rightarrow> filemap) \<Rightarrow> CanonicalWorkspaceSnapshot \<Rightarrow> checkout \<Rightarrow> bool" where
  "restored T snapshot c =
    (files c (ix_path (sn_index snapshot)) = ix_contents (sn_index snapshot) \<and> T (sn_tree snapshot) \<subseteq>\<^sub>m files c)"

lemma capture_index_iff:
  "capture_index A root c = Inr ix \<longleftrightarrow> index_path A root = Inr (ix_path ix) \<and> ix_contents ix = files c (ix_path ix) \<and>
     (files c (ix_path ix) \<noteq> None \<longrightarrow> io c (ReadOp (ix_path ix)) = Done)"
  by (cases "index_path A root"; cases "files c (projr (index_path A root))"; cases ix) (auto simp: capture_index_def)

lemma captured:
  assumes "capture_snapshot A root c = Inr snapshot"
  shows "index_path A root = Inr (ix_path (sn_index snapshot))"
    "ix_contents (sn_index snapshot) = files c (ix_path (sn_index snapshot))"
    "a_capture A (files c) = Inr (sn_tree snapshot)"
  using assms
  by (auto simp: capture_snapshot_def capture_index_iff res_bind_Inr_iff)

lemma restored_preserved:
  "capture_snapshot A root c = Inr snapshot \<Longrightarrow> restored T snapshot c' \<Longrightarrow> preserved A T root c c'"
  using captured [of A root c snapshot] by (simp add: restored_def preserved_def)

lemma preserved_refl: "git_trees A T \<Longrightarrow> preserved A T root c c"
  by (simp add: preserved_def git_trees_def)

lemma captured_outside:
  assumes "repository_files A T root context c" "capture_snapshot A root c = Inr snapshot"
  shows "T (sn_tree snapshot) (ix_path (sn_index snapshot)) = None"
    "T (sn_tree snapshot) (ix_path (sn_index snapshot) @ ''.lock'') = None"
  using assms(1) captured [OF assms(2)] by (simp_all add: repository_files_def outside_trees_def)

lemma materialize_tree_effect:
  assumes "materialize_tree A current_tree target c = (r, c')" "git_trees A T"
  shows "same_place c c'" "r = Inr () \<Longrightarrow> T target \<subseteq>\<^sub>m files c'"
  using assms
  by (auto simp: materialize_tree_def git_trees_def done_by_def git_success_def Let_def res_bind_Inr_iff
      split: prod.splits sum.splits if_splits)

lemma both_results_ok: "both_results r r' = Inr u \<longleftrightarrow> r = Inr () \<and> r' = Inr ()"
  by (cases "(r, r')" rule: both_results.cases) auto

lemma restore_snapshot_effect:
  assumes "restore_snapshot A snapshot c = (r, c')" "git_trees A T"
    "T (sn_tree snapshot) (ix_path (sn_index snapshot)) = None"
    "T (sn_tree snapshot) (ix_path (sn_index snapshot) @ ''.lock'') = None"
  shows "same_place c c' \<and> (r = Inr () \<longrightarrow> restored T snapshot c')"
proof -
  consider "c' = c" "r \<noteq> Inr ()" | current_tree where
      "(case materialize_tree A current_tree (sn_tree snapshot) c of (r, c1) \<Rightarrow>
          (case restore_index (sn_index snapshot) c1 of
             (r', c2) \<Rightarrow>
               (both_results (res_context ''Failed to restore the pre-integration canonical worktree'' r) r', c2))) = (r, c')"
    using assms(1) unfolding restore_snapshot_def by (elim fbind_cases) simp_all
  then show ?thesis
  proof cases
    case (2 current_tree)
    obtain r1 c1 where m: "materialize_tree A current_tree (sn_tree snapshot) c = (r1, c1)" by fastforce
    obtain r2 c2 where i: "restore_index (sn_index snapshot) c1 = (r2, c2)" by fastforce
    have out: "r = both_results (res_context ''Failed to restore the pre-integration canonical worktree'' r1) r2" "c' = c2"
      using 2 by (simp_all add: m i)
    note index = restore_index_effect [OF i] and tree = materialize_tree_effect [OF m assms(2)]
    have "same_place c c'" using index tree(1) out(2) by (auto intro: same_place_trans)
    moreover have "restored T snapshot c'" if "r = Inr ()"
    proof -
      have ok: "r1 = Inr ()" "r2 = Inr ()"
        using that out(1) by (auto simp: both_results_ok res_context_def split: sum.splits)
      show ?thesis
        using tree(2) [OF ok(1)] index ok(2) out(2) assms(3,4) unfolding restored_def map_le_def
        by (metis domIff)
    qed
    ultimately show ?thesis by simp
  qed simp
qed

lemma undone_effect:
  assumes "undone A snapshot e c = (r, c')" "git_trees A T"
    "T (sn_tree snapshot) (ix_path (sn_index snapshot)) = None"
    "T (sn_tree snapshot) (ix_path (sn_index snapshot) @ ''.lock'') = None"
  shows "same_place c c'" "\<exists>e'. r = Inl e' \<and> (known e' \<longrightarrow> restored T snapshot c')"
proof -
  obtain x c1 where x: "restore_snapshot A snapshot c = (x, c1)" by fastforce
  have "same_place c c' \<and> (\<exists>e'. r = Inl e' \<and> (known e' \<longrightarrow> restored T snapshot c'))"
    using assms(1) restore_snapshot_effect [OF x assms(2-4)] by (cases x) (auto simp: undone_def x)
  then show "same_place c c'" "\<exists>e'. r = Inl e' \<and> (known e' \<longrightarrow> restored T snapshot c')" by blast+
qed

lemma preserve_index_effect:
  assumes "preserve_index A snapshot c = (r, c')" "git_trees A T"
    "T (sn_tree snapshot) (ix_path (sn_index snapshot)) = None"
    "T (sn_tree snapshot) (ix_path (sn_index snapshot) @ ''.lock'') = None"
  shows "r = Inl e \<Longrightarrow> known e \<Longrightarrow> restored T snapshot c'"
proof -
  assume e: "r = Inl e" "known e"
  obtain r1 c1 where i: "restore_index (sn_index snapshot) c = (r1, c1)" by fastforce
  obtain x c2 where x: "restore_snapshot A snapshot c1 = (x, c2)" by fastforce
  show ?thesis
    using assms(1) e restore_snapshot_effect [OF x assms(2-4)]
    by (cases r1; cases x) (auto simp: preserve_index_def i x known_in_context)
qed

lemma integrate_submission_cases:
  assumes "integrate_submission A root context c = (r, c')"
  obtains e where "r = Inl e" "c' = c"
  | baseline submitted taken r1 where "task_submission_trees A context c = Inr (baseline, submitted)"
      "capture_snapshot A root c = Inr taken" "integrate_patch_three_way A taken baseline submitted c = (r1, c')"
      "r = map_sum id (\<lambda>_. taken) r1"
proof -
  have r: "r = fst (integrate_submission A root context c)" "c' = snd (integrate_submission A root context c)"
    by (simp_all add: assms)
  have "(\<exists>e. r = Inl e \<and> c' = c) \<or> (\<exists>baseline submitted taken r1. task_submission_trees A context c = Inr (baseline, submitted) \<and>
      capture_snapshot A root c = Inr taken \<and> integrate_patch_three_way A taken baseline submitted c = (r1, c') \<and>
      r = map_sum id (\<lambda>_. taken) r1)"
  proof (cases "task_submission_trees A context c")
    case (Inr trees)
    then obtain baseline submitted where trees: "task_submission_trees A context c = Inr (baseline, submitted)" by (cases trees) simp
    show ?thesis
    proof (cases "tree_changes A baseline submitted")
      case changes: (Inr changes)
      show ?thesis
      proof (cases "reject_sparse_checkout_exclusions A changes")
        case sparse: (Inr u)
        show ?thesis
        proof (cases "capture_snapshot A root c")
          case taken: (Inr taken)
          obtain r1 c1 where m: "integrate_patch_three_way A taken baseline submitted c = (r1, c1)" by fastforce
          have "r = map_sum id (\<lambda>_. taken) r1" "c1 = c'"
            using assms m by (cases r1; simp add: integrate_submission_def fbind_def fread_def trees changes sparse taken)+
          then show ?thesis using trees taken m by blast
        qed (simp add: r integrate_submission_def fbind_def fread_def trees changes sparse)
      qed (simp add: r integrate_submission_def fbind_def fread_def trees changes)
    qed (simp add: r integrate_submission_def fbind_def fread_def trees)
  qed (simp add: r integrate_submission_def fbind_def fread_def)
  then show thesis using that by blast
qed

lemma integrate_patch_cases:
  assumes "integrate_patch_three_way A snapshot baseline submitted c = (r, c')"
  obtains e where "r = Inl e" "c' = c"
  | merged r1 c1 where "merge_trees A baseline (sn_tree snapshot) submitted = Inr merged"
      "materialize_tree A (sn_tree snapshot) merged c = (r1, c1)"
      "(case r1 of Inl e \<Rightarrow> undone A snapshot e c1 | Inr _ \<Rightarrow> (Inr (), c1)) = (r, c')"
proof (cases "merge_trees A baseline (sn_tree snapshot) submitted")
  case (Inl e)
  then have "integrate_patch_three_way A snapshot baseline submitted c = (Inl e, c)"
    by (simp add: integrate_patch_three_way_def fbind_def fread_def)
  then show ?thesis using assms that(1) by simp
next
  case merged: (Inr merged)
  obtain r1 c1 where m: "materialize_tree A (sn_tree snapshot) merged c = (r1, c1)" by fastforce
  show ?thesis
  proof (cases "validate_tree_materialization A (sn_tree snapshot) merged c")
    case (Inl e)
    then have "integrate_patch_three_way A snapshot baseline submitted c = (Inl e, c)"
      by (simp add: integrate_patch_three_way_def fbind_def fread_def merged)
    then show ?thesis using assms that(1) by simp
  next
    case (Inr u)
    then have "integrate_patch_three_way A snapshot baseline submitted c =
        (case r1 of Inl e \<Rightarrow> undone A snapshot e c1 | Inr _ \<Rightarrow> (Inr (), c1))"
      by (simp add: integrate_patch_three_way_def fbind_def fread_def merged m)
    then show ?thesis using assms by (intro that(2) [OF merged m]) simp
  qed
qed

lemma integrate_patch_effect:
  assumes "integrate_patch_three_way A snapshot baseline submitted c = (r, c')" "git_trees A T"
    "capture_snapshot A root c = Inr snapshot" "repository_files A T root context c"
  shows "same_place c c' \<and> (\<forall>e. r = Inl e \<longrightarrow> known e \<longrightarrow> preserved A T root c c')"
  using assms(1)
proof (cases rule: integrate_patch_cases)
  case (2 merged r1 c1)
  note place = materialize_tree_effect(1) [OF 2(2) assms(2)]
  show ?thesis
  proof (cases r1)
    case (Inl e)
    then have u: "undone A snapshot e c1 = (r, c')" using 2(3) by simp
    show ?thesis
      using undone_effect [OF u assms(2) captured_outside [OF assms(4,3)]] place restored_preserved [OF assms(3)]
      by (auto intro: same_place_trans)
  qed (use 2(3) place in auto)
qed (simp add: preserved_refl [OF assms(2)])

lemma integrate_submission_effect:
  assumes "integrate_submission A root context c = (r, c')" "git_trees A T" "repository_files A T root context c"
  shows "same_place c c' \<and> (\<forall>e. r = Inl e \<longrightarrow> known e \<longrightarrow> preserved A T root c c') \<and>
    (\<forall>snapshot. r = Inr snapshot \<longrightarrow> capture_snapshot A root c = Inr snapshot)"
  using assms(1)
proof (cases rule: integrate_submission_cases)
  case (2 baseline submitted taken r1)
  then show ?thesis using integrate_patch_effect [OF 2(3) assms(2) 2(2) assms(3)] by (cases r1) auto
qed (simp add: preserved_refl [OF assms(2)])


definition statuses :: "db \<Rightarrow> string \<Rightarrow> string option" where
  "statuses d tid = map_option t_status (find_task tid d)"

lemma write_path_effect:
  assumes "write_path p content c = (r, c')"
  shows "same_place c c' \<and> (\<forall>q. q \<noteq> resolve_project_path p c \<longrightarrow> files c' q = files c q)"
proof -
  obtain ok c1 where w: "fs_write (resolve_project_path p c) content c = (ok, c1)" by fastforce
  show ?thesis
    using assms fs_write_effect [OF w] same_place_write [OF w]
    by (cases "create_parent (resolve_project_path p c) c") (auto simp: write_path_def Let_def w)
qed

lemma write_integration_error_effect:
  assumes "write_integration_error context reason c = (r, c')"
  shows "same_place c c'" "q \<noteq> integration_error_path context c \<Longrightarrow> files c' q = files c q"
  using assms write_path_effect
  by (auto simp: write_integration_error_def write_integration_error_for_run_dir_def integration_error_path_def)

lemma integration_error_path_same: "same_place c c' \<Longrightarrow> integration_error_path context c' = integration_error_path context c"
  unfolding same_place_def integration_error_path_def resolve_project_path_def project_root_from_env_def
  by (elim conjE) (simp only:)

lemma preserved_write:
  assumes "preserved A T root c c1" "same_place c c1" "repository_files A T root context c"
    "write_integration_error context reason c1 = (r, c2)"
  shows "preserved A T root c c2"
proof -
  have other: "files c2 q = files c1 q" if "q \<noteq> integration_error_path context c" for q
    using write_integration_error_effect(2) [OF assms(4)] that integration_error_path_same [OF assms(2)] by simp
  have "T t \<subseteq>\<^sub>m files c2" if t: "a_capture A (files c) = Inr t" for t
  proof -
    have "T t \<subseteq>\<^sub>m files c1" using assms(1) t by (simp add: preserved_def)
    moreover have "T t (integration_error_path context c) = None"
      using assms(3) t by (simp add: repository_files_def outside_trees_def)
    ultimately show ?thesis using other unfolding map_le_def by (metis domIff)
  qed
  then show ?thesis
    using assms(1,3) other by (auto simp: preserved_def repository_files_def)
qed

lemma integration_failed_effect:
  "best_effort (on_db (record_task_integration_failed tid run_id reason)) w = (r, w') \<Longrightarrow>
     r = Inr () \<and> w_files w' = w_files w \<and> statuses (w_db w') = statuses (w_db w)"
  by (auto simp: best_effort_def on_db_def record_task_integration_failed_def Let_def statuses_def fun_eq_iff
      insert_event_def insert_event_in_transaction_def row_simps option.map_comp comp_def
      split: sum.splits option.splits if_splits)

lemma runtime_event_effect:
  "runtime_event run_id kind payload w = (r, w') \<Longrightarrow>
     r = Inr () \<and> w_files w' = w_files w \<and> statuses (w_db w') = statuses (w_db w)"
  by (auto simp: runtime_event_def best_effort_def on_db_def record_runtime_event_def insert_event_def statuses_def fun_eq_iff
      insert_event_in_transaction_def split: sum.splits option.splits if_splits)

lemma on_files_iff: "on_files f w = (r, w') \<longleftrightarrow> (\<exists>c. f (w_files w) = (r, c) \<and> w' = w \<lparr> w_files := c \<rparr>)"
  by (auto simp: on_files_def split: prod.splits)

lemma tbind_cases:
  assumes "tbind m f w = (r, w')"
  obtains e where "m w = (Inl e, w')" "r = Inl e" | a w1 where "m w = (Inr a, w1)" "f a w1 = (r, w')"
  using assms by (auto simp: tbind_def split: prod.splits sum.splits)


lemma report_unmerged_effect:
  assumes "report_unmerged root context e w = (r, w')"
  obtains e' reason x c where "r = Inl e'" "known e' = known e" "statuses (w_db w') = statuses (w_db w)"
    "write_integration_error context reason (w_files w) = (x, c)" "w_files w' = c"
proof -
  let ?reason = "unmerged_reason root context e"
  obtain x c where x: "write_integration_error context ?reason (w_files w) = (x, c)" by fastforce
  obtain y w2 where y: "best_effort (on_db (record_task_integration_failed (x_task_id context) (x_run_id context) ?reason))
      (w \<lparr> w_files := c \<rparr>) = (y, w2)" by fastforce
  show thesis
    using assms integration_failed_effect [OF y] that [OF _ _ _ x]
    by (cases x) (auto simp: report_unmerged_def Let_def on_files_def x tbind_def y tool_res_def known_in_context)
qed

lemma apply_patch_effect:
  assumes "apply_approved_patch A root context w = (r, w')" "git_trees A T"
    "repository_files A T root context (w_files w)"
    "read_patch_for_run_dir (x_run_dir context) (w_files w) = Inr patch" "trim patch \<noteq> []"
  shows "statuses (w_db w') = statuses (w_db w) \<and>
    (\<forall>e. r = Inl e \<longrightarrow> known e \<longrightarrow> preserved A T root (w_files w) (w_files w')) \<and>
    (\<forall>x. r = Inr x \<longrightarrow> (\<exists>snapshot. x = Some snapshot \<and> capture_snapshot A root (w_files w) = Inr snapshot))"
proof -
  obtain r1 c1 where m: "integrate_submission A root context (w_files w) = (r1, c1)" by fastforce
  note effect = integrate_submission_effect [OF m assms(2,3)]
  show ?thesis
  proof (cases r1)
    case (Inl e)
    then have rep: "report_unmerged root context e (w \<lparr> w_files := c1 \<rparr>) = (r, w')"
      using assms(1,4,5) m by (simp add: apply_approved_patch_def tbind_def read_files_def on_files_def)
    then show ?thesis
    proof (rule report_unmerged_effect)
      fix e' reason x c assume "r = Inl e'" "known e' = known e" "statuses (w_db w') = statuses (w_db (w \<lparr> w_files := c1 \<rparr>))"
        and wr: "write_integration_error context reason (w_files (w \<lparr> w_files := c1 \<rparr>)) = (x, c)" and "w_files w' = c"
      then show ?thesis
        using effect Inl preserved_write [OF _ _ assms(3), of c1 reason x c] by auto
    qed
  next
    case (Inr snapshot)
    then show ?thesis
      using assms(1,4,5) m effect by (auto simp: apply_approved_patch_def tbind_def read_files_def on_files_def)
  qed
qed

lemma post_checks_statuses:
  assumes "run_post_apply_integration_checks A H context config w = (r, w')"
  shows "statuses (w_db w') = statuses (w_db w)"
proof (cases "cfg_commands config = []")
  case False
  show ?thesis
    using assms False unfolding run_post_apply_integration_checks_def
    by (auto simp: on_files_iff tool_res_def dest!: integration_failed_effect runtime_event_effect
        elim!: tbind_cases split: CheckGateResult.splits)
qed (use assms in \<open>simp add: run_post_apply_integration_checks_def tool_ret_def\<close>)

lemma or_undo_effect:
  assumes "or_undo A snapshot m f w = (r, w')" "git_trees A T"
    "T (sn_tree snapshot) (ix_path (sn_index snapshot)) = None"
    "T (sn_tree snapshot) (ix_path (sn_index snapshot) @ ''.lock'') = None"
  obtains e w1 e' where "m w = (Inl e, w1)" "w_db w' = w_db w1" "r = Inl e'" "known e' \<longrightarrow> restored T snapshot (w_files w')"
  | a w1 where "m w = (Inr a, w1)" "f a w1 = (r, w')"
proof -
  obtain x w1 where x: "m w = (x, w1)" by fastforce
  show thesis
  proof (cases x)
    case (Inl e)
    then have u: "undone A snapshot e (w_files w1) = (r, w_files w')" "w_db w' = w_db w1"
      using assms(1) x by (auto simp: or_undo_def on_files_iff)
    then show ?thesis using that(1) x Inl undone_effect(2) [OF u(1) assms(2-4)] by blast
  next
    case (Inr a)
    then show ?thesis using that(2) x assms(1) by (simp add: or_undo_def)
  qed
qed

lemma check_integration_effect:
  assumes "check_integration A H context snapshot w = (r, w')" "git_trees A T"
    "T (sn_tree snapshot) (ix_path (sn_index snapshot)) = None"
    "T (sn_tree snapshot) (ix_path (sn_index snapshot) @ ''.lock'') = None"
  shows "statuses (w_db w') = statuses (w_db w) \<and> (\<forall>e. r = Inl e \<longrightarrow> known e \<longrightarrow> restored T snapshot (w_files w'))"
  using assms(1) unfolding check_integration_def
proof (rule or_undo_effect [OF _ assms(2-4)], goal_cases)
  case (2 config w1)
  then have w1: "w1 = w" by (simp add: read_files_def)
  from 2(2) show ?case
  proof (rule or_undo_effect [OF _ assms(2-4)], goal_cases)
    case (1 e w2 e')
    then show ?case using post_checks_statuses [OF 1(1)] w1 by simp
  next
    case (2 u w2)
    obtain c where c: "preserve_index A snapshot (w_files w2) = (r, c)" "w' = w2 \<lparr> w_files := c \<rparr>"
      using 2(2) by (auto simp: on_files_iff)
    show ?case using post_checks_statuses [OF 2(1)] w1 c(2) preserve_index_effect [OF c(1) assms(2-4)] by simp
  qed
qed (auto simp: read_files_def)

lemma complete_task_fails: "complete_task root context w = (Inl e, w') \<Longrightarrow> w_db w' = w_db w"
  by (auto simp: complete_task_def on_files_iff tool_ret_def on_db_def elim!: tbind_cases
      split: option.splits prod.splits sum.splits)

lemma failed_integration_undone:
  assumes "integrate_approved_task A H root context w = (Inl e, w')" "known e" "git_trees A T"
    "repository_files A T root context (w_files w)"
    "read_patch_for_run_dir (x_run_dir context) (w_files w) = Inr patch" "trim patch \<noteq> []"
  shows "preserved A T root (w_files w) (w_files w') \<and> statuses (w_db w') = statuses (w_db w)"
  using assms(1) unfolding integrate_approved_task_def
proof (rule tbind_cases, goal_cases)
  case (1 e')
  then show ?case using apply_patch_effect [OF _ assms(3-6)] assms(2) by fastforce
next
  case (2 x w1)
  obtain snapshot where x: "x = Some snapshot" and cap: "capture_snapshot A root (w_files w) = Inr snapshot"
    and st: "statuses (w_db w1) = statuses (w_db w)"
    using apply_patch_effect [OF 2(1) assms(3-6)] by auto
  note outside = captured_outside [OF assms(4) cap]
  note kept = restored_preserved [OF cap]
  from 2(2) show ?case
    unfolding x option.case
  proof (rule tbind_cases, goal_cases)
    case (1 e')
    then show ?case using check_integration_effect [OF 1(1) assms(3) outside] kept st assms(2) by auto
  next
    case (2 u w2)
    note st2 = check_integration_effect [OF 2(1) assms(3) outside]
    from 2(2) show ?case
    proof (rule or_undo_effect [OF _ assms(3) outside], goal_cases)
      case (1 e1 w3 e2)
      then show ?case using complete_task_fails [OF 1(1)] st2 st kept assms(2) by auto
    qed (simp add: tool_ret_def)
  qed
qed


section \<open>After the integration\<close>

definition keeps_statuses :: "(db \<Rightarrow> db) \<Rightarrow> bool" where
  "keeps_statuses f = (\<forall>d. statuses (f d) = statuses d)"

lemma keeps_statuses_fold: "list_all keeps_statuses fs \<Longrightarrow> statuses (fold (\<lambda>f. f) fs d) = statuses d"
  by (induction fs arbitrary: d) (simp_all add: keeps_statuses_def)

lemma graph_rows:
  "find_task k (snd (record_canonical_graph_invalidation_at tid run_id source reason d)) = find_task k d"
  "find_task k (snd (record_canonical_graph_refresh task run_id guard src snapshot build d)) = find_task k d"
  "find_task k (record_canonical_graph_refresh_failed_best_effort tid run_id guard d) = find_task k d"
  unfolding record_canonical_graph_invalidation_at_def record_canonical_graph_refresh_def
    record_canonical_graph_refresh_failed_best_effort_def run_tx_def guarded_update_def Let_def
  by (auto simp: insert_event_in_transaction_def row_simps split: sum.splits option.splits if_splits bool.splits prod.splits)

lemma graph_statuses:
  "statuses (snd (record_canonical_graph_invalidation_at tid run_id source reason d)) = statuses d"
  "statuses (snd (record_canonical_graph_refresh task run_id guard src snapshot build d)) = statuses d"
  "statuses (record_canonical_graph_refresh_failed_best_effort tid run_id guard d) = statuses d"
  by (simp_all add: statuses_def graph_rows fun_eq_iff)

lemma observer_finish_effect:
  "observer_finish A context old ok w = (r, w') \<Longrightarrow> (\<exists>b. r = Inr b) \<and> w_files w' = w_files w \<and>
     w_pins w' = w_pins w \<and> statuses (w_db w') = statuses (w_db w)"
  using graph_statuses(1)
  by (auto simp: observer_finish_def Let_def tbind_def best_effort_def on_db_def tool_ret_def split: if_splits prod.splits)
     (metis snd_conv)+

lemma refresh_effect:
  assumes "list_all keeps_statuses (a_refresh_meanwhile A # a_refresh_waits A)"
    "refresh_canonical_graph_best_effort A tid run_id w = (r, w')"
  shows "w_files w' = w_files w \<and> w_pins w' = w_pins w \<and> statuses (w_db w') = statuses (w_db w)"
proof -
  let ?d = "fold (\<lambda>change. change) (a_refresh_waits A) (w_db w)"
  have "statuses (a_refresh_meanwhile A ?d) = statuses (w_db w)"
    using assms(1) keeps_statuses_fold [of "a_refresh_waits A"] by (simp add: keeps_statuses_def)
  then show ?thesis
    using assms(2) graph_statuses(2) [of "Some tid" run_id "canonical_graph_refresh_guard ?d"] graph_statuses(3)
    by (auto simp: refresh_canonical_graph_best_effort_def Let_def split: sum.splits option.splits prod.splits)
       (metis snd_conv)+
qed


lemma best_effort_iff: "best_effort m w = (r, w') \<longleftrightarrow> r = Inr () \<and> w' = snd (m w)"
  by (auto simp: best_effort_def)

lemma release_effect:
  "release_submitted_tree_pin_for_task_best_effort H tid w = (r, w') \<Longrightarrow>
     r = Inr () \<and> w_files w' = w_files w \<and> w_db w' = w_db w \<and>
     (h_release H \<longrightarrow> h_project_root H = Inr () \<longrightarrow> w_pins w' tid = None)"
  by (cases "h_project_root H") (auto simp: release_submitted_tree_pin_for_task_best_effort_def best_effort_def tbind_def tool_res_def
      release_submitted_tree_pin_def)

lemma cleanup_effect:
  "best_effort (on_files (cleanup_approved_workspace A context)) w = (r, w') \<Longrightarrow> r = Inr () \<and> w_db w' = w_db w \<and> w_pins w' = w_pins w"
  by (auto simp: best_effort_def on_files_def split: prod.splits)

lemma after_integration_effect:
  assumes "list_all keeps_statuses (a_refresh_meanwhile A # a_refresh_waits A)"
    "after_integration A H context succeeded refresh w = (r, w')"
  shows "statuses (w_db w') = statuses (w_db w) \<and> (\<not> succeeded \<longrightarrow> w_files w' = w_files w) \<and>
    (succeeded \<longrightarrow> h_release H \<longrightarrow> h_project_root H = Inr () \<longrightarrow> w_pins w' (x_task_id context) = None)"
proof -
  have last: "w_files w' = w_files w1 \<and> w_pins w' = w_pins w1 \<and> statuses (w_db w') = statuses (w_db w1)"
    if "(if refresh then best_effort (refresh_canonical_graph_best_effort A (x_task_id context) (x_run_id context))
      else tool_ret ()) w1 = (r, w')" for w1
    using that refresh_effect [OF assms(1) surjective_pairing [of "refresh_canonical_graph_best_effort A (x_task_id context) (x_run_id context) w1"]]
    by (cases refresh) (simp_all add: best_effort_iff tool_ret_def)
  show ?thesis
  proof (cases succeeded)
    case False
    then show ?thesis using assms(2) last [of w] by (simp add: after_integration_def tbind_def tool_ret_def)
  next
    case True
    obtain x w1 where x: "release_submitted_tree_pin_for_task_best_effort H (x_task_id context) w = (x, w1)" by fastforce
    obtain y w2 where y: "best_effort (on_files (cleanup_approved_workspace A context)) w1 = (y, w2)" by fastforce
    have "x = Inr ()" "y = Inr ()" using release_effect [OF x] cleanup_effect [OF y] by simp_all
    then show ?thesis
      using assms(2) True last [of w2] release_effect [OF x] cleanup_effect [OF y]
      by (auto simp: after_integration_def tbind_def x y)
  qed
qed

lemma approve_locked_effect:
  assumes "list_all keeps_statuses (a_refresh_meanwhile A # a_refresh_waits A)"
    "approve_locked A H root context w = (r, w')"
  obtains w1 where "integrate_approved_task A H root context w = (r, w1)" "statuses (w_db w') = statuses (w_db w1)"
    "isl r \<longrightarrow> w_files w' = w_files w1"
    "\<not> isl r \<longrightarrow> h_release H \<longrightarrow> h_project_root H = Inr () \<longrightarrow> w_pins w' (x_task_id context) = None"
proof -
  obtain x w1 where x: "integrate_approved_task A H root context w = (x, w1)" by fastforce
  let ?old = "observe_canonical_source A (w_files w)"
  obtain b w2 where o: "observer_finish A context ?old (\<not> isl x) w1 = (Inr b, w2)"
    and same: "w_files w2 = w_files w1" "statuses (w_db w2) = statuses (w_db w1)"
    using observer_finish_effect [of A "context" ?old "\<not> isl x" w1] by (metis prod.collapse)
  obtain y w3 where y: "after_integration A H context (\<not> isl x) b w2 = (y, w3)" by fastforce
  have "r = x" "w' = w3" using assms(2) by (simp_all add: approve_locked_def x tbind_def o y)
  then show thesis
    using that [of w1] x same after_integration_effect [OF assms(1) y] by simp
qed

lemma approve_run_cases:
  assumes "approve_run_for_context A H root context w = (r, w')"
  obtains e where "a_lock A = Inl e"
  | x w1 where "a_lock A = Inr ()" "approve_locked A H root context (a_waited A w) = (x, w1)"
      "isl x \<Longrightarrow> w' = w1 \<and> r = Inl (projl x)" "\<not> isl x \<Longrightarrow> \<not> isl r"
      "w_files w' = w_files w1" "w_pins w' = w_pins w1" "statuses (w_db w') = statuses (w_db w1)"
proof (cases "a_lock A")
  case (Inr u)
  obtain x w1 where x: "approve_locked A H root context (a_waited A w) = (x, w1)" by fastforce
  obtain y w2 where y: "runtime_event (x_run_id context) ''approved'' (JObj [(''task_id'', JStr (x_task_id context))]) w1 = (y, w2)"
    by fastforce
  have pins: "w_pins w2 = w_pins w1"
    using y by (auto simp: runtime_event_def best_effort_def on_db_def split: prod.splits)
  have "(r, w') = (case x of Inl e \<Rightarrow> (Inl e, w1) | Inr _ \<Rightarrow> (Inr ''Task approved. State: Complete. Well done!'', w2))"
    using assms runtime_event_effect [OF y] unfolding approve_run_for_context_def
    by (cases x) (simp_all add: tbind_def tool_res_def tool_ret_def Inr x y)
  then show thesis using that(2) [OF _ x] Inr runtime_event_effect [OF y] pins by (cases x) simp_all
qed (use that(1) in simp)


section \<open>A completed approval\<close>

text \<open>The merge was checked out and every command passed on it.\<close>

definition merged_and_checked ::
  "approval \<Rightarrow> (string \<Rightarrow> filemap) \<Rightarrow> string \<Rightarrow> RuntimeTaskContext \<Rightarrow> checkout \<Rightarrow> string \<Rightarrow> filemap \<Rightarrow> bool" where
  "merged_and_checked A T root context c merged fs =
    ((\<exists>baseline submitted snapshot. task_submission_trees A context c = Inr (baseline, submitted) \<and>
        capture_snapshot A root c = Inr snapshot \<and> merge_trees A baseline (sn_tree snapshot) submitted = Inr merged) \<and>
     T merged \<subseteq>\<^sub>m fs \<and>
     (\<exists>config. a_config A fs = Inr config \<and> list_all (command_passes (a_exec A fs)) (cfg_commands config)))"

lemma applied_patch:
  assumes "apply_approved_patch A root context w = (Inr x, w')" "git_trees A T"
    "read_patch_for_run_dir (x_run_dir context) (w_files w) = Inr patch" "trim patch \<noteq> []"
  obtains baseline submitted snapshot merged where "x = Some snapshot"
    "task_submission_trees A context (w_files w) = Inr (baseline, submitted)"
    "capture_snapshot A root (w_files w) = Inr snapshot"
    "merge_trees A baseline (sn_tree snapshot) submitted = Inr merged" "T merged \<subseteq>\<^sub>m files (w_files w')"
proof -
  obtain r c where m: "integrate_submission A root context (w_files w) = (r, c)" by fastforce
  obtain snapshot where r: "r = Inr snapshot" "x = Some snapshot" "w' = w \<lparr> w_files := c \<rparr>"
    using assms(1,3,4) m
    by (cases r) (auto simp: apply_approved_patch_def tbind_def read_files_def on_files_def elim: report_unmerged_effect)
  from m show thesis
  proof (cases rule: integrate_submission_cases)
    case (2 baseline submitted taken r1)
    have snap: "taken = snapshot" "r1 = Inr ()" using 2(4) r(1) by (cases r1; simp)+
    from 2(3) [unfolded snap(2)] show thesis
    proof (cases rule: integrate_patch_cases)
      case (2 merged r2 c1)
      show thesis
      proof (cases r2)
        case (Inl e)
        then show ?thesis using 2(3) by (auto simp: undone_def split: prod.splits sum.splits)
      next
        case (Inr u)
        then have "T merged \<subseteq>\<^sub>m files c" using materialize_tree_effect(2) [OF 2(2) assms(2)] 2(3) by simp
        then show ?thesis
          using that r(2,3) snap(1) 2(1) \<open>task_submission_trees A context (w_files w) = Inr (baseline, submitted)\<close>
            \<open>capture_snapshot A root (w_files w) = Inr taken\<close> by simp
      qed
    qed simp
  qed (use r in simp)
qed

lemma checks_passed_on:
  assumes "check_integration A H context snapshot w = (Inr u, w')"
  shows "\<exists>config. a_config A (files (w_files w)) = Inr config \<and>
    list_all (command_passes (a_exec A (files (w_files w)))) (cfg_commands config)"
proof -
  have undo: "or_undo A snapshot m f v = (Inr a, v') \<Longrightarrow> \<exists>b v1. m v = (Inr b, v1) \<and> f b v1 = (Inr a, v')" for m f v a v'
    by (auto simp: or_undo_def on_files_def undone_def split: prod.splits sum.splits)
  obtain config where config: "a_config A (files (w_files w)) = Inr config"
    and rest: "or_undo A snapshot (run_post_apply_integration_checks A H context config) (\<lambda>_. on_files (preserve_index A snapshot)) w = (Inr u, w')"
    using undo [OF assms [unfolded check_integration_def]] by (auto simp: read_files_def)
  obtain x w1 where checks: "run_post_apply_integration_checks A H context config w = (Inr x, w1)" using undo [OF rest] by blast
  have "list_all (command_passes (a_exec A (files (w_files w)))) (cfg_commands config)"
  proof (cases "cfg_commands config = []")
    case False
    obtain verdict c where g: "integration_gate A H context config (w_files w) = (verdict, c)" by fastforce
    have "verdict = Inr GatePassed"
      using checks False unfolding run_post_apply_integration_checks_def
      by (cases verdict) (auto simp: tbind_def on_files_def g tool_res_def split: CheckGateResult.splits prod.splits sum.splits)
    then show ?thesis
      using g by (auto simp: integration_gate_def split: prod.splits dest!: gate_verdict)
  qed simp
  then show ?thesis using config by blast
qed

lemma upsert_status: "statuses (upsert_task tid path s sp m d) tid = Some (as_str s)"
  by (cases "find_task tid d") (simp_all add: statuses_def upsert_task_find new_task_row_def)

lemma completed_status:
  assumes "complete_task root context w = (Inr u, w')"
  shows "statuses (w_db w') (x_task_id context) = Some ''complete''"
proof -
  obtain w1 where "on_db (\<lambda>d. case record_task_status (x_task_id context) (x_task_path context) Complete d of
        Inl e \<Rightarrow> (Inl e, d) | Inr d' \<Rightarrow> (Inr (), d')) w1 = (Inr u, w')"
    using assms unfolding complete_task_def by (elim tbind_cases) auto
  then have d: "record_task_status (x_task_id context) (x_task_path context) Complete (w_db w1) = Inr (w_db w')"
    by (auto simp: on_db_def split: sum.splits)
  let ?u = "upsert_task (x_task_id context) (x_task_path context) Complete None None (w_db w1)"
  have "statuses (w_db w') (x_task_id context) = statuses (clear_task_lease (x_task_id context) ?u) (x_task_id context)"
  proof -
    have "w_db w' = projr (record_task_status (x_task_id context) (x_task_path context) Complete (w_db w1))" using d by simp
    then show ?thesis
      by (simp add: record_task_status_def record_task_status_on_connection_def Let_def insert_event_def statuses_def)
  qed
  also have "\<dots> = statuses ?u (x_task_id context)"
    by (simp add: statuses_def clear_task_lease_def row_simps option.map_comp comp_def)
  finally show ?thesis using upsert_status [of "x_task_id context" "x_task_path context" Complete None None "w_db w1"]
    by (simp add: as_str.simps)
qed


lemma completed_integration:
  assumes "integrate_approved_task A H root context w = (Inr u, w')" "git_trees A T"
    "read_patch_for_run_dir (x_run_dir context) (w_files w) = Inr patch" "trim patch \<noteq> []"
  shows "(\<exists>merged fs. merged_and_checked A T root context (w_files w) merged fs) \<and>
    statuses (w_db w') (x_task_id context) = Some ''complete''"
proof -
  obtain x w1 where x: "apply_approved_patch A root context w = (Inr x, w1)"
    and rest: "(case x of None \<Rightarrow> complete_task root context | Some snapshot \<Rightarrow>
        tbind (check_integration A H context snapshot) (\<lambda>_. or_undo A snapshot (complete_task root context) tool_ret)) w1 = (Inr u, w')"
    using assms(1) unfolding integrate_approved_task_def by (elim tbind_cases) simp_all
  obtain baseline submitted snapshot merged where patch: "x = Some snapshot"
      "task_submission_trees A context (w_files w) = Inr (baseline, submitted)"
      "capture_snapshot A root (w_files w) = Inr snapshot"
      "merge_trees A baseline (sn_tree snapshot) submitted = Inr merged" "T merged \<subseteq>\<^sub>m files (w_files w1)"
    by (rule applied_patch [OF x assms(2-4)])
  obtain v w2 where checks: "check_integration A H context snapshot w1 = (Inr v, w2)"
    and finish: "or_undo A snapshot (complete_task root context) tool_ret w2 = (Inr u, w')"
    using rest unfolding patch(1) option.case by (elim tbind_cases) simp_all
  have "merged_and_checked A T root context (w_files w) merged (files (w_files w1))"
    using patch checks_passed_on [OF checks] by (auto simp: merged_and_checked_def)
  moreover have "complete_task root context w2 = (Inr u, w')"
    using finish by (auto simp: or_undo_def on_files_def undone_def tool_ret_def split: prod.splits sum.splits)
  ultimately show ?thesis using completed_status by blast
qed

text \<open>C3: A failed approval is undone. When approving a task with a patch ends in an error, whichever step failed, and
  the error does not say that the rollback failed too, then the index of the repository is what it was when the
  lock was taken, every file of the captured workspace has its old contents (whatever the check commands did to it),
  and no task has changed its status. The premises are what Git documents of captured and checked-out trees,
  that trees contain neither the index nor runtime files, and that no other process changes a status while the graph
  is refreshed.\<close>

theorem failed_approval_is_undone:
  assumes "approve_run_for_context A H root context w = (Inl e, w')" "known e" "a_lock A = Inr ()"
    "git_trees A T" "repository_files A T root context (w_files (a_waited A w))"
    "read_patch_for_run_dir (x_run_dir context) (w_files (a_waited A w)) = Inr patch" "trim patch \<noteq> []"
    "list_all keeps_statuses (a_refresh_meanwhile A # a_refresh_waits A)"
  shows "preserved A T root (w_files (a_waited A w)) (w_files w') \<and>
    statuses (w_db w') = statuses (w_db (a_waited A w))"
  using assms(1)
proof (cases rule: approve_run_cases)
  case (2 x w1)
  then have x: "x = Inl e" "w' = w1" by (cases x; simp)+
  obtain w2 where "integrate_approved_task A H root context (a_waited A w) = (Inl e, w2)"
    "statuses (w_db w1) = statuses (w_db w2)" "w_files w1 = w_files w2"
    using approve_locked_effect [OF assms(8) 2(2)] unfolding x by auto
  with failed_integration_undone [OF this(1) assms(2,4-7)] x(2) show ?thesis by simp
qed (use assms(3) in simp)




section \<open>A small repository\<close>

text \<open>One file \<open>/p/a\<close>, a submission that changes it, and a check command that passes when \<open>passes\<close> says so and
  spoils the file.\<close>

definition line_output :: "string \<Rightarrow> Output" where
  "line_output s = \<lparr> out_success = True, out_code = Some 0, out_status = ''exit status: 0'', out_stdout = s @ [newline], out_stderr = [] \<rparr>"

definition sample_trees :: "string \<Rightarrow> filemap" where
  "sample_trees t = (if t = ''old'' then [''/p/a'' \<mapsto> ''x''] else if t = ''new'' then [''/p/a'' \<mapsto> ''y''] else Map.empty)"

definition sample_capture :: "filemap \<Rightarrow> string res" where
  "sample_capture fs =
    (if fs ''/p/a'' = Some ''x'' then Inr ''old'' else if fs ''/p/a'' = Some ''y'' then Inr ''new'' else Inr ''other'')"

definition sample_approval :: "bool \<Rightarrow> approval" where
  "sample_approval passes = \<lparr> a_root = Inr ''/p'', a_config = (\<lambda>_. Inr \<lparr> cfg_commands = [''make''], cfg_max_check_retries = 3,
      cfg_max_review_cycles = 3, cfg_max_feedback_lines = 2, cfg_max_executor_dispatches = 3, cfg_max_parallel_tasks = 1, cfg_ttl_secs = 60 \<rparr>),
    a_data_dir = (\<lambda>_. Inr ''/d''), a_lock = Inr (), a_waited = (\<lambda>w. w), a_capture = sample_capture,
    a_ignored = (\<lambda>_. Inr (line_output [])), a_ignored_dirs = (\<lambda>_. Inr (line_output [])), a_index_path = Inr (line_output ''.git/index''),
    a_rev_parse = (\<lambda>_. Inr (line_output ''old'')), a_cat_file = (\<lambda>_. Inr (line_output [])), a_read_tree = (\<lambda>t. (Inr (line_output []), t)),
    a_apply_cached = (\<lambda>_ _ _. (Inr (line_output []), ''new'')), a_force_remove = (\<lambda>i _. (Inr (line_output []), i)),
    a_write_tree = (\<lambda>i. Inr (line_output i)), a_commit_tree = (\<lambda>t _ _. Inr (line_output t)), a_merge_tree = (\<lambda>_ t. Inr (line_output t)),
    a_diff_tree = (\<lambda>_ _. Inr ((line_output []) \<lparr> out_stdout := [] \<rparr>)), a_sparse_config = Inr (line_output ''false''), a_check_rules = (\<lambda>_. Inr (line_output [])),
    a_reset_worktree = (\<lambda>_ t fs. (Inr (line_output []), fs ++ sample_trees t)), a_source = (\<lambda>_. Inr None),
    a_exec = (\<lambda>_ _. Inr (passes, [], [])), a_checks_did = (\<lambda>fs. fs(''/p/a'' \<mapsto> ''z'')), a_refresh_waits = [],
    a_refresh_meanwhile = (\<lambda>d. d), a_refresh = Inr None, a_canonicalize = (\<lambda>_. None), a_exists = (\<lambda>_. Inr False),
    a_worktree_remove = (\<lambda>_. Inr (line_output [])), a_show_ref = (\<lambda>_. Inr (line_output [])), a_delete_ref = (\<lambda>_. Inr (line_output [])) \<rparr>"


definition sample_site :: site where
  "sample_site = \<lparr> h_git = sample_git, h_exec = (\<lambda>_. Inr (True, [], [])), h_commands_sha256 = (\<lambda>_. Inr []), h_log = (0, 1, 0),
    h_graph_enabled = Inr False, h_sidecar_path = Inr (), h_query_sidecar_path = Inr (), h_index = (\<lambda>_ _. Unchanged),
    h_meanwhile = (\<lambda>d. d), h_data_dir = Inr (), h_capture = Inl (Bail ''no tree''), h_pin = True, h_release = True,
    h_matches = (\<lambda>_ _. Inr True), h_project_root = Inr (), h_canonicalize = (\<lambda>p. p) \<rparr>"

definition sample_submission :: RuntimeTaskContext where
  "sample_submission = \<lparr> x_task_id = ''t-001'', x_task_path = ''.ferrus/tasks/t-001.md'', x_spec_path = None, x_milestone_id = None,
    x_run_dir = ''.ferrus/runs/t-001'', x_status = ''reviewing'', x_paused_status = None, x_check_retries = 0, x_review_cycles = 0,
    x_failure_reason = None, x_run_id = None, x_run_role = None, x_workspace_path = None, x_repository_workspace_path = None,
    x_repository_view = default_view \<rparr>"

definition reviewed_world :: world where
  "reviewed_world = \<lparr> w_db = empty_db \<lparr> tasks := [new_task_row ''t-001'' ''.ferrus/tasks/t-001.md'' (as_str Reviewing) None None] \<rparr>,
    w_files = sample_checkout \<lparr> files := [''/p/a'' \<mapsto> ''x'', ''/p/.git/index'' \<mapsto> ''i'', ''.ferrus/runs/t-001/PATCH.diff'' \<mapsto> ''p''] \<rparr>,
    w_pins = (\<lambda>_. None) \<rparr>"

lemma sample_laws:
  "git_trees (sample_approval passes) sample_trees"
  "repository_files (sample_approval passes) sample_trees ''/p'' sample_submission (w_files reviewed_world)"
  "list_all keeps_statuses (a_refresh_meanwhile (sample_approval passes) # a_refresh_waits (sample_approval passes))"
proof -
  have fields: "a_capture (sample_approval passes) = sample_capture" "a_index_path (sample_approval passes) = Inr (line_output ''.git/index'')"
    "a_reset_worktree (sample_approval passes) = (\<lambda>_ t fs. (Inr (line_output []), fs ++ sample_trees t))"
    by (simp_all add: sample_approval_def)
  have cap: "sample_trees t \<subseteq>\<^sub>m fs" if "sample_capture fs = Inr t" for fs t
    using that by (auto simp: sample_capture_def sample_trees_def map_le_def split: if_splits)
  show "git_trees (sample_approval passes) sample_trees"
    using cap by (auto simp: git_trees_def fields intro: map_le_map_add)
  have path: "integration_error_path sample_submission (w_files reviewed_world) = ''.ferrus/runs/t-001/INTEGRATION_ERROR.md''" by code_simp
  have "line_of (Inr (line_output ''.git/index'')) ''resolve canonical Git index'' = Inr ''.git/index''"
    "path_join ''/p'' ''.git/index'' = ''/p/.git/index''" "\<not> is_absolute ''.git/index''" by code_simp+
  then have ix: "index_path (sample_approval passes) ''/p'' = Inr ''/p/.git/index''"
    unfolding index_path_def fields by simp
  have out: "outside_trees (sample_approval passes) sample_trees p" if "p \<noteq> ''/p/a''" for p
    using that by (simp add: outside_trees_def sample_trees_def)
  show "repository_files (sample_approval passes) sample_trees ''/p'' sample_submission (w_files reviewed_world)"
    by (simp add: repository_files_def path ix out)
  show "list_all keeps_statuses (a_refresh_meanwhile (sample_approval passes) # a_refresh_waits (sample_approval passes))"
    by (simp add: sample_approval_def keeps_statuses_def)
qed

lemma sample_patch: "read_patch_for_run_dir (x_run_dir sample_submission) (w_files reviewed_world) = Inr ''p''" "trim ''p'' \<noteq> []"
  by code_simp+

theorem failed_approval_is_undone_witness:
  "files (w_files (snd (approve_run_for_context (sample_approval False) sample_site ''/p'' sample_submission reviewed_world))) ''/p/a'' = Some ''x'' \<and>
   statuses (w_db (snd (approve_run_for_context (sample_approval False) sample_site ''/p'' sample_submission reviewed_world))) ''t-001'' =
     Some ''reviewing''"
proof -
  let ?run = "approve_run_for_context (sample_approval False) sample_site ''/p'' sample_submission reviewed_world"
  have "case fst ?run of Inl e \<Rightarrow> known e | Inr _ \<Rightarrow> False" by code_simp
  then obtain e where e: "?run = (Inl e, snd ?run)" "known e"
    by (cases "fst ?run") (simp_all, metis prod.collapse)
  have w: "a_waited (sample_approval False) reviewed_world = reviewed_world" "a_lock (sample_approval False) = Inr ()"
    by (simp_all add: sample_approval_def)
  have now: "preserved (sample_approval False) sample_trees ''/p'' (w_files reviewed_world) (w_files (snd ?run)) \<and>
      statuses (w_db (snd ?run)) = statuses (w_db reviewed_world)"
    using failed_approval_is_undone [OF e w(2) sample_laws(1), unfolded w(1), OF sample_laws(2) sample_patch sample_laws(3)] .
  have "a_capture (sample_approval False) (files (w_files reviewed_world)) = Inr ''old''" by code_simp
  then have "sample_trees ''old'' \<subseteq>\<^sub>m files (w_files (snd ?run))" using now by (simp add: preserved_def)
  moreover have "statuses (w_db reviewed_world) ''t-001'' = Some ''reviewing''" by code_simp
  ultimately show ?thesis using now by (simp add: sample_trees_def map_le_def)
qed



end
