(* ===== verification/Approval_Lifecycle.thy ===== *)
theory Approval_Lifecycle
  imports Tool_Lifecycle Approval
begin

text \<open>
  The approval follows the lifecycle: it takes a task out of review into its final state, and moves no task when it
  fails.
\<close>

section \<open>Steps that move no task\<close>

interpretation integration_failed: phase_keeping "record_task_integration_failed tid run_id reason" for tid run_id reason
proof
  fix d assume inv: "db_inv d"
  show "db_inv (snd (record_task_integration_failed tid run_id reason d))" by (rule db_inv_integration_failed [OF inv])
  have same: "quiet d (update_task tid (\<lambda>t. t \<lparr> t_failure_reason := Some reason \<rparr>) d)" by (rule quiet_update_task) (simp_all add: same_phase_def)
  show "quiet d (snd (record_task_integration_failed tid run_id reason d))"
    using same quiet_frame(1) [OF same]
    by (auto simp: record_task_integration_failed_def Let_def insert_event_def insert_event_in_transaction_def split: option.split)
qed

lemma invalidation_keeping:
  assumes "\<And>s. source = Some s \<Longrightarrow> source_ok s"
  shows "phase_keeping (record_canonical_graph_invalidation_at tid run_id source reason)"
proof
  fix d assume inv: "db_inv d"
  show "db_inv (snd (record_canonical_graph_invalidation_at tid run_id source reason d))"
    using db_inv_invalidation [OF surjective_pairing inv assms] .
  show "quiet d (snd (record_canonical_graph_invalidation_at tid run_id source reason d))"
    by (rule quiet_same_tasks) (rule graph_rows)
qed

lemma refresh_keeping:
  assumes "source_ok src" "snapshot \<noteq> []"
  shows "phase_keeping (record_canonical_graph_refresh task run_id guard src snapshot build)"
proof
  fix d assume inv: "db_inv d"
  show "db_inv (snd (record_canonical_graph_refresh task run_id guard src snapshot build d))"
    using db_inv_refresh [OF surjective_pairing inv assms] .
  show "quiet d (snd (record_canonical_graph_refresh task run_id guard src snapshot build d))"
    by (rule quiet_same_tasks) (rule graph_rows)
qed

interpretation refresh_failed: phase_keeping "\<lambda>d. ((), record_canonical_graph_refresh_failed_best_effort tid run_id guard d)" for tid run_id guard
proof
  fix d assume inv: "db_inv d"
  let ?s = "\<lambda>p. p \<lparr> p_canonical_graph_status := ''stale'' \<rparr>"
  have "db_inv (snd (guarded_update guard ?s (ensure_project_runtime_state_row d)))"
    unfolding guarded_update_def using inv by (auto intro!: inv_intros project_ok_status)
  then show "db_inv (snd ((), record_canonical_graph_refresh_failed_best_effort tid run_id guard d))"
    unfolding record_canonical_graph_refresh_failed_best_effort_def snd_conv using inv
    by (intro db_inv_run_tx) (auto simp: res_bind_Inr_iff dest: db_inv_insert_event(1) split: prod.splits)
  show "quiet d (snd ((), record_canonical_graph_refresh_failed_best_effort tid run_id guard d))"
    unfolding snd_conv by (rule quiet_same_tasks) (rule graph_rows)
qed

lemmas quiet_integration_failed [quiet_tools] = integration_failed.phase_keeping_axioms [THEN quiet_tool_on_db]

lemma quiet_tool_case: "quiet_tool m \<Longrightarrow> (\<And>e. quiet_tool (f e)) \<Longrightarrow> (\<And>a. quiet_tool (g a)) \<Longrightarrow>
  quiet_tool (\<lambda>w. case m w of (Inl e, w1) \<Rightarrow> f e w1 | (Inr a, w1) \<Rightarrow> g a w1)"
  unfolding quiet_tool_def
proof (intro allI impI)
  fix w :: world
  assume m: "\<forall>w. well (w_db w) \<longrightarrow> well (w_db (snd (m w))) \<and> quiet (w_db w) (w_db (snd (m w)))"
    and f: "\<And>e. \<forall>w. well (w_db w) \<longrightarrow> well (w_db (snd (f e w))) \<and> quiet (w_db w) (w_db (snd (f e w)))"
    and g: "\<And>a. \<forall>w. well (w_db w) \<longrightarrow> well (w_db (snd (g a w))) \<and> quiet (w_db w) (w_db (snd (g a w)))"
    and w: "well (w_db w)"
  obtain r w1 where r: "m w = (r, w1)" by fastforce
  then have 1: "well (w_db w1)" "quiet (w_db w) (w_db w1)" using m w by (metis snd_conv)+
  show "well (w_db (snd (case m w of (Inl e, w1) \<Rightarrow> f e w1 | (Inr a, w1) \<Rightarrow> g a w1))) \<and>
      quiet (w_db w) (w_db (snd (case m w of (Inl e, w1) \<Rightarrow> f e w1 | (Inr a, w1) \<Rightarrow> g a w1)))"
    using 1 f g quiet_trans [OF 1(2)] by (cases r) (simp_all add: r)
qed

lemma quiet_report_unmerged [quiet_tools]: "quiet_tool (report_unmerged root ctx e :: 'a tool)"
  unfolding quiet_tool_def
proof (intro allI impI)
  fix w :: world assume w: "well (w_db w)"
  let ?reason = "unmerged_reason root ctx e"
  let ?m = "\<lambda>r. tbind (best_effort (on_db (record_task_integration_failed (x_task_id ctx) (x_run_id ctx) ?reason))) (\<lambda>_. tool_res r) :: 'a tool"
  obtain x c where x: "write_integration_error ctx ?reason (w_files w) = (x, c)" by fastforce
  let ?v = "w \<lparr> w_files := c \<rparr>"
  have v: "w_db ?v = w_db w" by simp
  have "quiet_tool (?m r)" for r by (intro quiet_tools)
  then have "well (w_db ?v) \<longrightarrow> well (w_db (snd (?m r ?v))) \<and> quiet (w_db ?v) (w_db (snd (?m r ?v)))" for r
    unfolding quiet_tool_def by (rule spec)
  then have "well (w_db (snd (?m r ?v))) \<and> quiet (w_db w) (w_db (snd (?m r ?v)))" for r
    unfolding v using w by (rule mp)
  then show "well (w_db (snd (report_unmerged root ctx e w :: 'a res \<times> world))) \<and>
      quiet (w_db w) (w_db (snd (report_unmerged root ctx e w :: 'a res \<times> world)))"
    using w by (cases x) (simp_all add: report_unmerged_def Let_def on_files_def x)
qed

lemma quiet_apply_patch [quiet_tools]: "quiet_tool (apply_approved_patch A root ctx)"
proof -
  have "quiet_tool (\<lambda>w. case on_files (integrate_submission A root ctx) w of
      (Inl e, w1) \<Rightarrow> report_unmerged root ctx e w1 | (Inr snapshot, w1) \<Rightarrow> tool_ret (Some snapshot) w1)"
    by (intro quiet_tool_case quiet_tools)
  then have "quiet_tool (\<lambda>w. case on_files (integrate_submission A root ctx) w of
      (Inl e, w1) \<Rightarrow> report_unmerged root ctx e w1 | (Inr snapshot, w1) \<Rightarrow> (Inr (Some snapshot), w1))"
    unfolding tool_ret_def .
  then show ?thesis unfolding apply_approved_patch_def by (intro quiet_tools) (auto intro: quiet_tools)
qed

lemma quiet_post_checks [quiet_tools]: "quiet_tool (run_post_apply_integration_checks A H ctx config)"
  unfolding run_post_apply_integration_checks_def
  by (auto intro!: quiet_tools split: CheckGateResult.split)

lemma or_undo_case:
  "or_undo A snapshot m f = (\<lambda>w. case m w of (Inl e, w1) \<Rightarrow> on_files (undone A snapshot e) w1 | (Inr a, w1) \<Rightarrow> f a w1)"
  by (simp add: or_undo_def [abs_def])

lemma quiet_or_undo [quiet_tools]: "quiet_tool m \<Longrightarrow> (\<And>a. quiet_tool (f a)) \<Longrightarrow> quiet_tool (or_undo A snapshot m f)"
  unfolding or_undo_case by (intro quiet_tool_case quiet_tools)

lemma quiet_check_integration [quiet_tools]: "quiet_tool (check_integration A H ctx snapshot)"
  unfolding check_integration_def by (intro quiet_tools)

lemma conforms_or_undo:
  assumes "conforms P m (\<lambda>_ _. True)"
  shows "conforms P (or_undo A snapshot m tool_ret) (\<lambda>_ _. True)"
  unfolding conforms_def
proof (intro allI impI)
  fix w w' :: world and r assume w: "well (w_db w)" "P (w_db w)" "or_undo A snapshot m tool_ret w = (r, w')"
  obtain x w1 where x: "m w = (x, w1)" by fastforce
  have "w_db w' = w_db w1"
    using w(3) x by (cases x) (auto simp: or_undo_def on_files_def tool_ret_def split: prod.splits)
  then show "well (w_db w') \<and> follows (w_db w) (w_db w') \<and> (\<forall>a. r = Inr a \<longrightarrow> True)"
    using conformsD [OF assms w(1,2) x] by simp
qed

lemma complete_conforms: "conforms (at (x_task_id ctx) UnderReview) (complete_task root ctx) (\<lambda>_ _. True)"
  unfolding complete_task_def
  by (rule conforms_after [OF _ stable_at accepted_moves]) (auto intro: quiet_tools split: option.split)

lemma integrate_conforms: "conforms (at (x_task_id ctx) UnderReview) (integrate_approved_task A H root ctx) (\<lambda>_ _. True)"
  unfolding integrate_approved_task_def
  by (rule conforms_after [OF quiet_apply_patch stable_at])
     (auto intro!: complete_conforms conforms_after [OF quiet_check_integration stable_at] conforms_or_undo split: option.split)


section \<open>The tool\<close>

definition lawful_db :: "(db \<Rightarrow> db) \<Rightarrow> bool" where
  "lawful_db f = (\<forall>d. well d \<longrightarrow> well (f d) \<and> follows d (f d))"

text \<open>What the model asks of the world around an approval: others follow the lifecycle, decide no review while this
  call waits for the lock, and sources and snapshots have well-formed identifiers.\<close>

definition approval_ok :: "approval \<Rightarrow> bool" where
  "approval_ok A =
    (lawful (a_waited A) \<and>
     (\<forall>w tid. at tid UnderReview (w_db w) \<longrightarrow> at tid UnderReview (w_db (a_waited A w))) \<and>
     (\<forall>fs s. a_source A fs = Inr (Some s) \<longrightarrow> source_ok s) \<and>
     (\<forall>s snapshot build. a_refresh A = Inr (Some (s, snapshot, build)) \<longrightarrow> source_ok s \<and> snapshot \<noteq> []) \<and>
     list_all lawful_db (a_refresh_meanwhile A # a_refresh_waits A))"

lemma lawful_db_fold: "list_all lawful_db fs \<Longrightarrow> well d \<Longrightarrow> well (fold (\<lambda>f. f) fs d) \<and> follows d (fold (\<lambda>f. f) fs d)"
proof (induction fs arbitrary: d)
  case (Cons f fs)
  then have "well (f d)" "follows d (f d)" by (simp_all add: lawful_db_def)
  then show ?case using Cons follows_trans [of d "f d"] by simp
qed simp

lemma quiet_observer:
  assumes "approval_ok A"
  shows "quiet_tool (observer_finish A ctx old ok)"
  unfolding quiet_tool_def
proof (intro allI impI)
  fix w :: world assume w: "well (w_db w)"
  let ?new = "observe_canonical_source A (w_files w)"
  have "source_ok s" if "observed_source ?new = Some s" for s
    using that assms by (auto simp: observe_canonical_source_def approval_ok_def split: sum.splits option.splits)
  then have "quiet_tool (tbind (best_effort (on_db (record_canonical_graph_invalidation_at (x_task_id ctx) (x_run_id ctx)
      (observed_source ?new) (invalidation_reason ok ?new)))) (\<lambda>_. tool_ret (?new \<noteq> Disabled)))"
    by (intro quiet_tools quiet_tool_on_db invalidation_keeping)
  then show "well (w_db (snd (observer_finish A ctx old ok w))) \<and> quiet (w_db w) (w_db (snd (observer_finish A ctx old ok w)))"
    using w by (simp add: observer_finish_def Let_def quiet_tool_def)
qed

lemma refresh_conforms:
  assumes "approval_ok A"
  shows "conforms P (refresh_canonical_graph_best_effort A tid run_id) (\<lambda>_ _. True)"
  unfolding conforms_def
proof (intro allI impI)
  fix w w' :: world and r
  assume w: "well (w_db w)" and res: "refresh_canonical_graph_best_effort A tid run_id w = (r, w')"
  let ?d = "fold (\<lambda>change. change) (a_refresh_waits A) (w_db w)"
  let ?g = "canonical_graph_refresh_guard ?d" and ?d1 = "a_refresh_meanwhile A ?d"
  have d1: "well ?d1" "follows (w_db w) ?d1"
    using assms lawful_db_fold [OF _ w, of "a_refresh_waits A"] follows_trans [of "w_db w" ?d]
    by (auto simp: approval_ok_def lawful_db_def)
  have "well (w_db w') \<and> quiet ?d1 (w_db w')"
  proof (cases "a_refresh A")
    case (Inl e)
    then show ?thesis using res refresh_failed.keeps [OF d1(1) refl] by (auto simp: refresh_canonical_graph_best_effort_def Let_def)
  next
    case (Inr x)
    show ?thesis
    proof (cases x)
      case None
      then show ?thesis using res Inr d1 by (auto simp: refresh_canonical_graph_best_effort_def Let_def)
    next
      case (Some y)
      obtain s snapshot build where y: "y = (s, snapshot, build)" by (cases y)
      have "source_ok s" "snapshot \<noteq> []" using assms Inr Some y by (simp_all add: approval_ok_def)
      note keeping = refresh_keeping [OF this]
      obtain x d2 where x: "record_canonical_graph_refresh (Some tid) run_id ?g s snapshot build ?d1 = (x, d2)" by fastforce
      have "w' = w \<lparr> w_db := d2 \<rparr>"
        using res Inr Some y x by (simp add: refresh_canonical_graph_best_effort_def Let_def)
      then show ?thesis using phase_keeping.keeps [OF keeping d1(1) x] by simp
    qed
  qed
  then show "well (w_db w') \<and> follows (w_db w) (w_db w') \<and> (\<forall>a. r = Inr a \<longrightarrow> True)"
    using follows_trans [OF d1(2) quiet_follows] by blast
qed


lemma after_integration_conforms:
  assumes "approval_ok A"
  shows "conforms (\<lambda>_. True) (after_integration A H ctx succeeded refresh) (\<lambda>_ _. True)"
  unfolding after_integration_def
proof (rule conforms_after)
  show "quiet_tool (if succeeded then tbind (release_submitted_tree_pin_for_task_best_effort H (x_task_id ctx))
      (\<lambda>_. best_effort (on_files (cleanup_approved_workspace A ctx))) else tool_ret ())"
    by (cases succeeded) (auto intro!: quiet_tools)
  have "conforms (\<lambda>_. True) (best_effort m) (\<lambda>_ _. True)" if "conforms (\<lambda>_. True) m (\<lambda>_ _. True)" for m :: "string tool"
    using that unfolding conforms_def best_effort_iff by (metis prod.collapse)
  then show "conforms (\<lambda>_. True) (if refresh then best_effort (refresh_canonical_graph_best_effort A (x_task_id ctx) (x_run_id ctx))
      else tool_ret ()) (\<lambda>_ _. True)"
    by (simp add: refresh_conforms [OF assms] conforms_ret)
qed simp

lemma approve_locked_conforms:
  assumes "approval_ok A"
  shows "conforms (at (x_task_id ctx) UnderReview) (approve_locked A H root ctx) (\<lambda>_ _. True)"
  unfolding conforms_def
proof (intro allI impI)
  fix w w' :: world and r
  assume w: "well (w_db w)" "at (x_task_id ctx) UnderReview (w_db w)" and res: "approve_locked A H root ctx w = (r, w')"
  obtain x w1 where x: "integrate_approved_task A H root ctx w = (x, w1)" by fastforce
  note step = conformsD [OF integrate_conforms w x]
  let ?m = "tbind (observer_finish A ctx (observe_canonical_source A (w_files w)) (\<not> isl x)) (after_integration A H ctx (\<not> isl x))"
  obtain y w2 where y: "?m w1 = (y, w2)" by fastforce
  have "conforms (\<lambda>_. True) ?m (\<lambda>_ _. True)"
    by (rule conforms_after [OF quiet_observer [OF assms] stable_True after_integration_conforms [OF assms]])
  from conformsD [OF this step(1) TrueI y] follows_trans [OF step(2)] res
  show "well (w_db w') \<and> follows (w_db w) (w_db w') \<and> (\<forall>a. r = Inr a \<longrightarrow> True)"
    by (auto simp: approve_locked_def x y)
qed

lemma approve_conforms:
  assumes "approval_ok A"
  shows "conforms (\<lambda>_. True) (approve A H E agent) (\<lambda>_ _. True)"
  unfolding approve_def approve_run_for_context_def
proof (rule conforms_check, rule conforms_context, rule conforms_check, rule conforms_guard [OF conforms_wrong], goal_cases)
  case (1 root ctx p s)
  then have p: "p = UnderReview" using described_reviewing by simp
  have waited: "conforms (at tid UnderReview) (\<lambda>w. (Inr (), a_waited A w)) (\<lambda>_. at tid UnderReview)" for tid
    using assms unfolding conforms_def approval_ok_def lawful_def by simp
  show ?case
    unfolding p
    by (intro conforms_steps conforms_bind [OF waited] conforms_bind [OF approve_locked_conforms [OF assms]], rule conforms_finish)
       (intro quiet_tools)
qed

end
