(* ===== verification/Tool_Steps.thy ===== *)
theory Tool_Steps
  imports Approval_Lifecycle
begin

text \<open>
  Sequences of calls, whichever agents make them and however their waits interleave: they make only moves of the
  lifecycle graph.
\<close>

section \<open>Sequences of calls\<close>

text \<open>One call of a tool by any agent. While an agent waits, other agents make calls.\<close>

inductive tool_step :: "world \<Rightarrow> world \<Rightarrow> bool" where
  step_create: "tool_step w (snd (create_task names description w))"
| step_enqueue: "tool_step w (snd (enqueue_task names description spec milestone w))"
| step_wait_task: "\<forall>x\<in>set later. \<forall>u. tool_step\<^sup>*\<^sup>* u (fst x u) \<Longrightarrow> tool_step w (snd (wait_for_task E agent later w))"
| step_wait_review: "\<forall>x\<in>set later. \<forall>u. tool_step\<^sup>*\<^sup>* u (fst x u) \<Longrightarrow> tool_step w (snd (wait_for_review E agent later w))"
| step_wait_consultation:
    "\<forall>x\<in>set later. \<forall>u. tool_step\<^sup>*\<^sup>* u (fst x u) \<Longrightarrow> tool_step w (snd (wait_for_consultation E agent later w))"
| step_heartbeat: "tool_step w (snd (heartbeat E agent w))"
| step_consult: "tool_step w (snd (consult E agent question w))"
| step_respond: "tool_step w (snd (respond_consult E staged agent response w))"
| step_wait_consult: "\<forall>x\<in>set later. \<forall>u. tool_step\<^sup>*\<^sup>* u (fst x u) \<Longrightarrow> tool_step w (snd (wait_for_consult E agent later w))"
| step_ask: "tool_step w (snd (ask_human E agent question w))"
| step_answer: "tool_step w (snd (answer response w))"
| step_wait_answer: "\<forall>x\<in>set later. \<forall>u. tool_step\<^sup>*\<^sup>* u (fst x u) \<Longrightarrow> tool_step w (snd (wait_for_answer E agent later w))"
| step_check: "site_ok H \<Longrightarrow> tool_step w (snd (check_tool H E agent w))"
| step_submit: "site_ok H \<Longrightarrow> tool_step w (snd (submit H E agent content w))"
| step_review: "tool_step w (snd (review_pending E agent w))"
| step_reject: "tool_step w (snd (reject H E agent notes w))"
| step_approve: "approval_ok A \<Longrightarrow> tool_step w (snd (approve A H E agent w))"
| step_reset: "tool_step w (snd (reset agent w))"

definition conforming :: "world \<Rightarrow> world \<Rightarrow> bool" where
  "conforming w w' = (well (w_db w) \<longrightarrow> well (w_db w') \<and> follows (w_db w) (w_db w'))"

lemma conforms_step: "conforms (\<lambda>_. True) m (\<lambda>_ _. True) \<Longrightarrow> conforming w (snd (m w))"
  unfolding conforms_def conforming_def by (metis prod.collapse)

lemma conforming_rtranclp: "conforming\<^sup>*\<^sup>* w w' \<Longrightarrow> conforming w w'"
proof (induction rule: rtranclp_induct)
  case (step v u)
  then show ?case unfolding conforming_def using follows_trans by blast
qed (simp add: conforming_def)

lemma lawful_polls:
  assumes "\<forall>x\<in>set later. \<forall>u. (\<lambda>a b. tool_step a b \<and> conforming a b)\<^sup>*\<^sup>* u (fst x u)"
  shows "\<forall>x\<in>set later. lawful (fst x)"
proof
  fix x assume "x \<in> set later"
  then have "conforming\<^sup>*\<^sup>* u (fst x u)" for u
    using assms rtranclp_mono [of "\<lambda>a b. tool_step a b \<and> conforming a b" conforming] by blast
  then have "conforming u (fst x u)" for u by (rule conforming_rtranclp)
  then show "lawful (fst x)" by (simp add: lawful_def conforming_def)
qed

lemmas tools_conform [THEN conforms_step] =
  create_task_conforms enqueue_task_conforms heartbeat_conforms consult_conforms respond_consult_conforms
  ask_human_conforms answer_conforms check_tool_conforms submit_conforms review_pending_conforms reject_conforms approve_conforms
  reset_conforms

lemma tool_step_conforming: "tool_step w w' \<Longrightarrow> conforming w w'"
proof (induction rule: tool_step.induct)
  case (step_wait_task later w E agent)
  then show ?case by (rule conforms_step [OF waits_conform(1) [OF lawful_polls]])
next
  case (step_wait_review later w E agent)
  then show ?case by (rule conforms_step [OF waits_conform(2) [OF lawful_polls]])
next
  case (step_wait_consultation later w E agent)
  then show ?case by (rule conforms_step [OF waits_conform(3) [OF lawful_polls]])
next
  case (step_wait_consult later w E agent)
  then show ?case by (rule conforms_step [OF wait_for_consult_conforms [OF lawful_polls]])
next
  case (step_wait_answer later w E agent)
  then show ?case by (rule conforms_step [OF wait_for_answer_conforms [OF lawful_polls]])
qed (rule tools_conform; assumption?)+

lemma tool_steps_conforming: "tool_step\<^sup>*\<^sup>* w w' \<Longrightarrow> conforming w w'"
  using conforming_rtranclp rtranclp_mono [of tool_step conforming] tool_step_conforming by blast


lemma well_rows: "db_inv d \<Longrightarrow> (\<And>t. t \<in> set (tasks d) \<Longrightarrow> phase_of_row t \<noteq> None) \<Longrightarrow> well d"
  by (auto simp: well_def phase_of_def find_task_iff db_inv_keys split: option.split)

lemma well_empty: "well empty_db"
  using db_inv_empty by (rule well_rows) (simp add: empty_db_def)

definition fresh_world :: world where
  "fresh_world = \<lparr> w_db = empty_db, w_files = sample_checkout, w_pins = (\<lambda>_. None) \<rparr>"

lemma event_keeps_rows: "runtime_event run_id kind payload w = (r, w') \<Longrightarrow> find_task k (w_db w') = find_task k (w_db w)"
  by (auto simp: runtime_event_def best_effort_def on_db_def record_runtime_event_def insert_event_def
      insert_event_in_transaction_def split: sum.splits option.splits if_splits)

lemma fresh_world_created: "find_task ''t-001'' (w_db (snd (create_task (Inr []) ''do it'' fresh_world))) \<noteq> None"
proof -
  let ?a = "task_artifact 1" and ?c = "w_files fresh_world"
  let ?d = "insert_task (new_task_row (task_id_text 1) (''.ferrus/tasks/'' @ task_id_text 1 @ ''.md'') (as_str Unknown) None None) empty_db"
  have io: "io ?c (MkdirOp ''.ferrus/tasks'') = Done" "io ?c (MkdirOp ''.ferrus/runs'') = Done"
    and n: "1 = max (max_task_number_from_files []) (max_task_number_in_database empty_db) + 1" by code_simp+
  have "reserve_task_artifact (Inr []) ?c empty_db = (Inr ?a, ?d)"
    using reserve_task_artifact_eq [OF io n] by simp
  then have reserved: "reserve_task_artifact (Inr []) ?c (w_db fresh_world) = (Inr ?a, ?d)" by (simp add: fresh_world_def)
  obtain r c2 d2 where fill: "fill_artifact ?a ''do it'' None None ?c ?d = (r, c2, d2)" by (metis prod_cases3)
  have "fst (fill_artifact ?a ''do it'' None None ?c ?d) = Inr ()"
    "find_task ''t-001'' (snd (snd (fill_artifact ?a ''do it'' None None ?c ?d))) \<noteq> None" by code_simp+
  then have ok: "r = Inr ()" "find_task ''t-001'' d2 \<noteq> None" unfolding fill by simp_all
  have pending: "create_pending_in_world (Inr []) ''do it'' None None fresh_world =
      (Inr ?a, fresh_world \<lparr> w_files := c2, w_db := d2 \<rparr>)"
    unfolding create_pending_in_world_def create_pending_task_artifact_def reserved prod.case sum.case fill ok(1) by simp
  have nonblank: "trim ''do it'' \<noteq> []" by code_simp
  obtain x w' where e: "runtime_event None ''task_created'' (created_payload ?a None None ''do it'')
      (fresh_world \<lparr> w_files := c2, w_db := d2 \<rparr>) = (x, w')" by fastforce
  have "snd (create_task (Inr []) ''do it'' fresh_world) = w'"
    unfolding create_task_def if_not_P [OF nonblank] tbind_def pending prod.case sum.case e by (cases x) (simp_all add: tool_ret_def)
  then show ?thesis using event_keeps_rows [OF e, of "''t-001''"] ok(2) by simp
qed

end
