(* ===== verification/Spec2Isabelle.thy ===== *)
theory Spec2Isabelle
  imports Tool_Steps
begin

text \<open>
  A verification library of Ferrus, an orchestrator that drives coding agents through the tasks of a project.

  \<^bold>\<open>The program.\<close> Agents (an executor that does the work, a supervisor that plans and reviews) talk to a server
  through tools (\<open>src/src/server/tools\<close>). A tool reads and changes the runtime database \<open>ferrus.db\<close>
  (\<open>src/src/project\<close> and \<open>src/src/project.rs\<close>) and the artifacts of a task, Markdown files in its run directory
  (\<open>src/src/state/store.rs\<close>). Tasks come from milestones of specification files (\<open>src/src/specs.rs\<close>). An executor
  claims a task under a lease, runs the configured check commands (\<open>src/src/checks\<close>), may consult the supervisor or
  ask the human, and submits the patch of its worktree; a supervisor claims the review and rejects or approves it.
  A repository graph is indexed beside this; the database keeps references to its snapshots.

  \<^bold>\<open>Theories, from the bottom up.\<close>
  \<^item> \<open>Prelude\<close>: results with errors, byte strings, decimal numbers, 64-bit casts, the time library as the record
    \<open>chrono\<close>, and the list and text lemmas everything shares.
  \<^item> \<open>Runtime_Status\<close>: \<open>runtime_status.rs\<close>, \<open>legacy_state.rs\<close>, \<open>agent_id.rs\<close>. Statuses and their wire names.
  \<^item> \<open>Repository_View\<close>: the identities of \<open>repository_graph/domain.rs\<close> and the view reference of \<open>project.rs\<close>.
  \<^item> \<open>Database\<close>: rows and statements of \<open>project/database.rs\<close>, transactions, and the invariant \<open>db_ok\<close>.
  \<^item> \<open>Claims\<close>: \<open>project/claims.rs\<close>. Leases are exclusive, a claim grants one, a scan takes the least eligible task.
  \<^item> \<open>Task_Transitions\<close>: \<open>project/task.rs\<close>, \<open>project/task/waits.rs\<close>. Submissions, check failures, rejections, the
    dispatch budget and the two pauses, with the error of every statement.
  \<^item> \<open>Runs\<close>, \<open>Recovery\<close>: \<open>project/runs.rs\<close>, \<open>project/runs/recovery.rs\<close>. Agent runs and what a restart repairs.
  \<^item> \<open>Checkout\<close>: \<open>state/store.rs\<close>. Files as a map from paths to bytes; any operation may fail or be torn.
  \<^item> \<open>Registry\<close>: \<open>project/registry.rs\<close>, \<open>project/registry/artifacts.rs\<close>. Creating tasks, listings, recorded answers,
    and the migration of the legacy state file.
  \<^item> \<open>Canonical_Graph\<close>: \<open>project/graph.rs\<close>. Invalidation and guarded refresh of the canonical graph, views of tasks,
    and what garbage collection must keep.
  \<^item> \<open>Schema\<close>: \<open>project/database/schema.rs\<close>. Opening and migrating the database.
  \<^item> \<open>Sessions\<close>: \<open>project/claims/session.rs\<close>. Operations bound to one run.
  \<^item> \<open>Checks\<close>: \<open>checks/runner.rs\<close>, \<open>checks/runner/output.rs\<close>, \<open>server/tools/check_gate.rs\<close>. Running the commands and
    bounding what is shown of their output.
  \<^item> \<open>Tools\<close>, \<open>Pauses\<close>: the tools of the queue and of the pauses, and each pause from its start to its answer.
  \<^item> \<open>Patches\<close>, \<open>Gate_Tools\<close>: \<open>submit.rs\<close>, \<open>check.rs\<close>, \<open>review_pending.rs\<close>, \<open>reject.rs\<close>, \<open>status.rs\<close>.
  \<^item> \<open>Specs\<close>: \<open>specs.rs\<close>. Parsing, planning and ticking milestones.
  \<^item> \<open>Lifecycle\<close>, \<open>Lifecycle_Steps\<close>, \<open>Tool_Lifecycle\<close>: the abstract life of a task and the proof that every tool,
    and every interleaving of tools, follows it.

  \<^bold>\<open>State and effects.\<close> The database is a record of tables, each the list of its rows in insertion order. An operation
  that the code runs in a transaction is a function from database to an error or a result with the new database;
  where the code runs statements outside a transaction, the database of the completed statements stands next to the
  error. The \<open>world\<close> of a tool is the database, the files, and the Git references that pin submitted trees. A tool is
  a sequence of steps of which each may fail, and nothing is undone unless the code undoes it. Two tools interleave
  at the granularity of calls and, for tools that wait, of polls; \<open>tool_step\<close> is the step relation.

  \<^bold>\<open>What stays outside.\<close> Git, the shell, the clock, the time library, path resolution, process liveness, the JSON
  decoder of the legacy state, and the indexer of the repository graph are parameters: fields of the records
  \<open>chrono\<close>, \<open>env\<close>, \<open>site\<close> and \<open>git\<close>, or arguments. Theorems that rely on them name what they rely on as a premise
  and have a witness in which it holds.

  \<^bold>\<open>What the theorems show.\<close> The properties of this theory span the components: every run of the tools refines the
  lifecycle, and every row such a run can reach has consistent columns. Below them stand the guarantees of the
  components: exclusive leases, all-or-nothing submissions and creations, budgets that are never exceeded, crash
  recovery that completes, migrations that lose nothing, a canonical graph that is only called fresh when it is,
  bounded feedback, and answers that reach the agent that waits for them.

  \<^bold>\<open>Bounds and fuel.\<close> Counters are 32-bit words that wrap, lease times are 64-bit words reinterpreted as signed
  numbers, stored integers are unbounded with the conversions of the code written out. A tool that waits takes the
  list of what happens before each of its polls; it returns when the deadline passes, so a list is as long as the
  number of polls, and the liveness theorems give the number of polls after which the answer is seen. Every other
  loop is a structural or well-founded recursion over its data.

  \<^bold>\<open>Not modelled.\<close>
  \<^item> The terminal interface and process supervision (\<open>hq\<close>), the built-in agent (\<open>nano\<close>), the adapters to external
    agents (\<open>agents\<close>), the command line (\<open>cli\<close>) and \<open>platform\<close>: drivers of terminals, processes, sockets and language
    models around the state that is modelled here.
  \<^item> \<open>distributed\<close>, \<open>project_memory\<close> and the indexing, storage and query side of \<open>repository_graph\<close>: services with
    databases of their own. The runtime database refers to them only by the identities modelled here.
  \<^item> The \<open>native_scope\<close> branches of the review tools, in which the same transition runs inside a session of
    \<open>Sessions\<close>.
  \<^item> Indexes, display-only columns, log messages and the wording of JSON replies beyond their fields.
  \<^item> Failures of SQLite itself (a full disk, a locked file), except where the code handles them.
\<close>



text \<open>C4: Every row the tools ever write is well typed. Starting from an empty database, after any sequence of calls
  each task row has a known status; a consultation names the work it pauses, a question to the human names the
  active status it interrupts (and the work, when it interrupts a consultation); the three counters fit 32 bits, the
  lease columns are both set or both empty, and the view columns decode. So no reader of the table ever fails
  on a row.\<close>

theorem reachable_rows_typed:
  assumes "tool_step\<^sup>*\<^sup>* w w'" "w_db w = empty_db" "find_task tid (w_db w') = Some t"
  shows "\<exists>s. from_str (t_status t) = Inr s \<and>
    (s = Consultation \<longrightarrow> t_paused_status t \<in> {Some ''executing'', Some ''addressing''}) \<and>
    (s = AwaitingHuman \<longrightarrow> (\<exists>r. t_awaiting_human_status t = Some (as_str r) \<and>
       r \<in> {Executing, Addressing, Consultation, Reviewing} \<and>
       (r = Consultation \<longrightarrow> t_paused_status t \<in> {Some ''executing'', Some ''addressing''}))) \<and>
    u32_range (t_check_retries t) \<and> u32_range (t_review_cycles t) \<and> u32_range (t_executor_dispatches t) \<and>
    lease_ok t \<and> is_ok (repository_view_reference_from_database (t_view t))"
proof -
  have w: "well (w_db w')" using tool_steps_conforming [OF assms(1)] well_empty assms(2) by (simp add: conforming_def)
  then have ok: "task_ok t" using assms(3) db_inv_task_ok by (auto simp: well_def)
  have "phase_of_row t \<noteq> None" using w assms(3) by (auto simp: well_def phase_of_def dest: spec [of _ tid])
  then obtain p where p: "phase_of_row t = Some p" by blast
  obtain s where s: "from_str (t_status t) = Inr s" using p by (auto simp: phase_of_row_def phase_of_columns_def split: sum.splits)
  have names: "as_str Executing = ''executing''" "as_str Addressing = ''addressing''" by code_simp+
  have "s = Consultation \<longrightarrow> t_paused_status t \<in> {Some ''executing'', Some ''addressing''}"
    using p s by (auto simp: phase_of_row_def phase_of_columns_def base_phase_def work_of_def names split: if_splits)
  moreover have "s = AwaitingHuman \<longrightarrow> (\<exists>r. t_awaiting_human_status t = Some (as_str r) \<and>
       r \<in> {Executing, Addressing, Consultation, Reviewing} \<and>
       (r = Consultation \<longrightarrow> t_paused_status t \<in> {Some ''executing'', Some ''addressing''}))"
  proof
    assume "s = AwaitingHuman"
    then obtain r q where r: "t_awaiting_human_status t = Some (as_str r)" "base_phase r (t_paused_status t) = Some q"
      using p s by (auto simp: phase_of_row_def phase_of_columns_def from_str_iff split: option.splits sum.splits)
    then have "r \<in> {Executing, Addressing, Consultation, Reviewing} \<and>
       (r = Consultation \<longrightarrow> t_paused_status t \<in> {Some ''executing'', Some ''addressing''})"
      by (cases r) (auto simp: base_phase_def work_of_def names split: if_splits)
    with r(1) show "\<exists>r. t_awaiting_human_status t = Some (as_str r) \<and>
       r \<in> {Executing, Addressing, Consultation, Reviewing} \<and>
       (r = Consultation \<longrightarrow> t_paused_status t \<in> {Some ''executing'', Some ''addressing''})" by blast
  qed
  ultimately show ?thesis using s ok by (auto simp: task_ok_def view_cols_ok_def)
qed

theorem reachable_rows_typed_witness:
  "\<exists>t s. find_task ''t-001'' (w_db (snd (create_task (Inr []) ''do it'' fresh_world))) = Some t \<and> from_str (t_status t) = Inr s"
proof -
  let ?w = "snd (create_task (Inr []) ''do it'' fresh_world)"
  have step: "tool_step\<^sup>*\<^sup>* fresh_world ?w" by (rule r_into_rtranclp [of tool_step, OF step_create])
  have empty: "w_db fresh_world = empty_db" by (simp add: fresh_world_def)
  obtain t where t: "find_task ''t-001'' (w_db ?w) = Some t" using fresh_world_created by blast
  from reachable_rows_typed [OF step empty t] t show ?thesis by blast
qed

text \<open>C40: What the database stores as text comes back as the value it was written from. A status column parses to a
  status exactly when it holds the name of that status, and the seven view columns decode to a view exactly when
  the view passes validation, its identifiers are not empty and its digest is well formed, and the columns are
  what the view is written as.\<close>

theorem stored_values_round_trip:
  "(from_str v = Inr s \<longleftrightarrow> v = as_str s) \<and>
   (repository_view_reference_from_database c = Inr view \<longleftrightarrow>
      validate_view view = Inr () \<and> view_ids_ok view \<and> c = view_columns view)"
  using from_str_iff view_round_trip view_decodeD by blast

end
